(* ===== verification/Go_Prelude.thy ===== *)
theory Go_Prelude
  imports Main "HOL-Library.Word"
begin

text \<open>
  The shared base of the development: the Go values the proxy computes with and the generic
  lemmas on them.

  \<^item> Bytes are \<open>8 word\<close>, \<open>int16\<close> and \<open>int32\<close> are \<open>16 word\<close> and \<open>32 word\<close> (read with
    \<open>sint\<close> where the code compares them as signed numbers). Go's \<open>int\<close> is \<open>int\<close>; lengths and
    offsets, which are never negative in the code, are \<open>nat\<close>.
  \<^item> Go strings are byte strings; \<open>btos\<close> and \<open>stob\<close> are the conversions \<open>string(b)\<close> and
    \<open>[]byte(s)\<close>.
  \<^item> An error return is the left of a sum; \<open>Wrap\<close> is \<open>fmt.Errorf\<close> with \<open>%w\<close>, and a run-time
    panic is the error value \<open>Panic\<close>, which no caller wraps.
  \<^item> Times and durations are integers (nanoseconds); the zero \<open>time.Time\<close> is instant 0 (the
    first of January of year 1) and \<open>time.Since\<close> saturates at the 64-bit bounds as in Go.
  \<^item> The locale \<open>prefix_parser\<close> is the contract of every cursor-based wire parser of the
    proxy; the counted loops over such parsers inherit it.
\<close>

named_theorems be_simps \<open>big-endian encoders and decoders on concrete layouts\<close>

type_synonym byte = "8 word"
type_synonym int16 = "16 word"
type_synonym int32 = "32 word"

section \<open>Errors and results\<close>

datatype error =
    ErrFrameTooShort
  | ErrMetadataTooShort
  | ErrInvalidBrokerArray
  | ErrBrokerHostTooLong
  | ErrMetadataResponseTooLarge
  | ErrEOF
  | Errorf string
  | Wrap string error
  | Panic string

fun is_panic :: "error \<Rightarrow> bool" where
  "is_panic (Panic _) = True"
| "is_panic _ = False"

text \<open>\<open>if err != nil { return fmt.Errorf("ctx: %w", err) }\<close>: a panic passes through unwrapped.\<close>

fun wrap_err :: "string \<Rightarrow> error + 'a \<Rightarrow> error + 'a" where
  "wrap_err ctx (Inl e) = Inl (if is_panic e then e else Wrap ctx e)"
| "wrap_err ctx (Inr x) = Inr x"

text \<open>\<open>errors.Is\<close> on a chain of wrapped errors.\<close>

fun errors_Is :: "error \<Rightarrow> error \<Rightarrow> bool" where
  "errors_Is (Wrap c e) t = (Wrap c e = t \<or> errors_Is e t)"
| "errors_Is e t = (e = t)"

lemma wrap_err_Inr [simp]: "wrap_err ctx r = Inr x \<longleftrightarrow> r = Inr x"
  by (cases r) auto

section \<open>Slices and big-endian integers\<close>

definition slice :: "'a list \<Rightarrow> nat \<Rightarrow> nat \<Rightarrow> 'a list" where
  "slice xs i j = take (j - i) (drop i xs)"

text \<open>Go's \<open>copy(dst[off:], src)\<close>, which copies as many bytes as fit.\<close>

definition copy_at :: "'a list \<Rightarrow> nat \<Rightarrow> 'a list \<Rightarrow> 'a list" where
  "copy_at dst off src = take off dst @ take (length dst - off) src @ drop (off + length src) dst"

definition be_nat :: "byte list \<Rightarrow> nat" where
  "be_nat bs = foldl (\<lambda>n b. n * 256 + unat b) 0 bs"

primrec nat_be :: "nat \<Rightarrow> nat \<Rightarrow> byte list" where
  "nat_be 0 n = []"
| "nat_be (Suc k) n = nat_be k (n div 256) @ [word_of_nat (n mod 256)]"

definition Uint16 :: "byte list \<Rightarrow> int16" where
  "Uint16 bs = word_of_nat (be_nat (take 2 bs))"

definition Uint32 :: "byte list \<Rightarrow> int32" where
  "Uint32 bs = word_of_nat (be_nat (take 4 bs))"

definition PutUint16 :: "int16 \<Rightarrow> byte list" where
  "PutUint16 w = nat_be 2 (unat w)"

definition PutUint32 :: "int32 \<Rightarrow> byte list" where
  "PutUint32 w = nat_be 4 (unat w)"

lemma be_nat_Nil [simp]: "be_nat [] = 0"
  by (simp add: be_nat_def)

lemma be_nat_snoc: "be_nat (bs @ [b]) = be_nat bs * 256 + unat b"
  by (simp add: be_nat_def)

lemma length_nat_be [simp]: "length (nat_be k n) = k"
  by (induction k arbitrary: n) auto

lemma unat_byte_lt [simp]: "unat (b :: byte) < 256"
  using unsigned_less [where 'a = nat, of b] by simp

lemma unat_word_of_nat_mod_byte: "unat (word_of_nat (n mod 256) :: byte) = n mod 256"
  by (simp add: unat_of_nat)

lemma be_nat_nat_be: "be_nat (nat_be k n) = n mod 256 ^ k"
proof (induction k arbitrary: n)
  case 0
  show ?case by simp
next
  case (Suc k)
  have "be_nat (nat_be (Suc k) n) = (n div 256 mod 256 ^ k) * 256 + n mod 256"
    by (simp add: be_nat_snoc Suc unat_word_of_nat_mod_byte)
  also have "\<dots> = n mod 256 ^ Suc k"
    by (simp add: mod_mult2_eq)
  finally show ?case .
qed

lemma be_nat_bound: "be_nat bs < 256 ^ length bs"
proof (induction bs rule: rev_induct)
  case Nil
  show ?case by simp
next
  case (snoc b bs)
  have "be_nat bs * 256 + unat b < Suc (be_nat bs) * 256"
    by (simp add: unat_byte_lt)
  also have "\<dots> \<le> 256 ^ length bs * 256"
    using snoc by (intro mult_le_mono1) simp
  finally show ?case by (simp add: be_nat_snoc mult.commute)
qed

lemma nat_be_be_nat: "length bs = k \<Longrightarrow> nat_be k (be_nat bs) = bs"
proof (induction bs arbitrary: k rule: rev_induct)
  case Nil
  then show ?case by simp
next
  case (snoc b bs)
  then show ?case by (cases k) (auto simp: be_nat_snoc)
qed

lemma length_PutUint16 [simp]: "length (PutUint16 w) = 2"
  by (simp add: PutUint16_def)

lemma length_PutUint32 [simp]: "length (PutUint32 w) = 4"
  by (simp add: PutUint32_def)

lemma Uint16_PutUint16 [simp]: "Uint16 (PutUint16 w @ r) = w"
  using unsigned_less [where 'a = nat, of w]
  by (simp add: Uint16_def PutUint16_def be_nat_nat_be)

lemma Uint32_PutUint32 [simp]: "Uint32 (PutUint32 w @ r) = w"
  using unsigned_less [where 'a = nat, of w]
  by (simp add: Uint32_def PutUint32_def be_nat_nat_be)

lemma Uint16_PutUint16_alone [simp]: "Uint16 (PutUint16 w) = w"
  using Uint16_PutUint16 [of w "[]"] by simp

lemma Uint32_PutUint32_alone [simp]: "Uint32 (PutUint32 w) = w"
  using Uint32_PutUint32 [of w "[]"] by simp

lemma PutUint16_Uint16 [simp]: "2 \<le> length bs \<Longrightarrow> PutUint16 (Uint16 bs) = take 2 bs"
  using be_nat_bound [of "take 2 bs"] nat_be_be_nat [of "take 2 bs" 2]
  by (simp add: Uint16_def PutUint16_def unat_of_nat min_absorb2)

lemma PutUint32_Uint32 [simp]: "4 \<le> length bs \<Longrightarrow> PutUint32 (Uint32 bs) = take 4 bs"
  using be_nat_bound [of "take 4 bs"] nat_be_be_nat [of "take 4 bs" 4]
  by (simp add: Uint32_def PutUint32_def unat_of_nat min_absorb2)

lemma Uint16_take [simp]: "2 \<le> n \<Longrightarrow> Uint16 (take n bs) = Uint16 bs"
  by (simp add: Uint16_def min_def)

lemma Uint32_take [simp]: "4 \<le> n \<Longrightarrow> Uint32 (take n bs) = Uint32 bs"
  by (simp add: Uint32_def min_def)

lemma Uint16_append: "2 \<le> length bs \<Longrightarrow> Uint16 (bs @ r) = Uint16 bs"
  by (simp add: Uint16_def)

lemma Uint32_append: "4 \<le> length bs \<Longrightarrow> Uint32 (bs @ r) = Uint32 bs"
  by (simp add: Uint32_def)

lemma sint_int16_nonneg: "n < 2 ^ 15 \<Longrightarrow> sint (word_of_nat n :: int16) = int n"
  by (simp add: signed_of_nat signed_take_bit_int_eq_self)

lemma sint_int16_range: "- 32768 \<le> sint (w :: int16)" "sint (w :: int16) < 32768"
  using sint_greater_eq [of w] sint_less [of w] by simp_all

lemma sint_int32_range: "- 2147483648 \<le> sint (w :: int32)" "sint (w :: int32) < 2147483648"
  using sint_greater_eq [of w] sint_less [of w] by simp_all

lemma word_of_nat_sint_int16: "0 \<le> sint (w :: int16) \<Longrightarrow> word_of_nat (nat (sint w)) = w"
  by simp

lemma sint_int32_nonneg: "n < 2 ^ 31 \<Longrightarrow> sint (word_of_nat n :: int32) = int n"
  by (simp add: signed_of_nat signed_take_bit_int_eq_self)

lemma unat_int32_of_nat: "n < 2 ^ 32 \<Longrightarrow> unat (word_of_nat n :: int32) = n"
  by (simp add: unat_of_nat)

lemma length_slice [simp]: "length (slice xs i j) = min (j - i) (length xs - i)"
  by (simp add: slice_def)

lemma length_copy_at [simp]: "off \<le> length dst \<Longrightarrow> length (copy_at dst off src) = length dst"
  by (auto simp: copy_at_def min_def)

text \<open>Writing consecutive segments into a buffer of exactly their total size.\<close>

lemma copy_at_front:
  "off = length pre \<Longrightarrow> length src \<le> length suf \<Longrightarrow>
   copy_at (pre @ suf) off src = pre @ src @ drop (length src) suf"
  by (simp add: copy_at_def)

section \<open>Strings\<close>

definition btos :: "byte list \<Rightarrow> string" where
  "btos bs = map (\<lambda>b. char_of (unat b)) bs"

definition stob :: "string \<Rightarrow> byte list" where
  "stob s = map (\<lambda>c. word_of_nat (of_char c)) s"

lemma length_btos [simp]: "length (btos bs) = length bs"
  by (simp add: btos_def)

lemma stob_Nil [simp]: "stob [] = []"
  by (simp add: stob_def)

lemma btos_Nil [simp]: "btos [] = []"
  by (simp add: btos_def)

lemma length_stob [simp]: "length (stob s) = length s"
  by (simp add: stob_def)

lemma of_char_lt_256: "(of_char c :: nat) < 256"
  using of_char_mod_256 [of c, where 'a = nat] by (metis mod_less_divisor zero_less_numeral)

lemma btos_stob [simp]: "btos (stob s) = s"
  by (induction s) (auto simp: btos_def stob_def unat_of_nat of_char_mod_256)

lemma stob_btos [simp]: "stob (btos bs) = bs"
  by (induction bs) (auto simp: btos_def stob_def of_char_of)

lemma btos_append: "btos (xs @ ys) = btos xs @ btos ys"
  by (simp add: btos_def)

lemma stob_inject [simp]: "stob s = stob t \<longleftrightarrow> s = t"
  by (metis btos_stob)

text \<open>\<open>fmt.Sprintf("%d", n)\<close>.\<close>

definition digit_char :: "nat \<Rightarrow> char" where
  "digit_char d = char_of (48 + d)"

fun show_nat :: "nat \<Rightarrow> string" where
  "show_nat n = (if n < 10 then [digit_char n] else show_nat (n div 10) @ [digit_char (n mod 10)])"

declare show_nat.simps [simp del]

definition show_int :: "int \<Rightarrow> string" where
  "show_int i = (if i < 0 then CHR ''-'' # show_nat (nat (- i)) else show_nat (nat i))"

fun read_nat :: "string \<Rightarrow> nat" where
  "read_nat s = foldl (\<lambda>n c. n * 10 + (of_char c - 48)) 0 s"

lemma of_char_digit_char: "d < 10 \<Longrightarrow> of_char (digit_char d) = 48 + d"
  by (simp add: digit_char_def of_char_of)

lemma read_nat_show_nat: "read_nat (show_nat n) = n"
proof (induction n rule: show_nat.induct)
  case (1 n)
  show ?case
  proof (cases "n < 10")
    case True
    then show ?thesis by (simp add: show_nat.simps [of n] of_char_digit_char)
  next
    case False
    with "1" show ?thesis
      by (simp add: show_nat.simps [of n] of_char_digit_char)
  qed
qed

lemma show_nat_inject: "show_nat m = show_nat n \<longleftrightarrow> m = n"
  by (metis read_nat_show_nat)

lemma set_show_nat: "set (show_nat n) \<subseteq> digit_char ` {..<10}"
proof (induction n rule: show_nat.induct)
  case (1 n)
  then show ?case by (cases "n < 10") (auto simp: show_nat.simps [of n])
qed

lemma digit_char_neq:
  "d < 10 \<Longrightarrow> of_char c < (48::nat) \<Longrightarrow> digit_char d \<noteq> c"
  using of_char_digit_char [of d] by auto

lemma show_nat_no_low_char: "of_char c < (48::nat) \<Longrightarrow> c \<notin> set (show_nat n)"
  using set_show_nat [of n] digit_char_neq by blast

lemma show_int_no_slash: "CHR ''/'' \<notin> set (show_int i)"
  using show_nat_no_low_char [of "CHR ''/''"] by (simp add: show_int_def)

lemma show_int_inject: "show_int i = show_int j \<longleftrightarrow> i = j"
proof -
  have h: "CHR ''-'' # s \<noteq> show_nat n" for s n
  proof
    assume "CHR ''-'' # s = show_nat n"
    then have "CHR ''-'' \<in> set (show_nat n)" by (metis list.set_intros(1))
    then show False using show_nat_no_low_char [of "CHR ''-''" n] by simp
  qed
  show ?thesis by (auto simp: show_int_def show_nat_inject h h [THEN not_sym])
qed

section \<open>Times and durations\<close>

type_synonym Time = int
type_synonym Duration = int

definition zero_time :: Time where
  "zero_time = 0"

definition maxDuration :: Duration where
  "maxDuration = 2 ^ 63 - 1"

definition minDuration :: Duration where
  "minDuration = - (2 ^ 63)"

definition second :: Duration where
  "second = 1000000000"

text \<open>\<open>time.Since(t)\<close> at instant \<open>now\<close>: the difference, saturated at the 64-bit bounds.\<close>

definition Since :: "Time \<Rightarrow> Time \<Rightarrow> Duration" where
  "Since now t = max minDuration (min maxDuration (now - t))"

lemma Since_le_iff: "minDuration < d \<Longrightarrow> d \<le> maxDuration \<Longrightarrow> d \<le> Since now t \<longleftrightarrow> d \<le> now - t"
  by (auto simp: Since_def)

lemma Since_less_iff: "minDuration < d \<Longrightarrow> d \<le> maxDuration \<Longrightarrow> Since now t < d \<longleftrightarrow> now - t < d"
  by (auto simp: Since_def)

section \<open>Go maps\<close>

text \<open>
  \<open>for k, v := range m\<close> visits the keys of a map in an unspecified order: an operation that
  ranges over a map takes the order as an argument, a list that enumerates the keys.
\<close>

definition enumerates :: "'k list \<Rightarrow> ('k \<rightharpoonup> 'v) \<Rightarrow> bool" where
  "enumerates ks m \<longleftrightarrow> distinct ks \<and> set ks = dom m"

section \<open>Wire parsers\<close>

text \<open>
  A cursor-based parser takes the remaining bytes and returns a value with the number of bytes
  it consumed. \<open>parse_many\<close> is the counted loop \<open>for i := 0; i < k; i++\<close> that the wire code
  writes around such a parser: it starts at \<open>pos\<close>, wraps an element's error with the loop's
  context and returns the elements with the final offset.
\<close>

primrec parse_many ::
  "(nat \<Rightarrow> string) \<Rightarrow> (byte list \<Rightarrow> error + 'a \<times> nat) \<Rightarrow> nat \<Rightarrow> nat \<Rightarrow> byte list \<Rightarrow> nat \<Rightarrow>
   error + 'a list \<times> nat" where
  "parse_many ctx p i 0 data pos = Inr ([], pos)"
| "parse_many ctx p i (Suc k) data pos =
     (case wrap_err (ctx i) (p (drop pos data)) of
        Inl e \<Rightarrow> Inl e
      | Inr (x, n) \<Rightarrow>
          (case parse_many ctx p (Suc i) k data (pos + n) of
             Inl e \<Rightarrow> Inl e
           | Inr (xs, q) \<Rightarrow> Inr (x # xs, q)))"

lemma parse_many_Suc_Inr:
  assumes "parse_many ctx p i (Suc k) data pos = Inr (xs, q)"
  obtains x n ys where "p (drop pos data) = Inr (x, n)"
    and "parse_many ctx p (Suc i) k data (pos + n) = Inr (ys, q)" and "xs = x # ys"
  using assms by (auto split: sum.splits prod.splits)

locale prefix_parser =
  fixes p :: "byte list \<Rightarrow> error + 'a \<times> nat"
  assumes consumed: "p d = Inr (x, n) \<Longrightarrow> n \<le> length d"
    and local: "p d = Inr (x, n) \<Longrightarrow> p (take n d @ r) = Inr (x, n)"
begin

lemma many_consumed:
  "parse_many ctx p i k data pos = Inr (xs, q) \<Longrightarrow> pos \<le> length data \<Longrightarrow>
   pos \<le> q \<and> q \<le> length data \<and> length xs = k"
proof (induction k arbitrary: i pos xs)
  case 0
  then show ?case by simp
next
  case (Suc k)
  from Suc.prems(1) obtain x n ys where *: "p (drop pos data) = Inr (x, n)"
    "parse_many ctx p (Suc i) k data (pos + n) = Inr (ys, q)" "xs = x # ys"
    by (rule parse_many_Suc_Inr)
  from consumed [OF *(1)] Suc.prems(2) have "pos + n \<le> length data" by simp
  with Suc.IH [OF *(2)] *(3) show ?case by simp
qed

text \<open>The loop depends only on the bytes it consumed, wherever they stand.\<close>

lemma many_local:
  "parse_many ctx p i k data pos = Inr (xs, q) \<Longrightarrow> pos \<le> length data \<Longrightarrow>
   parse_many ctx p i k (pre @ slice data pos q @ r) (length pre) = Inr (xs, length pre + (q - pos))"
proof (induction k arbitrary: i pos xs pre)
  case 0
  then show ?case by simp
next
  case (Suc k)
  from Suc.prems(1) obtain x n ys where *: "p (drop pos data) = Inr (x, n)"
    "parse_many ctx p (Suc i) k data (pos + n) = Inr (ys, q)" "xs = x # ys"
    by (rule parse_many_Suc_Inr)
  have le: "pos + n \<le> length data" using consumed [OF *(1)] Suc.prems(2) by simp
  have q: "pos + n \<le> q" "q \<le> length data"
    using many_consumed [OF *(2) le] by auto
  define w where "w = take n (drop pos data)"
  have lw: "length w = n" using le by (simp add: w_def)
  have split: "slice data pos q = w @ slice data (pos + n) q"
  proof -
    have "q - pos = n + (q - (pos + n))" using q(1) by simp
    then show ?thesis
      by (simp add: slice_def w_def take_add add.commute)
  qed
  have hd: "p (w @ slice data (pos + n) q @ r) = Inr (x, n)"
    using local [OF *(1)] by (simp add: w_def)
  have tl: "parse_many ctx p (Suc i) k ((pre @ w) @ slice data (pos + n) q @ r) (length (pre @ w))
      = Inr (ys, length (pre @ w) + (q - (pos + n)))"
    by (rule Suc.IH [OF *(2) le])
  show ?case using hd tl q(1) by (simp add: split *(3) lw)
qed

end

text \<open>
  A parser that reads what an encoder wrote, giving the value \<open>val\<close> of what was encoded: the
  counted loop over it reads back a list of encodings.
\<close>

locale value_codec =
  fixes p :: "byte list \<Rightarrow> error + 'b \<times> nat"
    and enc :: "'a \<Rightarrow> byte list"
    and val :: "'a \<Rightarrow> 'b"
    and ok :: "'a \<Rightarrow> bool"
  assumes dec_val: "ok x \<Longrightarrow> p (enc x @ r) = Inr (val x, length (enc x))"
begin

lemma many_val:
  "list_all ok xs \<Longrightarrow>
   parse_many ctx p i (length xs) (pre @ concat (map enc xs) @ r) (length pre)
     = Inr (map val xs, length pre + length (concat (map enc xs)))"
proof (induction xs arbitrary: i pre)
  case Nil
  then show ?case by simp
next
  case (Cons x xs)
  have "p (enc x @ concat (map enc xs) @ r) = Inr (val x, length (enc x))"
    using Cons.prems by (intro dec_val) simp
  moreover have "parse_many ctx p (Suc i) (length xs) ((pre @ enc x) @ concat (map enc xs) @ r)
      (length (pre @ enc x)) = Inr (map val xs, length (pre @ enc x) + length (concat (map enc xs)))"
    using Cons.prems by (intro Cons.IH) simp
  ultimately show ?case by (simp add: add.assoc)
qed

end

text \<open>A prefix parser with an encoder whose output it reads back unchanged.\<close>

locale prefix_codec = prefix_parser +
  fixes enc :: "'a \<Rightarrow> byte list"
    and ok :: "'a \<Rightarrow> bool"
  assumes dec_enc: "ok x \<Longrightarrow> p (enc x @ r) = Inr (x, length (enc x))"

sublocale prefix_codec \<subseteq> vc: value_codec p enc "\<lambda>x. x" ok
  by unfold_locales (rule dec_enc)

context prefix_codec
begin

lemma many_enc:
  "list_all ok xs \<Longrightarrow>
   parse_many ctx p i (length xs) (pre @ concat (map enc xs) @ r) (length pre)
     = Inr (xs, length pre + length (concat (map enc xs)))"
  using vc.many_val by simp

end

end
