(* ===== verification/Protocol.thy ===== *)
theory Protocol
  imports Go_Prelude
begin

text \<open>
  The Kafka frame parser of \<^verbatim>\<open>internal/protocol\<close>: API keys and version ranges
  (\<^verbatim>\<open>versions.go\<close>), request and response headers and the pooled frame writer
  (\<^verbatim>\<open>parser.go\<close>), and the string reader of \<^verbatim>\<open>internal/routing/data.go\<close>. The backing array
  that \<^verbatim>\<open>WriteFrame\<close> takes from its \<^verbatim>\<open>sync.Pool\<close> is an argument: it holds whatever an
  earlier frame left there, and the lemmas show that none of it survives in the frame.
\<close>

section \<open>API keys and versions\<close>

definition APIKeyProduce :: int16 where [simp]: "APIKeyProduce = 0"
definition APIKeyFetch :: int16 where [simp]: "APIKeyFetch = 1"
definition APIKeyMetadata :: int16 where [simp]: "APIKeyMetadata = 3"
definition APIKeySaslHandshake :: int16 where [simp]: "APIKeySaslHandshake = 17"
definition APIKeySaslAuthenticate :: int16 where [simp]: "APIKeySaslAuthenticate = 36"

record VersionRange =
  MinVersion :: int16
  MaxVersion :: int16

definition SupportedAPIs :: "int16 \<rightharpoonup> VersionRange" where
  "SupportedAPIs = [
     APIKeyProduce \<mapsto> \<lparr>MinVersion = 0, MaxVersion = 9\<rparr>,
     APIKeyFetch \<mapsto> \<lparr>MinVersion = 0, MaxVersion = 12\<rparr>,
     APIKeyMetadata \<mapsto> \<lparr>MinVersion = 0, MaxVersion = 12\<rparr>,
     APIKeySaslHandshake \<mapsto> \<lparr>MinVersion = 0, MaxVersion = 1\<rparr>,
     APIKeySaslAuthenticate \<mapsto> \<lparr>MinVersion = 0, MaxVersion = 2\<rparr>]"

definition IsSupported :: "int16 \<Rightarrow> int16 \<Rightarrow> bool" where
  "IsSupported apiKey version =
     (case SupportedAPIs apiKey of
        None \<Rightarrow> False
      | Some r \<Rightarrow> sint version \<ge> sint (MinVersion r) \<and> sint version \<le> sint (MaxVersion r))"

definition GetMaxVersion :: "int16 \<Rightarrow> int16 \<times> bool" where
  "GetMaxVersion apiKey =
     (case SupportedAPIs apiKey of None \<Rightarrow> (0, False) | Some r \<Rightarrow> (MaxVersion r, True))"

section \<open>Headers\<close>

record RequestHeader =
  rhSize :: int32
  rhAPIKey :: int16
  rhAPIVersion :: int16
  rhCorrelationID :: int32
  rhClientID :: string

record ResponseHeader =
  rspSize :: int32
  rspCorrelationID :: int32

definition fixedHeaderLen :: nat where
  "fixedHeaderLen = 14"

definition ParseRequestHeader :: "byte list \<Rightarrow> error + RequestHeader" where
  "ParseRequestHeader data =
     (if length data < fixedHeaderLen then Inl ErrFrameTooShort
      else
        let size = Uint32 (slice data 0 4);
            apiKey = Uint16 (slice data 4 6);
            apiVersion = Uint16 (slice data 6 8);
            correlationID = Uint32 (slice data 8 12);
            clientIDLen = Uint16 (slice data 12 14);
            hdr = (\<lambda>clientID. \<lparr>rhSize = size, rhAPIKey = apiKey, rhAPIVersion = apiVersion,
                     rhCorrelationID = correlationID, rhClientID = clientID\<rparr>)
        in if sint clientIDLen = - 1 then Inr (hdr '''')
           else if 0 < sint clientIDLen then
             let end = fixedHeaderLen + nat (sint clientIDLen)
             in if length data < end then Inl ErrFrameTooShort
                else Inr (hdr (btos (slice data fixedHeaderLen end)))
           else Inr (hdr ''''))"

definition ParseResponseHeader :: "byte list \<Rightarrow> error + ResponseHeader" where
  "ParseResponseHeader data =
     (if length data < 8 then Inl ErrFrameTooShort
      else Inr \<lparr>rspSize = Uint32 (slice data 0 4), rspCorrelationID = Uint32 (slice data 4 8)\<rparr>)"

text \<open>
  \<open>pooled\<close> is the backing array of the buffer taken from \<open>bufferPool\<close>, to its full capacity.
\<close>

definition WriteFrame :: "byte list \<Rightarrow> byte list \<Rightarrow> byte list \<Rightarrow> byte list" where
  "WriteFrame pooled header body =
     (let totalSize = 4 + length header + length body;
          buf = (if length pooled < totalSize then replicate totalSize 0 else take totalSize pooled);
          buf = copy_at buf 0 (PutUint32 (word_of_nat (length header + length body)));
          buf = copy_at buf 4 header
      in copy_at buf (4 + length header) body)"

text \<open>\<open>ReleaseFrame\<close>: what the pool holds afterwards (a slice of capacity 0 is not returned).\<close>

definition ReleaseFrame :: "byte list list \<Rightarrow> byte list \<Rightarrow> byte list list" where
  "ReleaseFrame pool buf = (if 0 < length buf then buf # pool else pool)"

text \<open>\<open>readString\<close> of \<^verbatim>\<open>routing/data.go\<close>: a Kafka string at an offset.\<close>

definition readString :: "byte list \<Rightarrow> nat \<Rightarrow> error + int16 \<times> string \<times> nat" where
  "readString data off =
     (if length data < off + 2 then Inl (Errorf ''string truncated at position'')
      else
        let len = Uint16 (drop off data); off2 = off + 2
        in if sint len < 0 then Inr (len, '''', off2)
           else let end = off2 + nat (sint len)
                in if length data < end then Inl (Errorf ''string truncated: length'')
                   else Inr (len, btos (slice data off2 end), end))"

text \<open>The layout that the header comment documents, as an encoder (after the size prefix).\<close>

definition encode_header :: "int16 \<Rightarrow> int16 \<Rightarrow> int32 \<Rightarrow> string \<Rightarrow> byte list" where
  "encode_header apiKey apiVersion corr clientID =
     PutUint16 apiKey @ PutUint16 apiVersion @ PutUint32 corr
       @ PutUint16 (word_of_nat (length clientID)) @ stob clientID"

text \<open>As a client writes it: the client id is nullable, and null is the length \<open>-1\<close>.\<close>

definition encode_client_id :: "string option \<Rightarrow> byte list" where
  "encode_client_id clientID =
     (case clientID of None \<Rightarrow> PutUint16 (- 1) | Some s \<Rightarrow> PutUint16 (word_of_nat (length s)) @ stob s)"

definition encode_request_header :: "int16 \<Rightarrow> int16 \<Rightarrow> int32 \<Rightarrow> string option \<Rightarrow> byte list" where
  "encode_request_header apiKey apiVersion corr clientID =
     PutUint16 apiKey @ PutUint16 apiVersion @ PutUint32 corr @ encode_client_id clientID"

definition client_id_string :: "string option \<Rightarrow> string" where
  "client_id_string clientID = (case clientID of None \<Rightarrow> '''' | Some s \<Rightarrow> s)"

section \<open>Lemmas\<close>

lemma encode_request_header_Some [simp]: "encode_request_header k v c (Some s) = encode_header k v c s"
  by (simp add: encode_request_header_def encode_client_id_def encode_header_def)

lemma length_encode_request_header [simp]:
  "length (encode_request_header k v c cid) = 10 + length (client_id_string cid)"
  by (simp add: encode_request_header_def encode_client_id_def client_id_string_def split: option.split)

lemma length_encode_header [simp]: "length (encode_header k v c s) = 10 + length s"
  by (simp add: encode_header_def)

lemma copy_at_zero: "length src \<le> length dst \<Longrightarrow> copy_at dst 0 src = src @ drop (length src) dst"
  by (simp add: copy_at_def)

lemma WriteFrame_eq:
  "WriteFrame pooled header body =
     PutUint32 (word_of_nat (length header + length body)) @ header @ body"
proof -
  define n where "n = 4 + length header + length body"
  define buf where "buf = (if length pooled < n then replicate n 0 else take n pooled)"
  define sz where "sz = PutUint32 (word_of_nat (length header + length body))"
  have len: "length buf = n" by (simp add: buf_def)
  have "WriteFrame pooled header body
      = copy_at (copy_at (copy_at buf 0 sz) 4 header) (4 + length header) body"
    by (simp add: WriteFrame_def Let_def buf_def n_def sz_def add.assoc)
  also have "copy_at buf 0 sz = sz @ drop 4 buf"
    using copy_at_zero [of sz buf] len by (simp add: n_def sz_def)
  also have "copy_at (sz @ drop 4 buf) 4 header = (sz @ header) @ drop (4 + length header) buf"
    using copy_at_front [of 4 sz header "drop 4 buf"] len
    by (simp add: n_def sz_def add.commute)
  also have "copy_at \<dots> (4 + length header) body = (sz @ header) @ body"
    using copy_at_front [of "4 + length header" "sz @ header" body "drop (4 + length header) buf"] len
    by (simp add: n_def sz_def)
  finally show ?thesis by (simp add: sz_def)
qed

lemma ParseRequestHeader_encoded:
  assumes "length clientID < 2 ^ 15"
  shows "ParseRequestHeader (PutUint32 sz @ encode_header k v c clientID @ body)
    = Inr \<lparr>rhSize = sz, rhAPIKey = k, rhAPIVersion = v, rhCorrelationID = c, rhClientID = clientID\<rparr>"
proof -
  have s: "sint (word_of_nat (length clientID) :: int16) = int (length clientID)"
    using assms by (rule sint_int16_nonneg)
  show ?thesis
    by (cases "clientID = []")
      (simp_all add: ParseRequestHeader_def encode_header_def slice_def fixedHeaderLen_def s Let_def)
qed

lemma readString_encoded:
  assumes "length s < 2 ^ 15"
  shows "readString (pre @ PutUint16 (word_of_nat (length s)) @ stob s @ r) (length pre)
    = Inr (word_of_nat (length s), s, length pre + 2 + length s)"
  using sint_int16_nonneg [OF assms] by (simp add: readString_def slice_def Let_def)

section \<open>Properties\<close>

lemma ParseRequestHeader_request:
  assumes "\<forall>s. cid = Some s \<longrightarrow> length s < 2 ^ 15"
  shows "ParseRequestHeader (PutUint32 sz @ encode_request_header k v c cid @ body)
    = Inr \<lparr>rhSize = sz, rhAPIKey = k, rhAPIVersion = v, rhCorrelationID = c, rhClientID = client_id_string cid\<rparr>"
proof (cases cid)
  case None
  have "sint (- 1 :: int16) = - 1" by simp
  then show ?thesis unfolding None
    by (simp add: ParseRequestHeader_def encode_request_header_def encode_client_id_def client_id_string_def slice_def fixedHeaderLen_def Let_def)
next
  case (Some s)
  then show ?thesis using assms ParseRequestHeader_encoded [of s sz k v c body] by (simp add: client_id_string_def)
qed

lemma ParseRequestHeader_truncated:
  assumes "\<forall>s. cid = Some s \<longrightarrow> length s < 2 ^ 15" and "n < 14 + length (client_id_string cid)"
  shows "ParseRequestHeader (take n (PutUint32 sz @ encode_request_header k v c cid @ body)) = Inl ErrFrameTooShort"
proof (cases "n < 14")
  case True
  then have "length (take n (PutUint32 sz @ encode_request_header k v c cid @ body)) < fixedHeaderLen"
    unfolding length_take by (simp add: fixedHeaderLen_def)
  then show ?thesis unfolding ParseRequestHeader_def by (rule if_P)
next
  case False
  then obtain s where s: "cid = Some s" "n < 14 + length s" "length s < 2 ^ 15"
    using assms by (cases cid) (simp_all add: client_id_string_def)
  define w where "w = take (n - 14) (stob s @ body)"
  have "n = 14 + (n - 14)" using False by simp
  then have d: "take n (PutUint32 sz @ encode_request_header k v c cid @ body)
      = PutUint32 sz @ PutUint16 k @ PutUint16 v @ PutUint32 c @ PutUint16 (word_of_nat (length s)) @ w"
    unfolding s(1) encode_request_header_Some encode_header_def w_def by (simp add: take_append)
  have "length w < length s" using s(2) False by (simp add: w_def min_def)
  moreover have "sint (word_of_nat (length s) :: int16) = int (length s)" using s(3) by (rule sint_int16_nonneg)
  moreover have "s \<noteq> []" using s(2) False by auto
  ultimately show ?thesis unfolding d
    by (simp add: ParseRequestHeader_def fixedHeaderLen_def slice_def Let_def)
qed

text \<open>
  C38. A frame written by \<open>WriteFrame\<close> from a request header in the documented layout and any
  body, whatever stale bytes the pooled buffer holds, is read back by \<open>ParseRequestHeader\<close>: the
  size is that of header and body, and API key, version, correlation id and client id are the
  ones written, where the nullable client id is any string or null, and null is read as the empty
  string. A frame that ends inside its header is refused as too short.
\<close>
theorem request_header_roundtrip:
  assumes "\<forall>s. clientID = Some s \<longrightarrow> length s < 2 ^ 15"
  defines "frame \<equiv> \<lambda>pooled k v c body. WriteFrame pooled (encode_request_header k v c clientID) body"
  shows "ParseRequestHeader (frame pooled k v c body)
    = Inr \<lparr>rhSize = word_of_nat (10 + length (client_id_string clientID) + length body), rhAPIKey = k,
           rhAPIVersion = v, rhCorrelationID = c, rhClientID = client_id_string clientID\<rparr>
    \<and> (\<forall>n < 14 + length (client_id_string clientID). ParseRequestHeader (take n (frame pooled k v c body)) = Inl ErrFrameTooShort)"
  using ParseRequestHeader_request [OF assms(1), of _ k v c body] ParseRequestHeader_truncated [OF assms(1), of _ _ k v c body]
  by (simp add: frame_def WriteFrame_eq)

theorem request_header_roundtrip_witness:
  "ParseRequestHeader (WriteFrame [7, 7, 7] (encode_request_header 3 4 12345 (Some ''myclient'')) [1, 2])
      = Inr \<lparr>rhSize = 20, rhAPIKey = 3, rhAPIVersion = 4, rhCorrelationID = 12345, rhClientID = ''myclient''\<rparr>
   \<and> ParseRequestHeader (WriteFrame [7, 7, 7] (encode_request_header 3 4 12345 None) [1, 2])
      = Inr \<lparr>rhSize = 12, rhAPIKey = 3, rhAPIVersion = 4, rhCorrelationID = 12345, rhClientID = ''''\<rparr>"
  using request_header_roundtrip [of "Some ''myclient''" "[7, 7, 7]" 3 4 12345 "[1, 2]"]
    request_header_roundtrip [of None "[7, 7, 7]" 3 4 12345 "[1, 2]"] by (simp add: client_id_string_def)

text \<open>
Reusing pooled buffers is invisible: for every content of the pooled backing array the
  frame is exactly the 4-byte big-endian length of header and body, the header and the body.
\<close>
theorem WriteFrame_pool_independent:
  "WriteFrame pooled header body =
     PutUint32 (word_of_nat (length header + length body)) @ header @ body"
  by (rule WriteFrame_eq)

end
