(* ===== verification/Config.thy ===== *)
theory Config
  imports Go_Prelude "HOL-Library.Multiset"
begin

text \<open>
  The configuration of \<^verbatim>\<open>internal/config\<close>: the schema, its validation and defaults
  (\<^verbatim>\<open>config.go\<close>) and the hot-reload holder with the cluster diff (\<^verbatim>\<open>reloader.go\<close>).

  The Go map of clusters is an association list with distinct keys whose order is the order in
  which a \<^verbatim>\<open>range\<close> over the map happens to visit it. Reading the file and decoding the YAML
  (\<^verbatim>\<open>os.ReadFile\<close>, \<^verbatim>\<open>yaml.v3\<close>) are arguments of \<open>LoadConfig\<close>.
\<close>

section \<open>Schema\<close>

definition ModeActivePassive :: string where "ModeActivePassive = ''active_passive''"
definition ModeLoadBalance :: string where "ModeLoadBalance = ''load_balance''"
definition ModeSingle :: string where "ModeSingle = ''single''"
definition ActivePrimary :: string where "ActivePrimary = ''primary''"
definition ActiveSecondary :: string where "ActiveSecondary = ''secondary''"

lemmas mode_defs = ModeActivePassive_def ModeLoadBalance_def ModeSingle_def
  ActivePrimary_def ActiveSecondary_def

lemma mode_distinct [simp]:
  "ModeActivePassive \<noteq> ModeLoadBalance" "ModeLoadBalance \<noteq> ModeActivePassive"
  "ModeActivePassive \<noteq> ModeSingle" "ModeSingle \<noteq> ModeActivePassive"
  "ModeLoadBalance \<noteq> ModeSingle" "ModeSingle \<noteq> ModeLoadBalance"
  "ActivePrimary \<noteq> ActiveSecondary" "ActiveSecondary \<noteq> ActivePrimary"
  "ModeActivePassive \<noteq> ''''" "ModeLoadBalance \<noteq> ''''" "ModeSingle \<noteq> ''''"
  "ActivePrimary \<noteq> ''''" "ActiveSecondary \<noteq> ''''"
  by (simp_all add: mode_defs)

record ConnectionPoolConfig =
  MaxConnectionsPerBroker :: int
  IdleTimeout :: Duration
  KeepAliveInterval :: Duration

record ProxyConfig =
  BindAddress :: string
  AdvertiseHost :: string
  ConnectionPool :: ConnectionPoolConfig
  MetricsPort :: int

record ClusterEndpoint =
  Bootstrap :: string
  Weight :: int

record HealthCheckConfig =
  Enabled :: bool
  Interval :: Duration
  FailureThreshold :: int
  RecoveryThreshold :: int
  RecoveryMinUptime :: Duration
  MinTimeBetweenFailovers :: Duration
  AutoFailover :: bool
  AutoFailback :: bool
  AutoRebalance :: bool
  RequireTargetHealthy :: bool
  CircuitBreakerMaxFailovers :: int
  CircuitBreakerWindow :: Duration
  SaslUsername :: string
  SaslPassword :: string

record ClusterConfig =
  Port :: int
  Mode :: string
  Active :: string
  Primary :: ClusterEndpoint
  Secondary :: ClusterEndpoint
  HealthCheck :: HealthCheckConfig

record Config =
  Proxy :: ProxyConfig
  Clusters :: "(string \<times> ClusterConfig) list"

definition ResolvedAdvertiseHost :: "ProxyConfig \<Rightarrow> string" where
  "ResolvedAdvertiseHost p = (if AdvertiseHost p \<noteq> '''' then AdvertiseHost p else ''localhost'')"

section \<open>Validation, defaults, port map\<close>

definition Cluster_Validate :: "ClusterConfig \<Rightarrow> error + unit" where
  "Cluster_Validate c =
     (if Mode c = '''' then Inl (Errorf ''mode is required'')
      else if Mode c = ModeActivePassive then
        if Bootstrap (Primary c) = '''' then
          Inl (Errorf ''primary bootstrap is required for active_passive mode'')
        else if Bootstrap (Secondary c) = '''' then
          Inl (Errorf ''secondary bootstrap is required for active_passive mode'')
        else if Active c \<noteq> ActivePrimary \<and> Active c \<noteq> ActiveSecondary then
          Inl (Errorf ''active must be primary or secondary for active_passive mode'')
        else Inr ()
      else if Mode c = ModeLoadBalance then
        if Bootstrap (Primary c) = '''' then
          Inl (Errorf ''primary.bootstrap is required for load_balance mode'')
        else if Bootstrap (Secondary c) = '''' then
          Inl (Errorf ''secondary.bootstrap is required for load_balance mode'')
        else if Weight (Primary c) + Weight (Secondary c) \<noteq> 100 then
          Inl (Errorf ''load_balance weights must sum to 100'')
        else Inr ()
      else if Mode c = ModeSingle then
        if Bootstrap (Primary c) = '''' then
          Inl (Errorf ''primary bootstrap is required for single mode'')
        else Inr ()
      else Inl (Errorf ''unknown mode''))"

text \<open>The loop of \<open>Config.Validate\<close>; \<open>seenPorts\<close> maps a port to the cluster that claimed it.\<close>

fun validateClusters :: "(int \<rightharpoonup> string) \<Rightarrow> (string \<times> ClusterConfig) list \<Rightarrow> error + unit" where
  "validateClusters seenPorts [] = Inr ()"
| "validateClusters seenPorts ((name, cluster) # rest) =
     (if Port cluster \<le> 0 then Inl (Wrap name (Errorf ''port is required''))
      else if seenPorts (Port cluster) \<noteq> None then Inl (Wrap name (Errorf ''port is used by both''))
      else (case wrap_err name (Cluster_Validate cluster) of
              Inl e \<Rightarrow> Inl e
            | Inr _ \<Rightarrow> validateClusters (seenPorts(Port cluster \<mapsto> name)) rest))"

text \<open>\<open>Validate\<close> also fills in an empty bind address; the result is the configuration it leaves.\<close>

definition Config_Validate :: "Config \<Rightarrow> error + Config" where
  "Config_Validate c =
     (let c = (if BindAddress (Proxy c) = '''' then c\<lparr>Proxy := (Proxy c)\<lparr>BindAddress := ''0.0.0.0''\<rparr>\<rparr> else c)
      in if Clusters c = [] then Inl (Errorf ''at least one cluster is required'')
         else (case validateClusters Map.empty (Clusters c) of Inl e \<Rightarrow> Inl e | Inr _ \<Rightarrow> Inr c))"

definition DefaultFailureThreshold :: int where "DefaultFailureThreshold = 3"
definition DefaultRecoveryThreshold :: int where "DefaultRecoveryThreshold = 2"
definition defaultRecoveryMinUptime :: Duration where "defaultRecoveryMinUptime = 120 * second"

definition clusterDefaults :: "ClusterConfig \<Rightarrow> ClusterConfig" where
  "clusterDefaults cluster =
     (let hc = HealthCheck cluster;
          hc = (if FailureThreshold hc = 0 then hc\<lparr>FailureThreshold := DefaultFailureThreshold\<rparr> else hc);
          hc = (if RecoveryThreshold hc = 0 then hc\<lparr>RecoveryThreshold := DefaultRecoveryThreshold\<rparr> else hc);
          hc = (if RecoveryMinUptime hc = 0 then hc\<lparr>RecoveryMinUptime := defaultRecoveryMinUptime\<rparr> else hc)
      in cluster\<lparr>HealthCheck := hc\<rparr>)"

definition poolDefaults :: "ConnectionPoolConfig \<Rightarrow> ConnectionPoolConfig" where
  "poolDefaults p =
     (let p = (if MaxConnectionsPerBroker p = 0 then p\<lparr>MaxConnectionsPerBroker := 50\<rparr> else p);
          p = (if IdleTimeout p = 0 then p\<lparr>IdleTimeout := 30 * second\<rparr> else p)
      in (if KeepAliveInterval p = 0 then p\<lparr>KeepAliveInterval := 30 * second\<rparr> else p))"

definition applyDefaults :: "Config \<Rightarrow> Config" where
  "applyDefaults cfg =
     (let px = Proxy cfg;
          px = (if BindAddress px = '''' then px\<lparr>BindAddress := ''0.0.0.0''\<rparr> else px);
          px = px\<lparr>ConnectionPool := poolDefaults (ConnectionPool px)\<rparr>
      in cfg\<lparr>Proxy := px, Clusters := map (\<lambda>(name, c). (name, clusterDefaults c)) (Clusters cfg)\<rparr>)"

definition LoadConfig ::
  "(string \<Rightarrow> error + byte list) \<Rightarrow> (byte list \<Rightarrow> error + Config) \<Rightarrow> string \<Rightarrow> error + Config" where
  "LoadConfig readFile unmarshal path =
     (case wrap_err ''reading config file'' (readFile path) of
        Inl e \<Rightarrow> Inl e
      | Inr data \<Rightarrow>
          (case wrap_err ''parsing config file'' (unmarshal data) of
             Inl e \<Rightarrow> Inl e
           | Inr cfg \<Rightarrow> wrap_err ''validating config'' (Config_Validate (applyDefaults cfg))))"

definition BuildPortMap :: "Config \<Rightarrow> (int \<rightharpoonup> string)" where
  "BuildPortMap c = fold (\<lambda>(name, cluster) m. m(Port cluster \<mapsto> name)) (Clusters c) Map.empty"

section \<open>Reloader and cluster diff\<close>

text \<open>\<open>'cb\<close> are the registered callbacks; a reload returns the calls it makes, in order.\<close>

record 'cb Reloader =
  rlConfig :: Config
  rlPath :: string
  rlOnReload :: "'cb list"

fun parentDir_from :: "string \<Rightarrow> nat \<Rightarrow> string" where
  "parentDir_from dir 0 = ''.''"
| "parentDir_from dir (Suc i) = (if dir ! i = CHR ''/'' then take i dir else parentDir_from dir i)"

definition parentDir :: "string \<Rightarrow> string" where
  "parentDir path = parentDir_from path (length path)"

text \<open>\<open>watchDir\<close> is the outcome of creating the fsnotify watcher and adding the directory to it.\<close>

definition NewReloader :: "(string \<Rightarrow> error + byte list) \<Rightarrow> (byte list \<Rightarrow> error + Config) \<Rightarrow>
    (string \<Rightarrow> error option) \<Rightarrow> string \<Rightarrow> error + 'cb Reloader" where
  "NewReloader readFile unmarshal watchDir path =
     (case wrap_err ''initial config load'' (LoadConfig readFile unmarshal path) of
        Inl e \<Rightarrow> Inl e
      | Inr cfg \<Rightarrow>
          (case watchDir (parentDir path) of
             Some e \<Rightarrow> Inl (Wrap ''watching directory'' e)
           | None \<Rightarrow> Inr \<lparr>rlConfig = cfg, rlPath = path, rlOnReload = []\<rparr>))"

definition OnReload :: "'cb Reloader \<Rightarrow> 'cb \<Rightarrow> 'cb Reloader" where
  "OnReload r fn = r\<lparr>rlOnReload := rlOnReload r @ [fn]\<rparr>"

definition Reload :: "(string \<Rightarrow> error + byte list) \<Rightarrow> (byte list \<Rightarrow> error + Config) \<Rightarrow>
    'cb Reloader \<Rightarrow> error option \<times> 'cb Reloader \<times> ('cb \<times> Config \<times> Config) list" where
  "Reload readFile unmarshal r =
     (case wrap_err ''reload config'' (LoadConfig readFile unmarshal (rlPath r)) of
        Inl e \<Rightarrow> (Some e, r, [])
      | Inr newCfg \<Rightarrow>
          (None, r\<lparr>rlConfig := newCfg\<rparr>, map (\<lambda>fn. (fn, rlConfig r, newCfg)) (rlOnReload r)))"

record ClusterChange =
  ccName :: string
  ActiveChanged :: bool
  BootstrapChanged :: "string set"
  ModeChanged :: bool

definition diffOne :: "Config \<Rightarrow> string \<times> ClusterConfig \<Rightarrow> ClusterChange list" where
  "diffOne oldCfg = (\<lambda>(name, newCluster).
     (case map_of (Clusters oldCfg) name of
        None \<Rightarrow> [\<lparr>ccName = name, ActiveChanged = True,
                  BootstrapChanged = {''primary'', ''secondary''}, ModeChanged = True\<rparr>]
      | Some oldCluster \<Rightarrow>
          let bc = (if Bootstrap (Primary oldCluster) \<noteq> Bootstrap (Primary newCluster)
                    then {''primary''} else {})
                 \<union> (if Bootstrap (Secondary oldCluster) \<noteq> Bootstrap (Secondary newCluster)
                    then {''secondary''} else {});
              changed = (Active oldCluster \<noteq> Active newCluster \<or> Mode oldCluster \<noteq> Mode newCluster
                         \<or> bc \<noteq> {})
          in if changed then
               [\<lparr>ccName = name, ActiveChanged = (Active oldCluster \<noteq> Active newCluster),
                 BootstrapChanged = bc, ModeChanged = (Mode oldCluster \<noteq> Mode newCluster)\<rparr>]
             else []))"

definition diffRemoved :: "Config \<Rightarrow> string \<times> ClusterConfig \<Rightarrow> ClusterChange list" where
  "diffRemoved newCfg = (\<lambda>(name, _).
     if map_of (Clusters newCfg) name = None
     then [\<lparr>ccName = name, ActiveChanged = True, BootstrapChanged = {}, ModeChanged = False\<rparr>]
     else [])"

definition DiffClusters :: "Config \<Rightarrow> Config \<Rightarrow> ClusterChange list" where
  "DiffClusters oldCfg newCfg =
     concat (map (diffOne oldCfg) (Clusters newCfg)) @ concat (map (diffRemoved newCfg) (Clusters oldCfg))"

section \<open>Lemmas\<close>

definition port_of :: "string \<times> ClusterConfig \<Rightarrow> int" where
  "port_of = (\<lambda>(name, c). Port c)"

lemma validateClusters_iff:
  "validateClusters seen cs = Inr () \<longleftrightarrow>
     list_all (\<lambda>(n, c). 0 < Port c \<and> seen (Port c) = None \<and> Cluster_Validate c = Inr ()) cs
     \<and> distinct (map port_of cs)"
proof (induction cs arbitrary: seen)
  case Nil
  show ?case by simp
next
  case (Cons x cs)
  obtain name c where x: "x = (name, c)" by (cases x)
  let ?seen = "seen(Port c \<mapsto> name)"
  have step: "validateClusters seen (x # cs) = Inr () \<longleftrightarrow>
      0 < Port c \<and> seen (Port c) = None \<and> Cluster_Validate c = Inr () \<and> validateClusters ?seen cs = Inr ()"
    by (cases "Cluster_Validate c") (auto simp: x)
  have notin: "list_all (\<lambda>(n, d). ?seen (Port d) = None) cs \<longleftrightarrow>
      list_all (\<lambda>(n, d). seen (Port d) = None) cs \<and> Port c \<notin> set (map port_of cs)"
    by (force simp: port_of_def list_all_iff)
  have "validateClusters ?seen cs = Inr () \<longleftrightarrow>
      list_all (\<lambda>(n, d). 0 < Port d \<and> Cluster_Validate d = Inr ()) cs
      \<and> list_all (\<lambda>(n, d). ?seen (Port d) = None) cs \<and> distinct (map port_of cs)"
    by (auto simp: Cons.IH list_all_iff)
  with step notin show ?case by (auto simp: x port_of_def list_all_iff)
qed

lemma Config_Validate_Inr:
  assumes "Config_Validate c = Inr d"
  shows "Clusters d = Clusters c" and "Clusters d \<noteq> []"
    and "validateClusters Map.empty (Clusters d) = Inr ()"
  using assms by (auto simp: Config_Validate_def Let_def split: if_splits sum.splits)

lemma Config_Validate_ok_iff:
  "(\<exists>d. Config_Validate c = Inr d) \<longleftrightarrow>
     Clusters c \<noteq> [] \<and> validateClusters Map.empty (Clusters c) = Inr ()"
  by (auto simp: Config_Validate_def Let_def split: sum.splits)

lemma fold_port_map:
  "distinct (map port_of cs) \<Longrightarrow>
   fold (\<lambda>(name, cluster) m. m(Port cluster \<mapsto> name)) cs m p = Some n \<longleftrightarrow>
     (\<exists>c. (n, c) \<in> set cs \<and> Port c = p) \<or> (p \<notin> set (map port_of cs) \<and> m p = Some n)"
proof (induction cs arbitrary: m)
  case Nil
  show ?case by simp
next
  case (Cons x cs)
  then show ?case by (cases x) (auto simp: port_of_def image_iff split: if_splits)
qed

text \<open>What a loaded configuration guarantees of each cluster.\<close>

definition cluster_wf :: "ClusterConfig \<Rightarrow> bool" where
  "cluster_wf c \<longleftrightarrow>
     0 < Port c \<and> Bootstrap (Primary c) \<noteq> '''' \<and>
     Mode c \<in> {ModeActivePassive, ModeLoadBalance, ModeSingle} \<and>
     (Mode c \<noteq> ModeSingle \<longrightarrow> Bootstrap (Secondary c) \<noteq> '''') \<and>
     (Mode c = ModeActivePassive \<longrightarrow> Active c \<in> {ActivePrimary, ActiveSecondary}) \<and>
     (Mode c = ModeLoadBalance \<longrightarrow> Weight (Primary c) + Weight (Secondary c) = 100) \<and>
     FailureThreshold (HealthCheck c) \<noteq> 0 \<and> RecoveryThreshold (HealthCheck c) \<noteq> 0 \<and>
     RecoveryMinUptime (HealthCheck c) \<noteq> 0"

definition config_wf :: "Config \<Rightarrow> bool" where
  "config_wf cfg \<longleftrightarrow> Clusters cfg \<noteq> [] \<and> list_all (\<lambda>(n, c). cluster_wf c) (Clusters cfg)
     \<and> distinct (map port_of (Clusters cfg))"

lemma clusterDefaults_nonzero:
  "FailureThreshold (HealthCheck (clusterDefaults c)) \<noteq> 0"
  "RecoveryThreshold (HealthCheck (clusterDefaults c)) \<noteq> 0"
  "RecoveryMinUptime (HealthCheck (clusterDefaults c)) \<noteq> 0"
  by (auto simp: clusterDefaults_def Let_def DefaultFailureThreshold_def DefaultRecoveryThreshold_def
      defaultRecoveryMinUptime_def second_def)

lemma Cluster_Validate_wf:
  "Cluster_Validate c = Inr () \<Longrightarrow> 0 < Port c \<Longrightarrow> c = clusterDefaults d \<Longrightarrow> cluster_wf c"
  using clusterDefaults_nonzero [of d]
  by (auto simp: Cluster_Validate_def cluster_wf_def split: if_splits)

lemma LoadConfig_config_wf: "LoadConfig rf um path = Inr cfg \<Longrightarrow> config_wf cfg"
proof -
  assume "LoadConfig rf um path = Inr cfg"
  then obtain cfg0 where v: "Config_Validate (applyDefaults cfg0) = Inr cfg"
    by (auto simp: LoadConfig_def split: sum.splits)
  have cl: "Clusters cfg = map (\<lambda>(n, c). (n, clusterDefaults c)) (Clusters cfg0)"
    using Config_Validate_Inr(1) [OF v] by (simp add: applyDefaults_def Let_def)
  have ok: "list_all (\<lambda>(n, c). 0 < Port c \<and> Cluster_Validate c = Inr ()) (Clusters cfg)"
    and di: "distinct (map port_of (Clusters cfg))"
    using Config_Validate_Inr(3) [OF v] by (auto simp: validateClusters_iff list_all_iff)
  have "cluster_wf c" if "(n, c) \<in> set (Clusters cfg)" for n c
  proof -
    from that obtain d where "c = clusterDefaults d" by (auto simp: cl)
    moreover have "0 < Port c" "Cluster_Validate c = Inr ()" using ok that by (auto simp: list_all_iff)
    ultimately show ?thesis using Cluster_Validate_wf by blast
  qed
  then show "config_wf cfg"
    using Config_Validate_Inr(2) [OF v] di by (auto simp: config_wf_def list_all_iff)
qed

text \<open>A run of the watcher: one reload attempt per file event, each seeing some file content.\<close>

fun reload_run :: "((string \<Rightarrow> error + byte list) \<times> (byte list \<Rightarrow> error + Config)) list \<Rightarrow>
    'cb Reloader \<Rightarrow> 'cb Reloader" where
  "reload_run [] r = r"
| "reload_run ((rf, um) # es) r = reload_run es (fst (snd (Reload rf um r)))"

lemma Reload_config_wf: "config_wf (rlConfig r) \<Longrightarrow> config_wf (rlConfig (fst (snd (Reload rf um r))))"
  using LoadConfig_config_wf [of rf um "rlPath r"]
  by (auto simp: Reload_def split: sum.splits)

lemma reload_run_config_wf: "config_wf (rlConfig r) \<Longrightarrow> config_wf (rlConfig (reload_run es r))"
  by (induction es r rule: reload_run.induct) (auto simp: Reload_config_wf)

text \<open>Two cluster configurations that the diff does not distinguish.\<close>

definition same_routing :: "ClusterConfig \<Rightarrow> ClusterConfig \<Rightarrow> bool" where
  "same_routing o' n \<longleftrightarrow> Active o' = Active n \<and> Mode o' = Mode n
     \<and> Bootstrap (Primary o') = Bootstrap (Primary n) \<and> Bootstrap (Secondary o') = Bootstrap (Secondary n)"

lemma diffOne_Nil:
  "diffOne old (n, c) = [] \<longleftrightarrow> (\<exists>d. map_of (Clusters old) n = Some d \<and> same_routing d c)"
  by (auto simp: diffOne_def same_routing_def Let_def split: option.splits)

lemma diffRemoved_Nil: "diffRemoved new (n, c) = [] \<longleftrightarrow> map_of (Clusters new) n \<noteq> None"
  by (simp add: diffRemoved_def)

lemma DiffClusters_Nil:
  assumes "distinct (map fst (Clusters new))"
  shows "DiffClusters old new = [] \<longleftrightarrow>
    (\<forall>n. case (map_of (Clusters old) n, map_of (Clusters new) n) of
           (None, None) \<Rightarrow> True | (Some d, Some c) \<Rightarrow> same_routing d c | _ \<Rightarrow> False)"
    (is "?L \<longleftrightarrow> (\<forall>n. ?P n)")
proof
  assume L: ?L
  then have one: "\<And>n c. (n, c) \<in> set (Clusters new) \<Longrightarrow> diffOne old (n, c) = []"
    and rem: "\<And>n c. (n, c) \<in> set (Clusters old) \<Longrightarrow> diffRemoved new (n, c) = []"
    by (auto simp: DiffClusters_def)
  show "\<forall>n. ?P n"
  proof
    fix n
    show "?P n"
    proof (cases "map_of (Clusters new) n")
      case None
      then have "map_of (Clusters old) n = None"
        using rem by (metis diffRemoved_Nil map_of_SomeD not_None_eq)
      with None show ?thesis by simp
    next
      case (Some c)
      then have "diffOne old (n, c) = []" by (intro one map_of_SomeD)
      with Some show ?thesis by (auto simp: diffOne_Nil)
    qed
  qed
next
  assume R: "\<forall>n. ?P n"
  have "diffOne old (n, c) = []" if "(n, c) \<in> set (Clusters new)" for n c
  proof -
    have "map_of (Clusters new) n = Some c" using assms that by simp
    with R [rule_format, of n] show ?thesis by (auto simp: diffOne_Nil split: option.splits)
  qed
  moreover have "diffRemoved new (n, c) = []" if "(n, c) \<in> set (Clusters old)" for n c
    using R [rule_format, of n] that
    by (auto simp: diffRemoved_Nil dest!: weak_map_of_SomeI split: option.splits)
  ultimately show ?L by (auto simp: DiffClusters_def)
qed

section \<open>Properties\<close>

text \<open>The configuration the witnesses use: two clusters, one per routing mode with two endpoints.\<close>

definition sample_hc :: HealthCheckConfig where
  "sample_hc = \<lparr>Enabled = True, Interval = 10 * second, FailureThreshold = 3, RecoveryThreshold = 2,
     RecoveryMinUptime = 120 * second, MinTimeBetweenFailovers = 60 * second, AutoFailover = True,
     AutoFailback = True, AutoRebalance = True, RequireTargetHealthy = True,
     CircuitBreakerMaxFailovers = 3, CircuitBreakerWindow = 600 * second,
     SaslUsername = '''', SaslPassword = ''''\<rparr>"

definition sample_finance :: ClusterConfig where
  "sample_finance = \<lparr>Port = 9093, Mode = ''active_passive'', Active = ''primary'',
     Primary = \<lparr>Bootstrap = ''k1:9092'', Weight = 0\<rparr>,
     Secondary = \<lparr>Bootstrap = ''k2:9092'', Weight = 0\<rparr>, HealthCheck = sample_hc\<rparr>"

definition sample_logistics :: ClusterConfig where
  "sample_logistics = \<lparr>Port = 9094, Mode = ''load_balance'', Active = '''',
     Primary = \<lparr>Bootstrap = ''k1:9092'', Weight = 70\<rparr>,
     Secondary = \<lparr>Bootstrap = ''k2:9092'', Weight = 30\<rparr>, HealthCheck = sample_hc\<rparr>"

definition sample_proxy :: ProxyConfig where
  "sample_proxy = \<lparr>BindAddress = '''', AdvertiseHost = ''proxy'', ConnectionPool =
     \<lparr>MaxConnectionsPerBroker = 0, IdleTimeout = 0, KeepAliveInterval = 0\<rparr>, MetricsPort = 8080\<rparr>"

definition sample_config :: Config where
  "sample_config = \<lparr>Proxy = sample_proxy,
     Clusters = [(''finance'', sample_finance), (''logistics'', sample_logistics)]\<rparr>"

lemmas sample_defs = sample_config_def sample_finance_def sample_logistics_def sample_proxy_def
  sample_hc_def mode_defs

lemma sample_valid:
  "Config_Validate sample_config
     = Inr (sample_config\<lparr>Proxy := sample_proxy\<lparr>BindAddress := ''0.0.0.0''\<rparr>\<rparr>)"
  by (simp add: Config_Validate_def Cluster_Validate_def sample_defs)

lemma sample_defaults: "Clusters (applyDefaults sample_config) = Clusters sample_config"
proof -
  have "clusterDefaults c = c" if "HealthCheck c = sample_hc" for c
    using that by (cases c) (simp add: clusterDefaults_def sample_hc_def second_def)
  then show ?thesis
    by (simp add: applyDefaults_def Let_def sample_config_def sample_finance_def sample_logistics_def)
qed

lemma sample_loads: "\<exists>d. Config_Validate (applyDefaults sample_config) = Inr d"
  using Config_Validate_ok_iff [of sample_config] sample_valid
  by (simp add: Config_Validate_ok_iff sample_defaults)

text \<open>
Port routing is unambiguous: when a configuration validates, the port map built for the
  listeners sends a port to a cluster exactly when that cluster is configured with that port.
\<close>
theorem port_map_exact:
  assumes "Config_Validate c = Inr d"
  shows "BuildPortMap d p = Some n \<longleftrightarrow> (\<exists>cl. (n, cl) \<in> set (Clusters d) \<and> Port cl = p)"
proof -
  have "distinct (map port_of (Clusters d))"
    using Config_Validate_Inr(3) [OF assms] by (simp add: validateClusters_iff)
  then show ?thesis unfolding BuildPortMap_def by (simp add: fold_port_map)
qed

theorem port_map_exact_witness:
  "Config_Validate sample_config = Inr (sample_config\<lparr>Proxy := sample_proxy\<lparr>BindAddress := ''0.0.0.0''\<rparr>\<rparr>)
   \<and> BuildPortMap (sample_config\<lparr>Proxy := sample_proxy\<lparr>BindAddress := ''0.0.0.0''\<rparr>\<rparr>) 9094 = Some ''logistics''"
  using sample_valid port_map_exact [OF sample_valid, of 9094 "''logistics''"]
  by (simp add: sample_config_def sample_logistics_def)

text \<open>
The verdict of validation does not depend on the order in which the map of clusters is
  visited: two configurations with the same clusters are both accepted or both rejected.
\<close>
theorem validation_order_independent:
  assumes "mset (Clusters c) = mset (Clusters d)"
  shows "(\<exists>c'. Config_Validate c = Inr c') \<longleftrightarrow> (\<exists>d'. Config_Validate d = Inr d')"
proof -
  have s: "set (Clusters c) = set (Clusters d)" using assms by (rule mset_eq_setD)
  have "mset (map port_of (Clusters c)) = mset (map port_of (Clusters d))" using assms by simp
  then have "distinct (map port_of (Clusters c)) = distinct (map port_of (Clusters d))"
    by (rule mset_eq_imp_distinct_iff)
  moreover have "Clusters c = [] \<longleftrightarrow> Clusters d = []" using assms by (metis mset_zero_iff)
  ultimately show ?thesis using s by (simp add: Config_Validate_ok_iff validateClusters_iff list_all_iff)
qed

theorem validation_order_independent_witness:
  "\<exists>d. Config_Validate (sample_config\<lparr>Clusters := rev (Clusters sample_config)\<rparr>) = Inr d"
  using validation_order_independent [of "sample_config\<lparr>Clusters := rev (Clusters sample_config)\<rparr>" sample_config]
    sample_valid by simp

text \<open>
  C34. Whatever the sequence of file contents that the watcher reloads, readable or not, valid or
  not, the reloader always serves a well-formed configuration: at least one cluster, distinct
  positive ports, a known mode with the bootstraps it needs, an active cluster that is primary
  or secondary in active_passive mode, weights that sum to 100 in load_balance mode, and no
  threshold left at zero.
\<close>
theorem reloader_always_well_formed:
  assumes "NewReloader rf um wd path = Inr r"
  shows "config_wf (rlConfig (reload_run es r))"
proof -
  have "config_wf (rlConfig r)"
    using assms LoadConfig_config_wf [of rf um path] by (auto simp: NewReloader_def split: sum.splits option.splits)
  then show ?thesis by (rule reload_run_config_wf)
qed

theorem reloader_always_well_formed_witness:
  "\<exists>r :: nat Reloader. NewReloader (\<lambda>_. Inr []) (\<lambda>_. Inr sample_config) (\<lambda>_. None) ''c.yaml'' = Inr r
     \<and> config_wf (rlConfig (reload_run [(\<lambda>_. Inl ErrEOF, \<lambda>_. Inr sample_config)] r))"
proof -
  obtain cfg where "Config_Validate (applyDefaults sample_config) = Inr cfg"
    using sample_loads by blast
  then obtain r :: "nat Reloader"
    where "NewReloader (\<lambda>_. Inr []) (\<lambda>_. Inr sample_config) (\<lambda>_. None) ''c.yaml'' = Inr r"
    by (simp add: NewReloader_def LoadConfig_def)
  then show ?thesis using reloader_always_well_formed by blast
qed

text \<open>
  The cluster diff of a reload is empty exactly when both configurations have the same
  clusters with the same active target, mode and bootstraps. It is blind to everything else: an
  edit of weights, ports or health-check settings alone is reported as no change.
\<close>
theorem diff_clusters_exact:
  assumes "distinct (map fst (Clusters new))"
  shows "DiffClusters old new = [] \<longleftrightarrow>
    (\<forall>n. case (map_of (Clusters old) n, map_of (Clusters new) n) of
           (None, None) \<Rightarrow> True
         | (Some d, Some c) \<Rightarrow> Active d = Active c \<and> Mode d = Mode c
             \<and> Bootstrap (Primary d) = Bootstrap (Primary c)
             \<and> Bootstrap (Secondary d) = Bootstrap (Secondary c)
         | _ \<Rightarrow> False)"
  using DiffClusters_Nil [OF assms, of old] unfolding same_routing_def .

theorem diff_clusters_exact_witness:
  "DiffClusters sample_config (sample_config\<lparr>Clusters := [(''finance'', sample_finance), (''logistics'',
     sample_logistics\<lparr>Primary := \<lparr>Bootstrap = ''k1:9092'', Weight = 10\<rparr>,
                      Secondary := \<lparr>Bootstrap = ''k2:9092'', Weight = 90\<rparr>\<rparr>)]\<rparr>) = []"
  by (subst diff_clusters_exact) (simp_all add: sample_config_def sample_logistics_def)

end
