(* ===== verification/Net.thy ===== *)
theory Net
  imports Go_Prelude
begin

text \<open>
  Connections as the proxy's code sees them. A \<open>conn\<close> holds the bytes the peer will still
  deliver (\<open>cin\<close>; reading past them is the end of the stream), the bytes written so far
  (\<open>cout\<close>) and how many more bytes it accepts before the peer is gone (\<open>cwok\<close>), so that a write
  can fail after part of its buffer was delivered. \<open>ReadFull\<close> is
  \<^verbatim>\<open>io.ReadFull\<close> and \<open>conn_Write\<close> is \<^verbatim>\<open>conn.Write\<close> of a whole buffer. \<open>make_bytes\<close> is the
  allocation \<^verbatim>\<open>make([]byte, n)\<close> of a computed size, which panics when the size is negative.
\<close>

record conn =
  cin :: "byte list"
  cout :: "byte list"
  cwok :: nat

definition ReadFull :: "nat \<Rightarrow> conn \<Rightarrow> (error + byte list) \<times> conn" where
  "ReadFull n c =
     (if length (cin c) < n then (Inl ErrEOF, c\<lparr>cin := []\<rparr>)
      else (Inr (take n (cin c)), c\<lparr>cin := drop n (cin c)\<rparr>))"

definition conn_Write :: "byte list \<Rightarrow> conn \<Rightarrow> error option \<times> conn" where
  "conn_Write bs c =
     (if cwok c < length bs
      then (Some (Errorf ''write''), c\<lparr>cout := cout c @ take (cwok c) bs, cwok := 0\<rparr>)
      else (None, c\<lparr>cout := cout c @ bs, cwok := cwok c - length bs\<rparr>))"

text \<open>\<open>conn.Close()\<close>: nothing can be read or written any more.\<close>

definition conn_Close :: "conn \<Rightarrow> conn" where
  "conn_Close c = c\<lparr>cin := [], cwok := 0\<rparr>"

text \<open>
  \<open>io.CopyN(dst, src, n)\<close>: up to \<open>n\<close> bytes, as far as the source has them and the destination
  accepts them. \<open>passthrough\<close> is the pair of copying goroutines: \<open>up\<close> and \<open>down\<close> bound the bytes each
  direction moved before one of them ended and both connections were closed.
\<close>

definition io_CopyN :: "nat \<Rightarrow> conn \<Rightarrow> conn \<Rightarrow> error option \<times> conn \<times> conn" where
  "io_CopyN n src dst =
     (let bs = take n (cin src); m = min (length bs) (cwok dst) in
      (if m < length bs then Some (Errorf ''write'') else if length bs < n then Some ErrEOF else None,
       src\<lparr>cin := drop (length bs) (cin src)\<rparr>,
       dst\<lparr>cout := cout dst @ take m bs, cwok := cwok dst - m\<rparr>))"

definition passthrough :: "nat \<Rightarrow> nat \<Rightarrow> conn \<Rightarrow> conn \<Rightarrow> conn \<times> conn" where
  "passthrough up down client upstream =
     (case io_CopyN up client upstream of (_, client, upstream) \<Rightarrow>
        case io_CopyN down upstream client of (_, upstream, client) \<Rightarrow>
          (conn_Close client, conn_Close upstream))"

definition make_bytes :: "int \<Rightarrow> error + nat" where
  "make_bytes n = (if n < 0 then Inl (Panic ''makeslice: len out of range'') else Inr (nat n))"

lemma ReadFull_Inr:
  "ReadFull n c = (Inr bs, c') \<longleftrightarrow>
     n \<le> length (cin c) \<and> bs = take n (cin c) \<and> c' = c\<lparr>cin := drop n (cin c)\<rparr>"
  by (auto simp: ReadFull_def)

lemma ReadFull_Inl:
  "ReadFull n c = (Inl e, c') \<longleftrightarrow> length (cin c) < n \<and> e = ErrEOF \<and> c' = c\<lparr>cin := []\<rparr>"
  by (auto simp: ReadFull_def)

lemma conn_Write_None:
  "conn_Write bs c = (None, c') \<longleftrightarrow>
     length bs \<le> cwok c \<and> c' = c\<lparr>cout := cout c @ bs, cwok := cwok c - length bs\<rparr>"
  by (auto simp: conn_Write_def)

lemma conn_Write_Some:
  "conn_Write bs c = (Some e, c') \<longleftrightarrow>
     cwok c < length bs \<and> e = Errorf ''write'' \<and> c' = c\<lparr>cout := cout c @ take (cwok c) bs, cwok := 0\<rparr>"
  by (auto simp: conn_Write_def)

lemma make_bytes_Inr [simp]: "make_bytes n = Inr m \<longleftrightarrow> 0 \<le> n \<and> m = nat n"
  by (auto simp: make_bytes_def)

lemmas conn_io = ReadFull_Inr ReadFull_Inl conn_Write_None conn_Write_Some

end
