(* ===== verification/Hysteresis.thy ===== *)
theory Hysteresis
  imports Go_Prelude
begin

text \<open>
  The contract that the proxy's health trackers share: a state with an up flag and two
  counters, driven by good and bad observations, that goes down only when a run of bad
  observations reaches the failure threshold and comes up only when a run of good ones reaches
  the recovery threshold. \<^verbatim>\<open>health.HealthState\<close> and the controller's \<^verbatim>\<open>clusterHealth\<close> both
  provide it; the lemmas about streaks are proved once here.
\<close>

fun hrun :: "('e \<Rightarrow> 's \<Rightarrow> 's) \<Rightarrow> ('e \<Rightarrow> 's \<Rightarrow> 's) \<Rightarrow> (bool \<times> 'e) list \<Rightarrow> 's \<Rightarrow> 's" where
  "hrun good bad [] s = s"
| "hrun good bad ((ok, e) # es) s = hrun good bad es (if ok then good e s else bad e s)"

lemma hrun_append: "hrun good bad (xs @ ys) s = hrun good bad ys (hrun good bad xs s)"
  by (induction xs arbitrary: s) auto

locale hysteresis =
  fixes up :: "'s \<Rightarrow> bool" and fails :: "'s \<Rightarrow> int" and succs :: "'s \<Rightarrow> int"
    and good :: "'e \<Rightarrow> 's \<Rightarrow> 's" and bad :: "'e \<Rightarrow> 's \<Rightarrow> 's" and ft :: int and rt :: int
  assumes fails_good: "fails (good e s) = 0"
    and succs_good: "succs (good e s) = succs s + 1"
    and up_good: "up (good e s) \<longleftrightarrow> up s \<or> rt \<le> succs s + 1"
    and succs_bad: "succs (bad e s) = 0"
    and fails_bad: "fails (bad e s) = fails s + 1"
    and up_bad: "up (bad e s) \<longleftrightarrow> up s \<and> fails s + 1 < ft"
begin

lemmas hyst_simps = fails_good succs_good up_good succs_bad fails_bad up_bad

lemma bad_streak:
  "list_all (\<lambda>x. \<not> fst x) es \<Longrightarrow> es \<noteq> [] \<Longrightarrow> fails (hrun good bad es s) = fails s + int (length es)
     \<and> (up (hrun good bad es s) \<longleftrightarrow> up s \<and> fails s + int (length es) < ft)"
proof (induction es rule: rev_induct)
  case Nil
  then show ?case by simp
next
  case (snoc x es)
  obtain e where x: "x = (False, e)" using snoc.prems by (cases x) auto
  show ?case
  proof (cases "es = []")
    case True
    then show ?thesis by (simp add: x hyst_simps)
  next
    case False
    with snoc show ?thesis by (auto simp: x hrun_append hyst_simps)
  qed
qed

lemma good_streak:
  "list_all fst es \<Longrightarrow> es \<noteq> [] \<Longrightarrow> succs (hrun good bad es s) = succs s + int (length es)
     \<and> (up (hrun good bad es s) \<longleftrightarrow> up s \<or> rt \<le> succs s + int (length es))"
proof (induction es rule: rev_induct)
  case Nil
  then show ?case by simp
next
  case (snoc x es)
  obtain e where x: "x = (True, e)" using snoc.prems by (cases x) auto
  show ?case
  proof (cases "es = []")
    case True
    then show ?thesis by (simp add: x hyst_simps)
  next
    case False
    with snoc show ?thesis by (auto simp: x hrun_append hyst_simps)
  qed
qed

text \<open>The failure counter is the length of the current run of bad observations.\<close>

lemma fails_trailing:
  assumes "fails s = 0"
  shows "fails (hrun good bad es s) = int (length (takeWhile (\<lambda>x. \<not> fst x) (rev es)))"
proof (induction es rule: rev_induct)
  case Nil
  then show ?case using assms by simp
next
  case (snoc x es)
  then show ?case by (cases x) (auto simp: hrun_append hyst_simps)
qed

text \<open>Going down takes a run of \<open>ft\<close> consecutive bad observations: shorter glitches are absorbed.\<close>

lemma down_needs_streak:
  assumes "up s" "fails s = 0" "\<not> up (hrun good bad es s)"
  shows "\<exists>as bs cs. es = as @ bs @ cs \<and> ft \<le> int (length bs) \<and> list_all (\<lambda>x. \<not> fst x) bs"
  using assms(3)
proof (induction es rule: rev_induct)
  case Nil
  then show ?case using assms(1) by simp
next
  case (snoc x es)
  show ?case
  proof (cases "up (hrun good bad es s)")
    case False
    then obtain as bs cs where "es = as @ bs @ cs" "ft \<le> int (length bs)" "list_all (\<lambda>x. \<not> fst x) bs"
      using snoc.IH by blast
    then show ?thesis by (intro exI [of _ as] exI [of _ bs] exI [of _ "cs @ [x]"]) simp
  next
    case True
    with snoc.prems obtain e where x: "x = (False, e)"
      by (cases x) (auto simp: hrun_append hyst_simps split: if_splits)
    let ?t = "takeWhile (\<lambda>x. \<not> fst x) (rev (es @ [x]))"
    have "fails (hrun good bad es s) + 1 \<ge> ft"
      using True snoc.prems by (simp add: x hrun_append up_bad)
    then have len: "ft \<le> int (length ?t)"
      using fails_trailing [OF assms(2), of es] by (simp add: x)
    have "rev (es @ [x]) = ?t @ dropWhile (\<lambda>x. \<not> fst x) (rev (es @ [x]))" by simp
    then have "es @ [x] = rev (dropWhile (\<lambda>x. \<not> fst x) (rev (es @ [x]))) @ rev ?t @ []"
      by (metis append_Nil2 rev_append rev_rev_ident)
    moreover have "list_all (\<lambda>x. \<not> fst x) (rev ?t)"
      by (metis (mono_tags, lifting) list_all_iff set_rev set_takeWhileD)
    ultimately show ?thesis using len by (metis length_rev)
  qed
qed

text \<open>The invariant that ties the flag to the counters.\<close>

definition hyst_inv :: "'s \<Rightarrow> bool" where
  "hyst_inv s \<longleftrightarrow> 0 \<le> fails s \<and> 0 \<le> succs s \<and> (fails s = 0 \<or> succs s = 0)
     \<and> (up s \<longrightarrow> fails s < ft) \<and> (\<not> up s \<longrightarrow> succs s < rt)"

lemma hyst_inv_step:
  assumes "0 < ft" "0 < rt" "hyst_inv s"
  shows "hyst_inv (good e s)" and "hyst_inv (bad e s)"
  using assms by (auto simp: hyst_inv_def hyst_simps)

lemma hyst_inv_run:
  assumes "0 < ft" "0 < rt"
  shows "hyst_inv s \<Longrightarrow> hyst_inv (hrun good bad es s)"
  by (induction es arbitrary: s) (auto simp: hyst_inv_step [OF assms])

end

end
