(* ===== verification/Health.thy ===== *)
theory Health
  imports Config Protocol Net Hysteresis
begin

text \<open>
  Health tracking of \<^verbatim>\<open>internal/health\<close>: the per-endpoint \<open>HealthState\<close> with its two record
  methods (\<^verbatim>\<open>state.go\<close>) and the checker that probes both endpoints of a cluster on an adaptive
  schedule, with its SASL/PLAIN and Metadata frames (\<^verbatim>\<open>checker.go\<close>). Dialling is an argument of
  a probe: the connection the dial returned, or its error. Every operation reads the clock once,
  as its argument \<open>now\<close>; mutexes are not modelled, each method being one critical section.
\<close>

section \<open>HealthState\<close>

datatype Status = StatusUnset | StatusHealthy | StatusDegraded | StatusUnreachable

record HealthState =
  hsHealthy :: bool
  hsConsecutiveFailures :: int
  hsConsecutiveSuccesses :: int
  hsLastCheckAt :: Time
  hsLastCheckLatency :: Duration
  hsLastStatus :: Status
  hsLastError :: string
  hsUpSince :: Time
  hsBootstrap :: string

definition NewHealthState :: "Time \<Rightarrow> string \<Rightarrow> HealthState" where
  "NewHealthState now bootstrap =
     \<lparr>hsHealthy = True, hsConsecutiveFailures = 0, hsConsecutiveSuccesses = 0,
      hsLastCheckAt = zero_time, hsLastCheckLatency = 0, hsLastStatus = StatusUnset,
      hsLastError = '''', hsUpSince = now, hsBootstrap = bootstrap\<rparr>"

definition RecordSuccess ::
  "Time \<Rightarrow> Duration \<Rightarrow> Status \<Rightarrow> int \<Rightarrow> int \<Rightarrow> HealthState \<Rightarrow> HealthState" where
  "RecordSuccess now latency status failureThreshold recoveryThreshold h =
     (let h = h\<lparr>hsConsecutiveFailures := 0,
                hsConsecutiveSuccesses := hsConsecutiveSuccesses h + 1,
                hsLastCheckAt := now, hsLastCheckLatency := latency,
                hsLastStatus := status, hsLastError := ''''\<rparr>
      in if \<not> hsHealthy h \<and> hsConsecutiveSuccesses h \<ge> recoveryThreshold
         then h\<lparr>hsHealthy := True, hsUpSince := now\<rparr> else h)"

definition RecordFailure ::
  "Time \<Rightarrow> Duration \<Rightarrow> Status \<Rightarrow> string \<Rightarrow> int \<Rightarrow> HealthState \<Rightarrow> HealthState" where
  "RecordFailure now latency status errMsg failureThreshold h =
     (let h = h\<lparr>hsConsecutiveSuccesses := 0,
                hsConsecutiveFailures := hsConsecutiveFailures h + 1,
                hsLastCheckAt := now, hsLastCheckLatency := latency,
                hsLastStatus := status, hsLastError := errMsg\<rparr>
      in if hsHealthy h \<and> hsConsecutiveFailures h \<ge> failureThreshold
         then h\<lparr>hsHealthy := False, hsUpSince := zero_time\<rparr> else h)"

definition IsHealthy :: "HealthState \<Rightarrow> bool" where
  "IsHealthy h = hsHealthy h"

record Snapshot =
  snHealthy :: bool
  snConsecutiveFailures :: int
  snConsecutiveSuccesses :: int
  snLastCheckAt :: Time
  snLastCheckLatency :: Duration
  snLastStatus :: Status
  snLastError :: string
  snUpSince :: Time
  snBootstrap :: string

definition HealthState_Snapshot :: "HealthState \<Rightarrow> Snapshot" where
  "HealthState_Snapshot h =
     \<lparr>snHealthy = hsHealthy h, snConsecutiveFailures = hsConsecutiveFailures h,
      snConsecutiveSuccesses = hsConsecutiveSuccesses h, snLastCheckAt = hsLastCheckAt h,
      snLastCheckLatency = hsLastCheckLatency h, snLastStatus = hsLastStatus h,
      snLastError = hsLastError h, snUpSince = hsUpSince h, snBootstrap = hsBootstrap h\<rparr>"

section \<open>Probe frames\<close>

definition healthClientID :: string where
  "healthClientID = ''kafkaproxy-health''"

definition metadataPing :: "byte list \<Rightarrow> byte list" where
  "metadataPing pooled =
     WriteFrame pooled (encode_header APIKeyMetadata 0 0 healthClientID) (PutUint32 0)"

text \<open>\<open>writeMetadataRequest\<close> and \<open>readMetadataResponse\<close> of the checker.\<close>

definition writeMetadataRequest :: "byte list \<Rightarrow> conn \<Rightarrow> error option \<times> conn" where
  "writeMetadataRequest pooled c = conn_Write (metadataPing pooled) c"

definition readMetadataResponse :: "conn \<Rightarrow> (error + unit) \<times> conn" where
  "readMetadataResponse c =
     (case ReadFull 4 c of
        (Inl e, c) \<Rightarrow> (Inl (Wrap ''read size prefix'' e), c)
      | (Inr sizeBuf, c) \<Rightarrow>
          (case ReadFull (unat (Uint32 sizeBuf)) c of
             (Inl e, c) \<Rightarrow> (Inl (Wrap ''read response body'' e), c)
           | (Inr respBuf, c) \<Rightarrow>
               if length respBuf < 4 then (Inl (Errorf ''response too short''), c) else (Inr (), c)))"

definition saslHandshakeFrame :: "byte list" where
  "saslHandshakeFrame =
     (let body = PutUint16 (word_of_nat (length ''PLAIN'')) @ stob ''PLAIN'';
          hdr = encode_header APIKeySaslHandshake 1 1 healthClientID
      in PutUint32 (word_of_nat (length hdr + length body)) @ hdr @ body)"

definition plainAuthBytes :: "string \<Rightarrow> string \<Rightarrow> byte list" where
  "plainAuthBytes username password = [0] @ stob username @ [0] @ stob password"

definition saslAuthenticateFrame :: "string \<Rightarrow> string \<Rightarrow> byte list" where
  "saslAuthenticateFrame username password =
     (let authBytes = plainAuthBytes username password;
          body = PutUint32 (word_of_nat (length authBytes)) @ authBytes;
          hdr = encode_header APIKeySaslAuthenticate 1 2 healthClientID
      in PutUint32 (word_of_nat (length hdr + length body)) @ hdr @ body)"

text \<open>Reading one SASL response: size, body, and the error code after the correlation id.\<close>

definition readSaslResponse :: "string \<Rightarrow> conn \<Rightarrow> (error + unit) \<times> conn" where
  "readSaslResponse what c =
     (case ReadFull 4 c of
        (Inl e, c) \<Rightarrow> (Inl (Wrap (''read '' @ what @ '' size'') e), c)
      | (Inr sizeBuf, c) \<Rightarrow>
          (case ReadFull (unat (Uint32 sizeBuf)) c of
             (Inl e, c) \<Rightarrow> (Inl (Wrap (''read '' @ what @ '' body'') e), c)
           | (Inr respBuf, c) \<Rightarrow>
               if length respBuf < 6 then (Inl (Errorf (what @ '' response too short'')), c)
               else if Uint16 (slice respBuf 4 6) \<noteq> 0
                    then (Inl (Errorf (''sasl '' @ what @ '' error code'')), c)
               else (Inr (), c)))"

definition saslAuth :: "string \<Rightarrow> string \<Rightarrow> conn \<Rightarrow> (error + unit) \<times> conn" where
  "saslAuth username password c =
     (if username = '''' then (Inr (), c)
      else (case conn_Write saslHandshakeFrame c of
              (Some e, c) \<Rightarrow> (Inl (Wrap ''write sasl handshake'' e), c)
            | (None, c) \<Rightarrow>
                (case readSaslResponse ''handshake'' c of
                   (Inl e, c) \<Rightarrow> (Inl e, c)
                 | (Inr _, c) \<Rightarrow>
                     (case conn_Write (saslAuthenticateFrame username password) c of
                        (Some e, c) \<Rightarrow> (Inl (Wrap ''write sasl authenticate'' e), c)
                      | (None, c) \<Rightarrow> readSaslResponse ''authenticate'' c))))"

section \<open>Checker\<close>

record clusterRunner =
  crName :: string
  crPrimaryAddr :: string
  crSecondaryAddr :: string
  crInterval :: Duration
  crFailureThreshold :: int
  crRecoveryThreshold :: int
  crSaslUsername :: string
  crSaslPassword :: string
  crPrimary :: HealthState
  crSecondary :: HealthState

definition newRunner :: "Time \<Rightarrow> string \<Rightarrow> ClusterConfig \<Rightarrow> clusterRunner" where
  "newRunner now name cluster =
     (let hc = HealthCheck cluster in
      \<lparr>crName = name, crPrimaryAddr = Bootstrap (Primary cluster),
       crSecondaryAddr = Bootstrap (Secondary cluster),
       crInterval = (if Interval hc \<le> 0 then 10 * second else Interval hc),
       crFailureThreshold = (if FailureThreshold hc \<le> 0 then 3 else FailureThreshold hc),
       crRecoveryThreshold = (if RecoveryThreshold hc \<le> 0 then 2 else RecoveryThreshold hc),
       crSaslUsername = SaslUsername hc, crSaslPassword = SaslPassword hc,
       crPrimary = NewHealthState now (Bootstrap (Primary cluster)),
       crSecondary = NewHealthState now (Bootstrap (Secondary cluster))\<rparr>)"

definition NewChecker :: "Time \<Rightarrow> (string \<times> ClusterConfig) list \<Rightarrow> (string \<rightharpoonup> clusterRunner)" where
  "NewChecker now clusters =
     fold (\<lambda>(name, cluster) m. if Enabled (HealthCheck cluster) then m(name \<mapsto> newRunner now name cluster) else m)
       clusters Map.empty"

record ClusterHealth =
  chName :: string
  chPrimary :: Snapshot
  chSecondary :: Snapshot

definition Checker_Health :: "(string \<rightharpoonup> clusterRunner) \<Rightarrow> (string \<rightharpoonup> ClusterHealth)" where
  "Checker_Health cs = (\<lambda>name. map_option (\<lambda>r.
     \<lparr>chName = name, chPrimary = HealthState_Snapshot (crPrimary r),
      chSecondary = HealthState_Snapshot (crSecondary r)\<rparr>) (cs name))"

definition healthDialTimeout :: Duration where "healthDialTimeout = 10 * second"
definition healthReadTimeout :: Duration where "healthReadTimeout = 10 * second"
definition healthWriteTimeout :: Duration where "healthWriteTimeout = 5 * second"

definition adaptiveFastInterval :: Duration where
  "adaptiveFastInterval = 2 * second"

definition adaptiveInterval :: "clusterRunner \<Rightarrow> HealthState \<Rightarrow> Duration" where
  "adaptiveInterval r state =
     (let snap = HealthState_Snapshot state in
      if snConsecutiveFailures snap > 0 \<or> \<not> snHealthy snap then adaptiveFastInterval else crInterval r)"

text \<open>
  One probe: \<open>dial\<close> is the connection or the error of the dial, \<open>latency\<close> the time from start
  to the moment of recording, \<open>pooled\<close> the frame buffer's old content.
  The recorded error text is the prefix the code formats, without the wrapped error.
\<close>

record probe =
  prDial :: "error + conn"
  prLatency :: Duration
  prPooled :: "byte list"

definition probeResult :: "clusterRunner \<Rightarrow> probe \<Rightarrow> string option" where
  "probeResult r p =
     (case prDial p of
        Inl _ \<Rightarrow> Some ''dial''
      | Inr c \<Rightarrow>
          (case saslAuth (crSaslUsername r) (crSaslPassword r) c of
             (Inl _, _) \<Rightarrow> Some ''sasl auth''
           | (Inr _, c) \<Rightarrow>
               (case writeMetadataRequest (prPooled p) c of
                  (Some _, _) \<Rightarrow> Some ''write metadata request''
                | (None, c) \<Rightarrow>
                    (case readMetadataResponse c of
                       (Inl _, _) \<Rightarrow> Some ''read metadata response''
                     | (Inr _, _) \<Rightarrow> None))))"

text \<open>The time a call of \<open>checkEndpoint\<close> takes, and what its deadlines allow it to take.\<close>

definition checkTime :: "string \<Rightarrow> probe \<Rightarrow> Duration" where
  "checkTime addr p = (if addr = '''' then 0 else prLatency p)"

definition maxProbe :: "clusterRunner \<Rightarrow> Duration" where
  "maxProbe r = healthDialTimeout
     + (if crSaslUsername r = '''' then 0 else 2 * (healthWriteTimeout + healthReadTimeout))
     + healthWriteTimeout + healthReadTimeout"

definition checkEndpoint :: "Time \<Rightarrow> clusterRunner \<Rightarrow> probe \<Rightarrow> string \<Rightarrow> HealthState \<Rightarrow> HealthState" where
  "checkEndpoint now r p addr state =
     (if addr = '''' then state
      else (case probeResult r p of
              Some msg \<Rightarrow> RecordFailure now (prLatency p) StatusUnreachable msg (crFailureThreshold r) state
            | None \<Rightarrow>
                RecordSuccess now (prLatency p)
                  (if prLatency p > 5 * second then StatusDegraded else StatusHealthy)
                  (crFailureThreshold r) (crRecoveryThreshold r) state))"

text \<open>\<open>checkAndReschedule\<close> of \<open>runCluster\<close>: both endpoints, then the next interval.\<close>

definition checkAndReschedule :: "Time \<Rightarrow> probe \<Rightarrow> probe \<Rightarrow> clusterRunner \<Rightarrow> clusterRunner \<times> Duration" where
  "checkAndReschedule now pp sp r =
     (let r = r\<lparr>crPrimary := checkEndpoint now r pp (crPrimaryAddr r) (crPrimary r)\<rparr>;
          r = r\<lparr>crSecondary := checkEndpoint now r sp (crSecondaryAddr r) (crSecondary r)\<rparr>;
          pInterval = adaptiveInterval r (crPrimary r);
          sInterval = adaptiveInterval r (crSecondary r)
      in (r, if pInterval < sInterval then pInterval else sInterval))"

section \<open>Lemmas\<close>

text \<open>An observation: success flag with clock reading, latency, status and error text.\<close>

type_synonym observation = "bool \<times> Time \<times> Duration \<times> Status \<times> string"

definition hs_good :: "int \<Rightarrow> int \<Rightarrow> Time \<times> Duration \<times> Status \<times> string \<Rightarrow> HealthState \<Rightarrow> HealthState" where
  "hs_good ft rt = (\<lambda>(now, lat, st, msg). RecordSuccess now lat st ft rt)"

definition hs_bad :: "int \<Rightarrow> Time \<times> Duration \<times> Status \<times> string \<Rightarrow> HealthState \<Rightarrow> HealthState" where
  "hs_bad ft = (\<lambda>(now, lat, st, msg). RecordFailure now lat st msg ft)"

definition hs_run :: "int \<Rightarrow> int \<Rightarrow> observation list \<Rightarrow> HealthState \<Rightarrow> HealthState" where
  "hs_run ft rt obs h = hrun (hs_good ft rt) (hs_bad ft) obs h"

interpretation hs: hysteresis hsHealthy hsConsecutiveFailures hsConsecutiveSuccesses
  "hs_good ft rt" "hs_bad ft" ft rt for ft rt :: int
  by unfold_locales
    (auto simp: hs_good_def hs_bad_def RecordSuccess_def RecordFailure_def Let_def split: prod.splits)

lemma up_since_step:
  assumes "hsHealthy h \<longleftrightarrow> hsUpSince h \<noteq> zero_time" and "fst e \<noteq> zero_time"
  shows "hsHealthy (hs_good ft rt e h) \<longleftrightarrow> hsUpSince (hs_good ft rt e h) \<noteq> zero_time"
    and "hsHealthy (hs_bad ft e h) \<longleftrightarrow> hsUpSince (hs_bad ft e h) \<noteq> zero_time"
  using assms
  by (auto simp: hs_good_def hs_bad_def RecordSuccess_def RecordFailure_def Let_def split: prod.splits)

lemma up_since_run:
  assumes "list_all (\<lambda>o'. fst (snd o') \<noteq> zero_time) obs"
  shows "(hsHealthy h \<longleftrightarrow> hsUpSince h \<noteq> zero_time) \<Longrightarrow>
    (hsHealthy (hs_run ft rt obs h) \<longleftrightarrow> hsUpSince (hs_run ft rt obs h) \<noteq> zero_time)"
  using assms unfolding hs_run_def
proof (induction obs arbitrary: h)
  case Nil
  then show ?case by simp
next
  case (Cons x obs)
  obtain ok e where x: "x = (ok, e)" by (cases x)
  have "hsHealthy h' \<longleftrightarrow> hsUpSince h' \<noteq> zero_time"
    if "h' = (if ok then hs_good ft rt e h else hs_bad ft e h)" for h'
    using that Cons.prems up_since_step(1) [of h e ft rt] up_since_step(2) [of h e ft] by (auto simp: x)
  then show ?case using Cons.IH Cons.prems(2) by (simp add: x)
qed

lemma new_hyst_inv: "0 < ft \<Longrightarrow> 0 < rt \<Longrightarrow> hs.hyst_inv ft rt (NewHealthState now b)"
  by (simp add: hs.hyst_inv_def NewHealthState_def)

lemma run_hyst_inv: "0 < ft \<Longrightarrow> 0 < rt \<Longrightarrow> hs.hyst_inv ft rt (hs_run ft rt obs (NewHealthState now b))"
  unfolding hs_run_def by (intro hs.hyst_inv_run new_hyst_inv)

text \<open>
  Rounds of the per-cluster goroutine, and the time from the start of the first to the start of the round
  after them: the timer is reset when both probes have ended.
\<close>

fun run_rounds :: "(Time \<times> probe \<times> probe) list \<Rightarrow> clusterRunner \<Rightarrow> clusterRunner \<times> Duration" where
  "run_rounds [] r = (r, 0)"
| "run_rounds ((now, pp, sp) # es) r =
     (let (r1, d) = checkAndReschedule now pp sp r; (r2, d') = run_rounds es r1
      in (r2, checkTime (crPrimaryAddr r) pp + checkTime (crSecondaryAddr r) sp + d + d'))"

definition runner_params :: "clusterRunner \<Rightarrow> string \<times> string \<times> int \<times> int \<times> Duration \<times> string \<times> string" where
  "runner_params r = (crPrimaryAddr r, crSecondaryAddr r, crFailureThreshold r, crRecoveryThreshold r,
     crInterval r, crSaslUsername r, crSaslPassword r)"

lemma probeResult_params: "runner_params r = runner_params r' \<Longrightarrow> probeResult r p = probeResult r' p"
proof -
  assume "runner_params r = runner_params r'"
  then have e: "crSaslUsername r = crSaslUsername r'" "crSaslPassword r = crSaslPassword r'"
    by (simp_all add: runner_params_def)
  show ?thesis unfolding probeResult_def e ..
qed

text \<open>A round in which the primary probe fails.\<close>

lemma failing_round:
  assumes "checkAndReschedule now pp sp r = (r1, d)" and "probeResult r pp \<noteq> None"
    and "crPrimaryAddr r \<noteq> ''''" and "0 \<le> hsConsecutiveFailures (crPrimary r)"
    and "adaptiveFastInterval \<le> crInterval r"
  shows "runner_params r1 = runner_params r" and "d = adaptiveFastInterval"
    and "hsConsecutiveFailures (crPrimary r1) = hsConsecutiveFailures (crPrimary r) + 1"
    and "hsHealthy (crPrimary r1) \<longleftrightarrow>
      hsHealthy (crPrimary r) \<and> hsConsecutiveFailures (crPrimary r) + 1 < crFailureThreshold r"
proof -
  obtain msg where msg: "probeResult r pp = Some msg" using assms(2) by auto
  let ?h = "RecordFailure now (prLatency pp) StatusUnreachable msg (crFailureThreshold r) (crPrimary r)"
  have h: "hsConsecutiveFailures ?h = hsConsecutiveFailures (crPrimary r) + 1"
    "hsHealthy ?h \<longleftrightarrow> hsHealthy (crPrimary r) \<and> hsConsecutiveFailures (crPrimary r) + 1 < crFailureThreshold r"
    using hs.fails_bad [of "crFailureThreshold r" "(now, prLatency pp, StatusUnreachable, msg)" "crPrimary r"]
      hs.up_bad [of "crFailureThreshold r" "(now, prLatency pp, StatusUnreachable, msg)" "crPrimary r"]
    by (simp_all add: hs_bad_def)
  have r1: "crPrimary r1 = ?h" "runner_params r1 = runner_params r"
    using assms(1,3) msg by (auto simp: checkAndReschedule_def checkEndpoint_def runner_params_def Let_def)
  have "adaptiveInterval r1 (crPrimary r1) = adaptiveFastInterval"
    using assms(4) by (simp add: r1 adaptiveInterval_def HealthState_Snapshot_def h)
  moreover have "adaptiveFastInterval \<le> adaptiveInterval r1 (crSecondary r1)"
    using assms(5) r1(2) by (simp add: adaptiveInterval_def Let_def runner_params_def)
  ultimately show "d = adaptiveFastInterval"
    using assms(1) by (auto simp: checkAndReschedule_def Let_def adaptiveInterval_def runner_params_def)
  show "runner_params r1 = runner_params r"
    and "hsConsecutiveFailures (crPrimary r1) = hsConsecutiveFailures (crPrimary r) + 1"
    and "hsHealthy (crPrimary r1) \<longleftrightarrow>
      hsHealthy (crPrimary r) \<and> hsConsecutiveFailures (crPrimary r) + 1 < crFailureThreshold r"
    using r1 h by simp_all
qed

definition roundTime :: "clusterRunner \<Rightarrow> Time \<times> probe \<times> probe \<Rightarrow> Duration" where
  "roundTime r = (\<lambda>(t, pp, sp). checkTime (crPrimaryAddr r) pp + checkTime (crSecondaryAddr r) sp)"

lemma roundTime_params: "runner_params r = runner_params r' \<Longrightarrow> roundTime r = roundTime r'"
  by (simp add: roundTime_def runner_params_def)

lemma failing_rounds:
  assumes "run_rounds es r = (r1, d)" and "list_all (\<lambda>(t, pp, sp). probeResult r pp \<noteq> None) es"
    and "crPrimaryAddr r \<noteq> ''''" and "0 \<le> hsConsecutiveFailures (crPrimary r)"
    and "adaptiveFastInterval \<le> crInterval r"
  shows "runner_params r1 = runner_params r \<and> d = (\<Sum>e\<leftarrow>es. roundTime r e + adaptiveFastInterval)
    \<and> hsConsecutiveFailures (crPrimary r1) = hsConsecutiveFailures (crPrimary r) + int (length es)
    \<and> (es \<noteq> [] \<longrightarrow> (hsHealthy (crPrimary r1) \<longleftrightarrow> hsHealthy (crPrimary r)
         \<and> hsConsecutiveFailures (crPrimary r) + int (length es) < crFailureThreshold r))"
  using assms
proof (induction es arbitrary: r d)
  case Nil
  then show ?case by simp
next
  case (Cons e es)
  obtain now pp sp where e: "e = (now, pp, sp)" by (cases e)
  obtain r0 d0 where c: "checkAndReschedule now pp sp r = (r0, d0)" by (cases "checkAndReschedule now pp sp r")
  obtain d' where rest: "run_rounds es r0 = (r1, d')" "d = roundTime r e + d0 + d'"
    using Cons.prems(1) by (auto simp: e c roundTime_def Let_def split: prod.splits)
  have pf: "probeResult r pp \<noteq> None" using Cons.prems(2) by (simp add: e)
  note f = failing_round [OF c pf Cons.prems(3,4,5)]
  have "list_all (\<lambda>(t, pp, sp). probeResult r0 pp \<noteq> None) es"
    using Cons.prems(2) probeResult_params [OF f(1)] by (auto simp: list_all_iff)
  then have ih: "runner_params r1 = runner_params r0 \<and> d' = (\<Sum>e\<leftarrow>es. roundTime r0 e + adaptiveFastInterval)
    \<and> hsConsecutiveFailures (crPrimary r1) = hsConsecutiveFailures (crPrimary r0) + int (length es)
    \<and> (es \<noteq> [] \<longrightarrow> (hsHealthy (crPrimary r1) \<longleftrightarrow> hsHealthy (crPrimary r0)
         \<and> hsConsecutiveFailures (crPrimary r0) + int (length es) < crFailureThreshold r0))"
    using rest(1) Cons.prems(3,4,5) f by (intro Cons.IH) (auto simp: runner_params_def)
  have "crFailureThreshold r0 = crFailureThreshold r" using f(1) by (simp add: runner_params_def)
  moreover have "es = [] \<Longrightarrow> r1 = r0" using rest(1) by simp
  ultimately show ?case using ih f rest(2) roundTime_params [OF f(1)] by auto
qed

lemma rounds_bound:
  assumes "\<forall>e\<in>set es. roundTime r e \<le> m"
  shows "(\<Sum>e\<leftarrow>es. roundTime r e + i) \<le> int (length es) * (m + i)"
  using assms by (induction es) (auto simp: algebra_simps)


lemma readSaslResponse_out: "readSaslResponse what c = (r, c') \<Longrightarrow> cout c' = cout c"
  by (auto simp: readSaslResponse_def ReadFull_def split: if_splits)

lemma saslHandshakeFrame_parse:
  "ParseRequestHeader saslHandshakeFrame
     = Inr \<lparr>rhSize = 34, rhAPIKey = 17, rhAPIVersion = 1, rhCorrelationID = 1, rhClientID = healthClientID\<rparr>"
  using ParseRequestHeader_encoded [of healthClientID 34 17 1 1 "PutUint16 5 @ stob ''PLAIN''"]
  by (simp add: saslHandshakeFrame_def healthClientID_def)

lemma saslAuthenticateFrame_parse:
  "ParseRequestHeader (saslAuthenticateFrame u p)
     = Inr \<lparr>rhSize = word_of_nat (33 + length u + length p), rhAPIKey = 36, rhAPIVersion = 1,
            rhCorrelationID = 2, rhClientID = healthClientID\<rparr>"
  using ParseRequestHeader_encoded [of healthClientID "word_of_nat (33 + length u + length p)" 36 1 2
      "PutUint32 (word_of_nat (length (plainAuthBytes u p))) @ plainAuthBytes u p"]
  by (simp add: saslAuthenticateFrame_def healthClientID_def Let_def plainAuthBytes_def add.assoc)

section \<open>Properties\<close>

text \<open>
  C24. Hysteresis of the endpoint health, for positive thresholds and any history of probe
  results from creation: an endpoint is only unhealthy after a run of at least
  \<open>failure_threshold\<close> consecutive failures (shorter glitches are absorbed), any further run of
  that many failures makes it unhealthy, and any further run of \<open>recovery_threshold\<close> successes
  makes it healthy.
\<close>
theorem health_hysteresis:
  fixes obs :: "observation list" and now :: Time and b :: string
  assumes "0 < ft" and "0 < rt"
  defines "h \<equiv> hs_run ft rt obs (NewHealthState now b)"
  shows "(\<not> IsHealthy h \<longrightarrow>
      (\<exists>as bs cs. obs = as @ bs @ cs \<and> ft \<le> int (length bs) \<and> list_all (\<lambda>o'. \<not> fst o') bs))
    \<and> (\<forall>fs. list_all (\<lambda>o'. \<not> fst o') fs \<and> ft \<le> int (length fs) \<longrightarrow> \<not> IsHealthy (hs_run ft rt fs h))
    \<and> (\<forall>ss. list_all fst ss \<and> rt \<le> int (length ss) \<longrightarrow> IsHealthy (hs_run ft rt ss h))"
proof -
  have inv: "hs.hyst_inv ft rt h" unfolding h_def using assms(1,2) by (rule run_hyst_inv)
  have "\<exists>as bs cs. obs = as @ bs @ cs \<and> ft \<le> int (length bs) \<and> list_all (\<lambda>o'. \<not> fst o') bs"
    if "\<not> IsHealthy h"
    using that hs.down_needs_streak [of "NewHealthState now b" ft rt obs]
    by (simp add: h_def IsHealthy_def hs_run_def NewHealthState_def)
  moreover have "\<not> IsHealthy (hs_run ft rt fs h)"
    if "list_all (\<lambda>o'. \<not> fst o') fs" "ft \<le> int (length fs)" for fs
    using hs.bad_streak [OF that(1), of ft rt h] that(2) inv assms(1)
    by (cases "fs = []") (auto simp: IsHealthy_def hs_run_def hs.hyst_inv_def)
  moreover have "IsHealthy (hs_run ft rt ss h)" if "list_all fst ss" "rt \<le> int (length ss)" for ss
    using hs.good_streak [OF that(1), of ft rt h] that(2) inv assms(2)
    by (cases "ss = []") (auto simp: IsHealthy_def hs_run_def hs.hyst_inv_def)
  ultimately show ?thesis by blast
qed

theorem health_hysteresis_witness:
  "\<not> IsHealthy (hs_run 2 2 [(False, 5, 1, StatusUnreachable, ''dial''), (False, 6, 1, StatusUnreachable, ''dial'')]
       (hs_run 2 2 [] (NewHealthState 1 ''k1:9092'')))"
  using health_hysteresis [of 2 2 "[]" 1 "''k1:9092''"] by simp

text \<open>
  In every state the checker can reach with positive thresholds and a running clock, a
  healthy endpoint has fewer than \<open>failure_threshold\<close> consecutive failures, an unhealthy one
  fewer than \<open>recovery_threshold\<close> successes, at most one of the two counters is non-zero, and
  \<open>UpSince\<close> is set exactly while the endpoint is healthy.
\<close>
theorem health_state_invariant:
  fixes obs :: "observation list" and now :: Time and b :: string
  assumes "0 < ft" and "0 < rt" and "now \<noteq> zero_time"
    and "list_all (\<lambda>o'. fst (snd o') \<noteq> zero_time) obs"
  defines "h \<equiv> hs_run ft rt obs (NewHealthState now b)"
  shows "(IsHealthy h \<longrightarrow> hsConsecutiveFailures h < ft)
    \<and> (\<not> IsHealthy h \<longrightarrow> hsConsecutiveSuccesses h < rt)
    \<and> 0 \<le> hsConsecutiveFailures h \<and> 0 \<le> hsConsecutiveSuccesses h
    \<and> (hsConsecutiveFailures h = 0 \<or> hsConsecutiveSuccesses h = 0)
    \<and> (IsHealthy h \<longleftrightarrow> hsUpSince h \<noteq> zero_time)"
proof -
  have "hs.hyst_inv ft rt h" unfolding h_def using assms(1,2) by (rule run_hyst_inv)
  moreover have "hsHealthy h \<longleftrightarrow> hsUpSince h \<noteq> zero_time"
    unfolding h_def using assms(3,4) by (intro up_since_run) (simp_all add: NewHealthState_def)
  ultimately show ?thesis by (simp add: hs.hyst_inv_def IsHealthy_def)
qed

theorem health_state_invariant_witness:
  "hsUpSince (hs_run 1 1 [(False, 5, 1, StatusUnreachable, ''dial'')] (NewHealthState 3 ''k1'')) = zero_time"
proof -
  have "\<not> IsHealthy (hs_run 1 1 [(False, 5, 1, StatusUnreachable, ''dial'')] (NewHealthState 3 ''k1''))"
    by (simp add: hs_run_def hs_bad_def RecordFailure_def NewHealthState_def IsHealthy_def)
  then show ?thesis
    using health_state_invariant [of 1 1 3 "[(False, 5, 1, StatusUnreachable, ''dial'')]" "''k1''"]
    by (simp add: zero_time_def)
qed

text \<open>Probes that end within their deadlines.\<close>

definition timely :: "clusterRunner \<Rightarrow> Time \<times> probe \<times> probe \<Rightarrow> bool" where
  "timely r = (\<lambda>(t, pp, sp). prLatency pp \<le> maxProbe r \<and> prLatency sp \<le> maxProbe r)"

lemma timely_roundTime: "timely r e \<Longrightarrow> roundTime r e \<le> 2 * maxProbe r"
  by (auto simp: timely_def roundTime_def checkTime_def maxProbe_def healthDialTimeout_def healthWriteTimeout_def
      healthReadTimeout_def second_def split: prod.splits)

text \<open>
  C39. The detection window of the adaptive schedule. Take a primary that is healthy with no
  failure recorded, a failure threshold of \<open>n + 1\<close> and a configured interval of at least the
  fast one. If every probe of the primary fails from some round on, it stays healthy for \<open>n\<close>
  rounds and the next round declares it down. These \<open>n\<close> rounds take, each, the two-second fast
  interval and the time of its two probes, because the timer starts when both have ended. So from the
  start of the first failing probe to the failure that declares the primary down it takes at most
  \<open>n\<close> times two seconds and two probes, and one more probe, where a probe within its deadlines takes
  at most 25 seconds, or 55 with SASL.
\<close>
theorem detection_window:
  assumes "crPrimaryAddr r \<noteq> ''''" and "IsHealthy (crPrimary r)"
    and "hsConsecutiveFailures (crPrimary r) = 0" and "crFailureThreshold r = int n + 1"
    and "adaptiveFastInterval \<le> crInterval r" and "length es = n"
    and "list_all (\<lambda>(t, pp, sp). probeResult r pp \<noteq> None) (es @ [(t, pp, sp)])"
    and "run_rounds es r = (r1, d)" and "checkAndReschedule t pp sp r1 = (r2, d2)"
  shows "IsHealthy (crPrimary r1) \<and> \<not> IsHealthy (crPrimary r2)
    \<and> d = (\<Sum>(t, pp, sp)\<leftarrow>es. checkTime (crPrimaryAddr r) pp + checkTime (crSecondaryAddr r) sp + 2 * second)
    \<and> (list_all (timely r) (es @ [(t, pp, sp)]) \<longrightarrow> d + prLatency pp \<le> int n * (2 * maxProbe r + 2 * second) + maxProbe r)
    \<and> maxProbe r = (if crSaslUsername r = '''' then 25 else 55) * second"
proof -
  have "list_all (\<lambda>(t, pp, sp). probeResult r pp \<noteq> None) es" using assms(7) by simp
  then have f: "runner_params r1 = runner_params r \<and> d = (\<Sum>e\<leftarrow>es. roundTime r e + adaptiveFastInterval)
    \<and> hsConsecutiveFailures (crPrimary r1) = hsConsecutiveFailures (crPrimary r) + int (length es)
    \<and> (es \<noteq> [] \<longrightarrow> (hsHealthy (crPrimary r1) \<longleftrightarrow> hsHealthy (crPrimary r)
         \<and> hsConsecutiveFailures (crPrimary r) + int (length es) < crFailureThreshold r))"
    using assms by (intro failing_rounds) auto
  have up: "IsHealthy (crPrimary r1)"
    using f assms(2,3,4,6,8) by (cases "es = []") (auto simp: IsHealthy_def)
  have "probeResult r1 pp \<noteq> None"
    using assms(7) probeResult_params [of r1 r pp] f by simp
  from failing_round(4) [OF assms(9) this] f assms(1,3,4,5,6)
  have "\<not> IsHealthy (crPrimary r2)" by (simp add: IsHealthy_def runner_params_def)
  moreover have "d = (\<Sum>(t, pp, sp)\<leftarrow>es. checkTime (crPrimaryAddr r) pp + checkTime (crSecondaryAddr r) sp + 2 * second)"
    using f by (simp add: roundTime_def adaptiveFastInterval_def case_prod_unfold)
  moreover have "d + prLatency pp \<le> int n * (2 * maxProbe r + 2 * second) + maxProbe r" if "list_all (timely r) (es @ [(t, pp, sp)])"
  proof -
    have "\<forall>e\<in>set es. roundTime r e \<le> 2 * maxProbe r" using that timely_roundTime by (simp add: list_all_iff)
    from rounds_bound [OF this, of adaptiveFastInterval] have "d \<le> int n * (2 * maxProbe r + 2 * second)"
      using f assms(6) by (simp add: adaptiveFastInterval_def)
    then show ?thesis using that by (simp add: timely_def)
  qed
  moreover have "maxProbe r = (if crSaslUsername r = '''' then 25 else 55) * second"
    by (simp add: maxProbe_def healthDialTimeout_def healthWriteTimeout_def healthReadTimeout_def second_def)
  ultimately show ?thesis using up by blast
qed

text \<open>A primary whose dial runs into its time-out, next to a secondary that refuses at once.\<close>

definition dead_probe :: probe where
  "dead_probe = \<lparr>prDial = Inl (Errorf ''i/o timeout''), prLatency = 10 * second, prPooled = []\<rparr>"

definition refused_probe :: probe where
  "refused_probe = \<lparr>prDial = Inl (Errorf ''refused''), prLatency = 0, prPooled = []\<rparr>"

theorem detection_window_witness:
  "\<exists>r1 d r2 d2. run_rounds [(10, dead_probe, refused_probe), (20, dead_probe, refused_probe)]
       (newRunner 1 ''finance'' sample_finance) = (r1, d)
     \<and> checkAndReschedule 30 dead_probe refused_probe r1 = (r2, d2)
     \<and> IsHealthy (crPrimary r1) \<and> \<not> IsHealthy (crPrimary r2) \<and> d + prLatency dead_probe = 34 * second"
proof -
  let ?r = "newRunner 1 ''finance'' sample_finance"
  let ?es = "[(10, dead_probe, refused_probe), (20, dead_probe, refused_probe)]"
  obtain r1 d where a: "run_rounds ?es ?r = (r1, d)" by fastforce
  obtain r2 d2 where b: "checkAndReschedule 30 dead_probe refused_probe r1 = (r2, d2)" by fastforce
  have p: "probeResult ?r dead_probe \<noteq> None" by (simp add: probeResult_def dead_probe_def)
  have "IsHealthy (crPrimary r1) \<and> \<not> IsHealthy (crPrimary r2)
      \<and> d = (\<Sum>(t, pp, sp)\<leftarrow>?es. checkTime (crPrimaryAddr ?r) pp + checkTime (crSecondaryAddr ?r) sp + 2 * second)"
    using detection_window [OF _ _ _ _ _ _ _ a b, of 2] p
    by (simp add: newRunner_def sample_finance_def sample_hc_def NewHealthState_def IsHealthy_def
        adaptiveFastInterval_def second_def)
  moreover have "(\<Sum>(t, pp, sp)\<leftarrow>?es. checkTime (crPrimaryAddr ?r) pp + checkTime (crSecondaryAddr ?r) sp + 2 * second) = 24 * second"
    by (simp add: checkTime_def dead_probe_def refused_probe_def newRunner_def sample_finance_def second_def)
  ultimately show ?thesis using a b by (intro exI [of _ r1] exI [of _ d] exI [of _ r2] exI [of _ d2]) (simp add: dead_probe_def second_def)
qed

text \<open>
A SASL/PLAIN authentication of the health checker that succeeds with a username has
  written exactly the handshake frame and then the authenticate frame to the connection, and
  both are well-formed Kafka requests: they parse as SaslHandshake v1 with correlation id 1 and
  SaslAuthenticate v1 with correlation id 2 from the checker's client id.
\<close>
theorem saslAuth_frames:
  assumes "saslAuth u p c = (Inr (), c')" and "u \<noteq> ''''"
  shows "cout c' = cout c @ saslHandshakeFrame @ saslAuthenticateFrame u p
    \<and> ParseRequestHeader saslHandshakeFrame
        = Inr \<lparr>rhSize = 34, rhAPIKey = APIKeySaslHandshake, rhAPIVersion = 1, rhCorrelationID = 1,
               rhClientID = healthClientID\<rparr>
    \<and> ParseRequestHeader (saslAuthenticateFrame u p)
        = Inr \<lparr>rhSize = word_of_nat (33 + length u + length p), rhAPIKey = APIKeySaslAuthenticate,
               rhAPIVersion = 1, rhCorrelationID = 2, rhClientID = healthClientID\<rparr>"
proof -
  from assms obtain c1 where 1: "conn_Write saslHandshakeFrame c = (None, c1)"
    by (auto simp: saslAuth_def split: prod.splits option.splits)
  with assms obtain c2 where 2: "readSaslResponse ''handshake'' c1 = (Inr (), c2)"
    by (auto simp: saslAuth_def split: prod.splits sum.splits)
  with 1 assms obtain c3 where 3: "conn_Write (saslAuthenticateFrame u p) c2 = (None, c3)"
    by (auto simp: saslAuth_def split: prod.splits option.splits)
  with 1 2 assms have 4: "readSaslResponse ''authenticate'' c3 = (Inr (), c')"
    by (simp add: saslAuth_def)
  have "cout c' = cout c @ saslHandshakeFrame @ saslAuthenticateFrame u p"
    using 1 3 readSaslResponse_out [OF 2] readSaslResponse_out [OF 4] by (simp add: conn_Write_None)
  then show ?thesis by (simp add: saslHandshakeFrame_parse saslAuthenticateFrame_parse)
qed

definition sasl_ok_reply :: "byte list" where
  "sasl_ok_reply = [0, 0, 0, 6, 0, 0, 0, 1, 0, 0]"

theorem saslAuth_frames_witness:
  "cout (snd (saslAuth ''admin'' ''secret'' \<lparr>cin = sasl_ok_reply @ sasl_ok_reply, cout = [], cwok = 200\<rparr>))
     = saslHandshakeFrame @ saslAuthenticateFrame ''admin'' ''secret''"
proof -
  let ?c = "\<lparr>cin = sasl_ok_reply @ sasl_ok_reply, cout = [], cwok = 200\<rparr>"
  have "\<not> 200 < length saslHandshakeFrame"
    "\<not> 200 - length saslHandshakeFrame < length (saslAuthenticateFrame ''admin'' ''secret'')" by code_simp+
  then obtain c' where "saslAuth ''admin'' ''secret'' ?c = (Inr (), c')"
    by (simp add: saslAuth_def conn_Write_def readSaslResponse_def ReadFull_def sasl_ok_reply_def
        Uint32_def Uint16_def be_nat_def slice_def)
  then show ?thesis using saslAuth_frames [of "''admin''" "''secret''" ?c c'] by simp
qed

end
