(* ===== verification/State_Machine.thy ===== *)
theory State_Machine
  imports Go_Prelude
begin

text \<open>
  The DR state machine of \<^verbatim>\<open>internal/failover/state.go\<close>. The sequential model passes the
  machine through each method; \<open>'cb\<close> are the registered callbacks and every operation returns
  the list of callback invocations it makes, in order, which the caller's model interprets.
  \<open>SM_Transition\<close> is the method as one thread sees it. The second part models the method at the
  grain of its locks: any number of goroutines run it concurrently, each between its map lookup,
  its read of the entry, its double-checked insertion and its commit.
\<close>

section \<open>States, transitions and the sequential machine\<close>

datatype BUState = StatePrimary | StateSecondary | StateDraining | StateBothDown | StateOther string

text \<open>The conversion \<open>string(state)\<close>.\<close>

fun BUState_string :: "BUState \<Rightarrow> string" where
  "BUState_string StatePrimary = ''PRIMARIO''"
| "BUState_string StateSecondary = ''SECUNDARIO''"
| "BUState_string StateDraining = ''DRAINING''"
| "BUState_string StateBothDown = ''BOTH_DOWN''"
| "BUState_string (StateOther s) = s"

datatype StateChangeReason =
  ReasonConfigChange | ReasonHealthEvent | ReasonDrainComplete | ReasonRecovery

record Transition =
  tBU :: string
  tFrom :: BUState
  tTo :: BUState
  tReason :: StateChangeReason

record 'cb StateMachine =
  entries :: "string \<rightharpoonup> BUState"
  callbacks :: "'cb list"

definition NewStateMachine :: "'cb StateMachine" where
  "NewStateMachine = \<lparr>entries = Map.empty, callbacks = []\<rparr>"

definition Initialize :: "'cb StateMachine \<Rightarrow> string \<Rightarrow> BUState \<Rightarrow> bool \<times> 'cb StateMachine" where
  "Initialize sm bu state =
     (if entries sm bu \<noteq> None then (False, sm)
      else (True, sm\<lparr>entries := (entries sm)(bu \<mapsto> state)\<rparr>))"

definition SM_State :: "'cb StateMachine \<Rightarrow> string \<Rightarrow> BUState" where
  "SM_State sm bu = (case entries sm bu of None \<Rightarrow> StatePrimary | Some s \<Rightarrow> s)"

fun isValidTransition :: "BUState \<Rightarrow> BUState \<Rightarrow> bool" where
  "isValidTransition StatePrimary to =
     (to = StateSecondary \<or> to = StateDraining \<or> to = StateBothDown)"
| "isValidTransition StateSecondary to =
     (to = StatePrimary \<or> to = StateDraining \<or> to = StateBothDown)"
| "isValidTransition StateDraining to =
     (to = StatePrimary \<or> to = StateSecondary \<or> to = StateBothDown)"
| "isValidTransition StateBothDown to = (to = StatePrimary \<or> to = StateSecondary)"
| "isValidTransition (StateOther s) to = False"

definition fireCallbacks :: "'cb StateMachine \<Rightarrow> Transition \<Rightarrow> ('cb \<times> Transition) list" where
  "fireCallbacks sm t = map (\<lambda>fn. (fn, t)) (callbacks sm)"

definition SM_Transition :: "'cb StateMachine \<Rightarrow> string \<Rightarrow> BUState \<Rightarrow> StateChangeReason \<Rightarrow>
    error option \<times> 'cb StateMachine \<times> ('cb \<times> Transition) list" where
  "SM_Transition sm bu to reason =
     (case entries sm bu of
        None \<Rightarrow>
          (None, sm\<lparr>entries := (entries sm)(bu \<mapsto> to)\<rparr>,
           fireCallbacks sm \<lparr>tBU = bu, tFrom = StateOther '''', tTo = to, tReason = reason\<rparr>)
      | Some from \<Rightarrow>
          if from = to then (None, sm, [])
          else if \<not> isValidTransition from to then (Some (Wrap bu (Errorf ''invalid transition'')), sm, [])
          else
            (None, sm\<lparr>entries := (entries sm)(bu \<mapsto> to)\<rparr>,
             fireCallbacks sm \<lparr>tBU = bu, tFrom = from, tTo = to, tReason = reason\<rparr>))"

definition OnStateChange :: "'cb StateMachine \<Rightarrow> 'cb \<Rightarrow> 'cb StateMachine" where
  "OnStateChange sm fn = sm\<lparr>callbacks := callbacks sm @ [fn]\<rparr>"

definition AllStates :: "'cb StateMachine \<Rightarrow> (string \<rightharpoonup> BUState)" where
  "AllStates sm = entries sm"

definition Remove :: "'cb StateMachine \<Rightarrow> string \<Rightarrow> bool \<times> 'cb StateMachine" where
  "Remove sm bu = (entries sm bu \<noteq> None, sm\<lparr>entries := (entries sm)(bu := None)\<rparr>)"

section \<open>The method at the grain of its locks\<close>

text \<open>
  Where a goroutine stands inside \<open>Transition(bu, to, reason)\<close>: before the map lookup, between
  the failed lookup and the double-checked insertion, before reading the entry, before the
  commit of a validated change from the state it read, or returned.
\<close>

datatype tpc =
    AtLookup string BUState
  | AtInsert string BUState
  | AtRead string BUState
  | AtCommit string BUState BUState
  | Returned "error option"

text \<open>A committed change: the BU, the state it left (none for a new BU) and the state it took.\<close>

type_synonym commit = "string \<times> BUState option \<times> BUState"

record sm_sys =
  smEntries :: "string \<rightharpoonup> BUState"
  smThreads :: "nat \<rightharpoonup> tpc"
  smLog :: "commit list"

text \<open>One atomic section of the method, for the goroutine \<open>i\<close> at \<open>pc\<close>.\<close>

fun sm_act :: "nat \<Rightarrow> tpc \<Rightarrow> sm_sys \<Rightarrow> sm_sys" where
  "sm_act i (AtLookup bu to) s =
     s\<lparr>smThreads := (smThreads s)(i \<mapsto> (if smEntries s bu = None then AtInsert bu to else AtRead bu to))\<rparr>"
| "sm_act i (AtInsert bu to) s =
     (if smEntries s bu = None then
        s\<lparr>smEntries := (smEntries s)(bu \<mapsto> to), smThreads := (smThreads s)(i \<mapsto> Returned None),
          smLog := smLog s @ [(bu, None, to)]\<rparr>
      else s\<lparr>smThreads := (smThreads s)(i \<mapsto> AtLookup bu to)\<rparr>)"
| "sm_act i (AtRead bu to) s =
     (case smEntries s bu of
        None \<Rightarrow> s
      | Some from \<Rightarrow>
          s\<lparr>smThreads := (smThreads s)(i \<mapsto>
             (if from = to then Returned None
              else if \<not> isValidTransition from to then Returned (Some (Wrap bu (Errorf ''invalid transition'')))
              else AtCommit bu from to))\<rparr>)"
| "sm_act i (AtCommit bu from to) s =
     (if smEntries s bu \<noteq> Some from then s\<lparr>smThreads := (smThreads s)(i \<mapsto> Returned None)\<rparr>
      else s\<lparr>smEntries := (smEntries s)(bu \<mapsto> to), smThreads := (smThreads s)(i \<mapsto> Returned None),
             smLog := smLog s @ [(bu, Some from, to)]\<rparr>)"
| "sm_act i (Returned r) s = s"

inductive sm_step :: "sm_sys \<Rightarrow> sm_sys \<Rightarrow> bool" where
  call: "smThreads s i = None \<Longrightarrow> sm_step s (s\<lparr>smThreads := (smThreads s)(i \<mapsto> AtLookup bu to)\<rparr>)"
| act: "smThreads s i = Some pc \<Longrightarrow> sm_step s (sm_act i pc s)"

inductive sm_reach :: "(string \<rightharpoonup> BUState) \<Rightarrow> sm_sys \<Rightarrow> bool" for m where
  start: "sm_reach m \<lparr>smEntries = m, smThreads = Map.empty, smLog = []\<rparr>"
| step: "sm_reach m s \<Longrightarrow> sm_step s t \<Longrightarrow> sm_reach m t"

text \<open>
  The abstract machine: commits replayed one after the other, each allowed only if it creates an
  unknown BU or follows an edge of the graph from the BU's current state.
\<close>

fun replay :: "(string \<rightharpoonup> BUState) \<Rightarrow> commit list \<Rightarrow> (string \<rightharpoonup> BUState) option" where
  "replay m [] = Some m"
| "replay m ((bu, None, to) # cs) = (if m bu = None then replay (m(bu \<mapsto> to)) cs else None)"
| "replay m ((bu, Some from, to) # cs) =
     (if m bu = Some from \<and> isValidTransition from to then replay (m(bu \<mapsto> to)) cs else None)"

section \<open>Lemmas\<close>

lemma replay_append: "replay m (xs @ ys) = Option.bind (replay m xs) (\<lambda>m'. replay m' ys)"
proof (induction xs arbitrary: m)
  case Nil
  show ?case by simp
next
  case (Cons c xs)
  obtain bu fo to where c: "c = (bu, fo, to)" by (cases c)
  show ?case by (cases fo) (simp_all add: c Cons.IH del: fun_upd_apply)
qed

definition sm_inv :: "(string \<rightharpoonup> BUState) \<Rightarrow> sm_sys \<Rightarrow> bool" where
  "sm_inv m s \<longleftrightarrow> replay m (smLog s) = Some (smEntries s)
     \<and> (\<forall>i bu from to. smThreads s i = Some (AtCommit bu from to) \<longrightarrow> isValidTransition from to)"

lemma sm_act_inv:
  assumes "sm_inv m s" and "smThreads s i = Some pc"
  shows "sm_inv m (sm_act i pc s)"
proof (cases pc)
  case (AtLookup bu to)
  then show ?thesis using assms by (auto simp: sm_inv_def)
next
  case (AtInsert bu to)
  then show ?thesis using assms by (auto simp: sm_inv_def replay_append)
next
  case (AtRead bu to)
  then show ?thesis using assms by (auto simp: sm_inv_def split: option.splits)
next
  case (AtCommit bu frm to)
  then have "isValidTransition frm to" using assms by (auto simp: sm_inv_def)
  then show ?thesis using assms AtCommit by (auto simp: sm_inv_def replay_append)
next
  case (Returned r)
  then show ?thesis using assms by simp
qed

lemma sm_step_inv: "sm_step s t \<Longrightarrow> sm_inv m s \<Longrightarrow> sm_inv m t"
proof (induction rule: sm_step.induct)
  case (call s i bu to)
  then show ?case by (auto simp: sm_inv_def)
next
  case (act s i pc)
  then show ?case by (intro sm_act_inv)
qed

lemma sm_reach_inv: "sm_reach m s \<Longrightarrow> sm_inv m s"
proof (induction rule: sm_reach.induct)
  case start
  show ?case by (simp add: sm_inv_def)
next
  case (step s t)
  then show ?case by (blast intro: sm_step_inv)
qed

lemma SM_Transition_State:
  assumes "SM_Transition sm bu to reason = (err, sm', fired)"
  shows "SM_State sm' bu' = (if bu' = bu \<and> err = None then to else SM_State sm bu')"
    and "callbacks sm' = callbacks sm"
  using assms by (auto simp: SM_Transition_def SM_State_def split: option.splits if_splits)

lemma SM_Transition_known:
  assumes "entries sm bu = Some from" and "isValidTransition from to"
  shows "SM_Transition sm bu to reason =
    (None, sm\<lparr>entries := (entries sm)(bu \<mapsto> to)\<rparr>,
     fireCallbacks sm \<lparr>tBU = bu, tFrom = from, tTo = to, tReason = reason\<rparr>)"
proof -
  have "from \<noteq> to" using assms(2) by (cases "from") auto
  then show ?thesis using assms by (simp add: SM_Transition_def)
qed

section \<open>Properties\<close>

text \<open>
  C9. Linearizability of state changes. For any number of goroutines running \<open>Transition\<close>
  concurrently, interleaved at every lock boundary, from any initial states: the changes that
  were committed, in commit order, replay on the abstract machine, which creates a BU only once
  and otherwise follows only edges of the documented graph from the BU's current state, and the
  result of the replay is the current content of the state machine.
\<close>
theorem transition_linearizable:
  assumes "sm_reach m s"
  shows "replay m (smLog s) = Some (smEntries s)"
  using sm_reach_inv [OF assms] by (simp add: sm_inv_def)

theorem transition_linearizable_witness:
  "replay [''bu'' \<mapsto> StatePrimary] [(''bu'', Some StatePrimary, StateDraining)] = Some [''bu'' \<mapsto> StateDraining]"
proof -
  let ?m = "[''bu'' \<mapsto> StatePrimary]"
  let ?s0 = "\<lparr>smEntries = ?m, smThreads = Map.empty, smLog = []\<rparr>"
  let ?s1 = "?s0\<lparr>smThreads := (smThreads ?s0)(0 \<mapsto> AtLookup ''bu'' StateDraining)\<rparr>"
  let ?s2 = "sm_act 0 (AtLookup ''bu'' StateDraining) ?s1"
  let ?s3 = "sm_act 0 (AtRead ''bu'' StateDraining) ?s2"
  let ?s4 = "sm_act 0 (AtCommit ''bu'' StatePrimary StateDraining) ?s3"
  have "sm_reach ?m ?s1" by (rule sm_reach.step [OF sm_reach.start]) (rule sm_step.call, simp)
  then have "sm_reach ?m ?s2" by (rule sm_reach.step) (rule sm_step.act, simp)
  then have "sm_reach ?m ?s3" by (rule sm_reach.step) (rule sm_step.act, simp)
  then have "sm_reach ?m ?s4" by (rule sm_reach.step) (rule sm_step.act, simp)
  from transition_linearizable [OF this] show ?thesis by simp
qed

end
