(* ===== verification/Sliding_Window.thy ===== *)
theory Sliding_Window
  imports Go_Prelude
begin

text \<open>
  The contract of the two circuit breakers: a list of event times from which a prune drops the
  times that left the window. The controller prunes with a scan for the first recent entry
  (\<^verbatim>\<open>failover/controller.go\<close>), the rebalancer by filtering in place
  (\<^verbatim>\<open>failover/rebalance.go\<close>); on the sorted lists a running clock produces both are the filter
  below, and an operation that only fires while the pruned list is shorter than \<open>n\<close> fires at most
  \<open>n\<close> times in any window.
\<close>

definition in_window :: "Duration \<Rightarrow> Time \<Rightarrow> Time \<Rightarrow> bool" where
  "in_window w a t \<longleftrightarrow> a - w < t \<and> t \<le> a"

text \<open>At most \<open>n\<close> events in any interval of length \<open>w\<close>.\<close>

definition rate_limited :: "nat \<Rightarrow> Duration \<Rightarrow> Time list \<Rightarrow> bool" where
  "rate_limited n w evs \<longleftrightarrow> (\<forall>a. length (filter (in_window w a) evs) \<le> n)"

text \<open>\<open>ts\<close> keeps every event of the history \<open>evs\<close> that is still in the window at \<open>now\<close>.\<close>

definition tracks :: "Duration \<Rightarrow> Time \<Rightarrow> Time list \<Rightarrow> Time list \<Rightarrow> bool" where
  "tracks w now evs ts \<longleftrightarrow> sorted evs \<and> (\<forall>t \<in> set evs. t \<le> now)
     \<and> (\<exists>old. evs = old @ ts \<and> (\<forall>t \<in> set old. t \<le> now - w))"

lemma rate_limited_Nil [simp]: "rate_limited n w []"
  by (simp add: rate_limited_def)

lemma tracks_Nil [simp]: "tracks w now [] ts \<longleftrightarrow> ts = []"
  by (auto simp: tracks_def)

lemma tracks_mono: "tracks w now evs ts \<Longrightarrow> now \<le> now' \<Longrightarrow> tracks w now' evs ts"
  by (force simp: tracks_def)

lemma tracks_snoc: "tracks w now evs ts \<Longrightarrow> tracks w now (evs @ [now]) (ts @ [now])"
  by (auto simp: tracks_def sorted_append)

lemma tracks_sorted: "tracks w now evs ts \<Longrightarrow> sorted ts"
  by (auto simp: tracks_def sorted_append)

locale sliding_window =
  fixes prune :: "Duration \<Rightarrow> Time \<Rightarrow> Time list \<Rightarrow> Time list"
  assumes prune_sorted: "sorted ts \<Longrightarrow> prune w now ts = filter (\<lambda>t. now - w < t) ts"
begin

lemma tracks_prune:
  assumes "tracks w now evs ts"
  shows "tracks w now evs (prune w now ts)"
proof -
  obtain old where o: "evs = old @ ts" "\<forall>t \<in> set old. t \<le> now - w"
    using assms by (auto simp: tracks_def)
  have "sorted ts" using assms by (rule tracks_sorted)
  then have "takeWhile (\<lambda>t. \<not> now - w < t) ts @ filter (\<lambda>t. now - w < t) ts = ts"
    by (induction ts) (auto simp: filter_id_conv)
  then have "evs = (old @ takeWhile (\<lambda>t. \<not> now - w < t) ts) @ prune w now ts"
    using o(1) \<open>sorted ts\<close> by (simp add: prune_sorted)
  moreover have "\<forall>t \<in> set (old @ takeWhile (\<lambda>t. \<not> now - w < t) ts). t \<le> now - w"
    using o(2) by (auto dest: set_takeWhileD)
  ultimately show ?thesis using assms unfolding tracks_def by blast
qed

lemma prune_window:
  assumes "tracks w now evs ts"
  shows "prune w now ts = filter (in_window w now) evs"
proof -
  obtain old where o: "evs = old @ ts" "\<forall>t \<in> set old. t \<le> now - w" and "\<forall>t \<in> set evs. t \<le> now"
    using assms by (auto simp: tracks_def)
  then have "filter (in_window w now) old = []"
    by (auto simp: in_window_def filter_empty_conv)
  moreover have "filter (in_window w now) ts = filter (\<lambda>t. now - w < t) ts"
    using \<open>\<forall>t \<in> set evs. t \<le> now\<close> o(1) by (auto simp: in_window_def intro!: filter_cong)
  ultimately show ?thesis using tracks_sorted [OF assms] o(1) by (simp add: prune_sorted)
qed

text \<open>Firing while the pruned list is below the limit keeps the history within the rate.\<close>

lemma rate_limited_snoc:
  assumes "tracks w now evs ts" and "rate_limited n w evs" and "length (prune w now ts) < n"
  shows "rate_limited n w (evs @ [now])"
  unfolding rate_limited_def
proof
  fix a
  show "length (filter (in_window w a) (evs @ [now])) \<le> n"
  proof (cases "in_window w a now")
    case False
    then show ?thesis using assms(2) by (simp add: rate_limited_def)
  next
    case True
    have "\<forall>t \<in> set evs. in_window w a t \<longrightarrow> in_window w now t"
      using True assms(1) by (auto simp: in_window_def tracks_def)
    then have "filter (in_window w a) evs = filter (in_window w a) (filter (in_window w now) evs)"
      by (simp, intro filter_cong) auto
    also have "length \<dots> \<le> length (filter (in_window w now) evs)" by (rule length_filter_le)
    finally show ?thesis using True assms(3) prune_window [OF assms(1)] by simp
  qed
qed

end

end
