(* ===== verification/Controller.thy ===== *)
theory Controller
  imports Config State_Machine Hysteresis Sliding_Window
begin

text \<open>
  The autonomous failover controller of \<^verbatim>\<open>internal/failover/controller.go\<close> (one per BU in
  active_passive mode) with the actions of \<^verbatim>\<open>actions.go\<close>. The state machine is shared and is
  passed separately: operations that transition it return it updated, with the callbacks fired.
  Every operation reads the clock once, as its argument \<open>now\<close>, and is one critical section of
  the controller's mutex.
\<close>

section \<open>State\<close>

datatype Action = ActionNone | ActionFailoverToSecondary | ActionFailoverToPrimary

record clusterHealth =
  khHealthy :: bool
  khConsecutiveFailures :: int
  khConsecutiveSuccesses :: int
  khLastCheckAt :: Time
  khLastCheckLatency :: Duration
  khUpSince :: Time

record Controller =
  ctBuName :: string
  ctHcCfg :: HealthCheckConfig
  ctMode :: string
  ctActive :: string
  ctPrimaryHealth :: clusterHealth
  ctSecondaryHealth :: clusterHealth
  ctLastFailoverAt :: Time
  ctFailoverTimestamps :: "Time list"
  ctCircuitBroken :: bool
  ctCircuitBrokenAt :: Time
  ctLastActiveBeforeAmbos :: string
  ctAmbosDownCount :: int
  ctFailoverCount :: int
  ctCircuitBreakCount :: int

definition zero_health :: clusterHealth where
  "zero_health = \<lparr>khHealthy = False, khConsecutiveFailures = 0, khConsecutiveSuccesses = 0,
     khLastCheckAt = zero_time, khLastCheckLatency = 0, khUpSince = zero_time\<rparr>"

definition NewController :: "string \<Rightarrow> string \<Rightarrow> string \<Rightarrow> HealthCheckConfig \<Rightarrow> Controller" where
  "NewController buName active mode hcCfg =
     \<lparr>ctBuName = buName, ctHcCfg = hcCfg, ctMode = mode, ctActive = active,
      ctPrimaryHealth = zero_health, ctSecondaryHealth = zero_health,
      ctLastFailoverAt = zero_time, ctFailoverTimestamps = [], ctCircuitBroken = False,
      ctCircuitBrokenAt = zero_time, ctLastActiveBeforeAmbos = '''',
      ctAmbosDownCount = 0, ctFailoverCount = 0, ctCircuitBreakCount = 0\<rparr>"

section \<open>Health recording\<close>

definition controllerFT :: "HealthCheckConfig \<Rightarrow> int" where
  "controllerFT hc = (if FailureThreshold hc \<le> 0 then DefaultFailureThreshold else FailureThreshold hc)"

definition controllerRT :: "HealthCheckConfig \<Rightarrow> int" where
  "controllerRT hc = (if RecoveryThreshold hc \<le> 0 then DefaultRecoveryThreshold else RecoveryThreshold hc)"

text \<open>The two branches of \<open>RecordHealthResult\<close> on the tracked cluster.\<close>

definition recordHealthy :: "int \<Rightarrow> Time \<times> Duration \<Rightarrow> clusterHealth \<Rightarrow> clusterHealth" where
  "recordHealthy rt = (\<lambda>(now, latency) ch.
     let ch = ch\<lparr>khLastCheckAt := now, khLastCheckLatency := latency, khConsecutiveFailures := 0,
                 khConsecutiveSuccesses := khConsecutiveSuccesses ch + 1\<rparr>
     in if rt \<le> khConsecutiveSuccesses ch \<and> \<not> khHealthy ch
        then ch\<lparr>khHealthy := True, khUpSince := now\<rparr> else ch)"

definition recordUnhealthy :: "int \<Rightarrow> Time \<times> Duration \<Rightarrow> clusterHealth \<Rightarrow> clusterHealth" where
  "recordUnhealthy ft = (\<lambda>(now, latency) ch.
     let ch = ch\<lparr>khLastCheckAt := now, khLastCheckLatency := latency, khConsecutiveSuccesses := 0,
                 khConsecutiveFailures := khConsecutiveFailures ch + 1\<rparr>
     in if ft \<le> khConsecutiveFailures ch \<and> khHealthy ch
        then ch\<lparr>khHealthy := False, khUpSince := zero_time\<rparr> else ch)"

definition healthFor :: "Controller \<Rightarrow> string \<Rightarrow> clusterHealth option" where
  "healthFor c cluster =
     (if cluster = ''primary'' then Some (ctPrimaryHealth c)
      else if cluster = ''secondary'' then Some (ctSecondaryHealth c) else None)"

definition setHealthFor :: "Controller \<Rightarrow> string \<Rightarrow> clusterHealth \<Rightarrow> Controller" where
  "setHealthFor c cluster ch =
     (if cluster = ''primary'' then c\<lparr>ctPrimaryHealth := ch\<rparr>
      else if cluster = ''secondary'' then c\<lparr>ctSecondaryHealth := ch\<rparr> else c)"

text \<open>An unknown cluster name makes \<open>healthFor\<close> return nil, which the method dereferences.\<close>

definition RecordHealthResult ::
  "Time \<Rightarrow> string \<Rightarrow> bool \<Rightarrow> Duration \<Rightarrow> Controller \<Rightarrow> error + Controller" where
  "RecordHealthResult now cluster healthy latency c =
     (case healthFor c cluster of
        None \<Rightarrow> Inl (Panic ''nil pointer dereference'')
      | Some ch \<Rightarrow>
          Inr (setHealthFor c cluster
            (if healthy then recordHealthy (controllerRT (ctHcCfg c)) (now, latency) ch
             else recordUnhealthy (controllerFT (ctHcCfg c)) (now, latency) ch)))"

section \<open>The sliding window and the circuit breaker\<close>

fun pruneFrom :: "Time \<Rightarrow> Time list \<Rightarrow> Time list" where
  "pruneFrom cutoff [] = []"
| "pruneFrom cutoff (ts # rest) = (if cutoff < ts then ts # rest else pruneFrom cutoff rest)"

definition pruneFailoverTimestamps :: "Duration \<Rightarrow> Time \<Rightarrow> Time list \<Rightarrow> Time list" where
  "pruneFailoverTimestamps window now ts = pruneFrom (now - window) ts"

definition canFailoverLocked :: "Time \<Rightarrow> Controller \<Rightarrow> bool \<times> Controller" where
  "canFailoverLocked now c =
     (let cooldown = MinTimeBetweenFailovers (ctHcCfg c);
          windowDur = CircuitBreakerWindow (ctHcCfg c);
          maxFO = CircuitBreakerMaxFailovers (ctHcCfg c)
      in if 0 < cooldown \<and> Since now (ctLastFailoverAt c) < cooldown then (False, c)
         else if 0 < maxFO \<and> 0 < windowDur then
           let c = c\<lparr>ctFailoverTimestamps := pruneFailoverTimestamps windowDur now (ctFailoverTimestamps c)\<rparr>
           in (\<not> maxFO \<le> int (length (ctFailoverTimestamps c)), c)
         else (True, c))"

definition FailoverWindowCount :: "Time \<Rightarrow> Controller \<Rightarrow> nat \<times> Controller" where
  "FailoverWindowCount now c =
     (let windowDur = CircuitBreakerWindow (ctHcCfg c);
          c = (if 0 < windowDur
               then c\<lparr>ctFailoverTimestamps := pruneFailoverTimestamps windowDur now (ctFailoverTimestamps c)\<rparr>
               else c)
      in (length (ctFailoverTimestamps c), c))"

definition ResetCircuitBreaker :: "Controller \<Rightarrow> Controller" where
  "ResetCircuitBreaker c =
     c\<lparr>ctCircuitBroken := False, ctCircuitBrokenAt := zero_time, ctFailoverTimestamps := []\<rparr>"

definition triggerFailoverLocked :: "Time \<Rightarrow> BUState \<Rightarrow> BUState \<Rightarrow> Controller \<Rightarrow> 'cb StateMachine \<Rightarrow>
    Action \<times> Controller \<times> 'cb StateMachine \<times> ('cb \<times> Transition) list" where
  "triggerFailoverLocked now frm to c sm =
     (if ctCircuitBroken c then (ActionNone, c, sm, [])
      else
        let c = c\<lparr>ctLastFailoverAt := now, ctFailoverTimestamps := ctFailoverTimestamps c @ [now],
                  ctFailoverCount := ctFailoverCount c + 1\<rparr>;
            (_, sm, fired) = SM_Transition sm (ctBuName c) StateDraining ReasonHealthEvent;
            maxFO = CircuitBreakerMaxFailovers (ctHcCfg c);
            windowDur = CircuitBreakerWindow (ctHcCfg c);
            c = (if 0 < maxFO \<and> 0 < windowDur then
                   let c = c\<lparr>ctFailoverTimestamps :=
                               pruneFailoverTimestamps windowDur now (ctFailoverTimestamps c)\<rparr>
                   in if maxFO \<le> int (length (ctFailoverTimestamps c))
                      then c\<lparr>ctCircuitBroken := True, ctCircuitBrokenAt := now,
                             ctCircuitBreakCount := ctCircuitBreakCount c + 1\<rparr>
                      else c
                 else c)
        in (if frm = StateSecondary then ActionFailoverToPrimary else ActionFailoverToSecondary,
            c, sm, fired))"

section \<open>BOTH\_DOWN\<close>

definition enterBothDownLocked :: "string \<Rightarrow> Controller \<Rightarrow> 'cb StateMachine \<Rightarrow>
    Controller \<times> 'cb StateMachine \<times> ('cb \<times> Transition) list" where
  "enterBothDownLocked frm c sm =
     (let (_, sm, fired) = SM_Transition sm (ctBuName c) StateBothDown ReasonHealthEvent;
          activeBefore =
            (if frm = BUState_string StateDraining then
               (if ctActive c = ActivePrimary then BUState_string StateSecondary
                else BUState_string StatePrimary)
             else if frm \<noteq> '''' then frm
             else BUState_string StatePrimary)
      in (c\<lparr>ctAmbosDownCount := ctAmbosDownCount c + 1, ctLastActiveBeforeAmbos := activeBefore\<rparr>,
          sm, fired))"

definition BothDownActiveCluster :: "Controller \<Rightarrow> string" where
  "BothDownActiveCluster c =
     (if ctLastActiveBeforeAmbos c = '''' then ctActive c else ctLastActiveBeforeAmbos c)"

definition IsCircuitBroken :: "Controller \<Rightarrow> bool" where
  "IsCircuitBroken c = ctCircuitBroken c"

definition BothDownCount :: "Controller \<Rightarrow> int" where
  "BothDownCount c = ctAmbosDownCount c"

definition FailoverCount :: "Controller \<Rightarrow> int" where
  "FailoverCount c = ctFailoverCount c"

definition PrimaryHealthy :: "Controller \<Rightarrow> bool" where
  "PrimaryHealthy c = khHealthy (ctPrimaryHealth c)"

definition SecondaryHealthy :: "Controller \<Rightarrow> bool" where
  "SecondaryHealthy c = khHealthy (ctSecondaryHealth c)"

section \<open>The decision algorithm\<close>

definition evaluateLocked :: "Time \<Rightarrow> Controller \<Rightarrow> 'cb StateMachine \<Rightarrow>
    Action \<times> Controller \<times> 'cb StateMachine \<times> ('cb \<times> Transition) list" where
  "evaluateLocked now c sm =
     (let primHealthy = khHealthy (ctPrimaryHealth c);
          secHealthy = khHealthy (ctSecondaryHealth c);
          current = SM_State sm (ctBuName c)
      in
      if ctCircuitBroken c then (ActionNone, c, sm, [])
      else if \<not> primHealthy \<and> \<not> secHealthy then
        (if current \<noteq> StateBothDown
         then let (c, sm, fired) = enterBothDownLocked (BUState_string current) c sm
              in (ActionNone, c, sm, fired)
         else (ActionNone, c, sm, []))
      else if current = StateBothDown then
        (let (_, sm, fired) =
           (if primHealthy then SM_Transition sm (ctBuName c) StatePrimary ReasonRecovery
            else SM_Transition sm (ctBuName c) StateSecondary ReasonRecovery)
         in (ActionNone, c, sm, fired))
      else if ctMode c = ModeActivePassive then
        (if current = StatePrimary \<and> \<not> primHealthy \<and> secHealthy then
           (let (ok, c) = canFailoverLocked now c
            in if ok then
                 (if RequireTargetHealthy (ctHcCfg c) \<and> \<not> secHealthy then (ActionNone, c, sm, [])
                  else triggerFailoverLocked now StatePrimary StateSecondary c sm)
               else (ActionNone, c, sm, []))
         else if current = StateSecondary \<and> primHealthy \<and> AutoFailback (ctHcCfg c) then
           (let (ok, c) = canFailoverLocked now c
            in if ok then triggerFailoverLocked now StateSecondary StatePrimary c sm
               else (ActionNone, c, sm, []))
         else if current = StateDraining \<and> primHealthy \<and> \<not> secHealthy then
           (let (_, sm, fired) = SM_Transition sm (ctBuName c) StatePrimary ReasonRecovery
            in (ActionNone, c, sm, fired))
         else if current = StateDraining \<and> \<not> primHealthy \<and> secHealthy then
           (let (_, sm, fired) = SM_Transition sm (ctBuName c) StateSecondary ReasonRecovery
            in (ActionNone, c, sm, fired))
         else (ActionNone, c, sm, []))
      else (ActionNone, c, sm, []))"

definition Evaluate :: "Time \<Rightarrow> Controller \<Rightarrow> 'cb StateMachine \<Rightarrow>
    Action \<times> Controller \<times> 'cb StateMachine \<times> ('cb \<times> Transition) list" where
  "Evaluate now c sm = evaluateLocked now c sm"

section \<open>Lemmas\<close>

interpretation kh: hysteresis khHealthy khConsecutiveFailures khConsecutiveSuccesses
  "recordHealthy rt" "recordUnhealthy ft" ft rt for ft rt :: int
  by unfold_locales (auto simp: recordHealthy_def recordUnhealthy_def Let_def split: prod.splits)

lemma pruneFrom_sorted: "sorted ts \<Longrightarrow> pruneFrom cutoff ts = filter (\<lambda>t. cutoff < t) ts"
  by (induction ts) (auto intro!: filter_True [symmetric])

interpretation fw: sliding_window pruneFailoverTimestamps
  by unfold_locales (simp add: pruneFailoverTimestamps_def pruneFrom_sorted)

lemma pruneFailoverTimestamps_Nil [simp]: "pruneFailoverTimestamps w now [] = []"
  by (simp add: pruneFailoverTimestamps_def)

text \<open>The conditions under which a failover may start, read off the state before the call.\<close>

definition may_fail_over :: "Time \<Rightarrow> Controller \<Rightarrow> bool" where
  "may_fail_over now c \<longleftrightarrow>
     (0 < MinTimeBetweenFailovers (ctHcCfg c) \<longrightarrow> MinTimeBetweenFailovers (ctHcCfg c) \<le> Since now (ctLastFailoverAt c))
     \<and> (0 < CircuitBreakerMaxFailovers (ctHcCfg c) \<and> 0 < CircuitBreakerWindow (ctHcCfg c) \<longrightarrow>
          int (length (pruneFailoverTimestamps (CircuitBreakerWindow (ctHcCfg c)) now (ctFailoverTimestamps c)))
            < CircuitBreakerMaxFailovers (ctHcCfg c))"

lemma fst_canFailoverLocked [simp]: "fst (canFailoverLocked now c) = may_fail_over now c"
  by (auto simp: canFailoverLocked_def may_fail_over_def Let_def)

definition wants_failover :: "Controller \<Rightarrow> BUState \<Rightarrow> bool" where
  "wants_failover c st \<longleftrightarrow> st = StatePrimary \<and> \<not> PrimaryHealthy c \<and> SecondaryHealthy c"

definition wants_failback :: "Controller \<Rightarrow> BUState \<Rightarrow> bool" where
  "wants_failback c st \<longleftrightarrow> st = StateSecondary \<and> PrimaryHealthy c \<and> AutoFailback (ctHcCfg c)"

lemmas wants_defs = wants_failover_def wants_failback_def PrimaryHealthy_def SecondaryHealthy_def

lemma evaluate_fires:
  assumes "\<not> ctCircuitBroken c" and "ctMode c = ModeActivePassive" and "may_fail_over now c"
    and "wants_failover c st \<or> wants_failback c st" and "st = SM_State sm (ctBuName c)"
  shows "evaluateLocked now c sm
    = triggerFailoverLocked now st (if st = StatePrimary then StateSecondary else StatePrimary)
        (snd (canFailoverLocked now c)) sm"
proof -
  obtain c1 where c1: "canFailoverLocked now c = (True, c1)"
    using assms(3) by (metis fst_canFailoverLocked prod.collapse)
  show ?thesis using assms c1 by (auto simp: evaluateLocked_def Let_def wants_defs)
qed

lemma evaluate_holds:
  assumes "evaluateLocked now c sm = (a, c', sm', fired)"
    and "ctCircuitBroken c \<or> ctMode c \<noteq> ModeActivePassive \<or> \<not> may_fail_over now c
         \<or> (\<not> wants_failover c (SM_State sm (ctBuName c)) \<and> \<not> wants_failback c (SM_State sm (ctBuName c)))"
  shows "a = ActionNone"
proof -
  obtain ok c1 where c1: "canFailoverLocked now c = (ok, c1)" by fastforce
  then have "ok = may_fail_over now c" using fst_canFailoverLocked [of now c] by simp
  with assms c1 show ?thesis
    by (auto simp: evaluateLocked_def Let_def wants_defs enterBothDownLocked_def split: if_splits prod.splits)
qed

lemma trigger_state:
  assumes "triggerFailoverLocked now st to c sm = (a, c', sm', fired)" and "\<not> ctCircuitBroken c"
  shows "a = (if st = StateSecondary then ActionFailoverToPrimary else ActionFailoverToSecondary)"
    and "ctLastFailoverAt c' = now" and "ctFailoverCount c' = ctFailoverCount c + 1"
    and "ctHcCfg c' = ctHcCfg c"
    and "(let ts = ctFailoverTimestamps c @ [now]; n = CircuitBreakerMaxFailovers (ctHcCfg c);
              w = CircuitBreakerWindow (ctHcCfg c)
          in if 0 < n \<and> 0 < w
             then ctFailoverTimestamps c' = pruneFailoverTimestamps w now ts
                  \<and> (ctCircuitBroken c' \<longleftrightarrow> n \<le> int (length (pruneFailoverTimestamps w now ts)))
             else ctFailoverTimestamps c' = ts \<and> \<not> ctCircuitBroken c')"
    and "(sm', fired) = snd (SM_Transition sm (ctBuName c) StateDraining ReasonHealthEvent)"
  using assms by (auto simp: triggerFailoverLocked_def Let_def split: if_splits prod.splits)

text \<open>The fields the breaker reads, and how an evaluation without failover may change them.\<close>

definition breaker_view :: "Controller \<Rightarrow> HealthCheckConfig \<times> Time \<times> int \<times> bool" where
  "breaker_view c = (ctHcCfg c, ctLastFailoverAt c, ctFailoverCount c, ctCircuitBroken c)"

lemma setHealthFor_view [simp]:
  "breaker_view (setHealthFor c cluster ch) = breaker_view c"
  "ctFailoverTimestamps (setHealthFor c cluster ch) = ctFailoverTimestamps c"
  by (simp_all add: setHealthFor_def breaker_view_def)

lemma canFailoverLocked_view:
  "breaker_view (snd (canFailoverLocked now c)) = breaker_view c
   \<and> ctFailoverTimestamps (snd (canFailoverLocked now c)) \<in> {ctFailoverTimestamps c,
         pruneFailoverTimestamps (CircuitBreakerWindow (ctHcCfg c)) now (ctFailoverTimestamps c)}"
  by (auto simp: canFailoverLocked_def breaker_view_def Let_def)

lemma evaluate_none_view:
  assumes "evaluateLocked now c sm = (ActionNone, c', sm', fired)"
  shows "breaker_view c' = breaker_view c
    \<and> ctFailoverTimestamps c' \<in> {ctFailoverTimestamps c,
         pruneFailoverTimestamps (CircuitBreakerWindow (ctHcCfg c)) now (ctFailoverTimestamps c)}"
proof -
  obtain ok c1 where c1: "canFailoverLocked now c = (ok, c1)" by fastforce
  note canFailoverLocked_view [of now c, unfolded c1 snd_conv]
  moreover have "c' \<in> {c, c1} \<or> (\<exists>n s. c' = c\<lparr>ctAmbosDownCount := n, ctLastActiveBeforeAmbos := s\<rparr>)"
    using assms c1 by (auto simp: evaluateLocked_def Let_def enterBothDownLocked_def
        triggerFailoverLocked_def split: if_splits prod.splits)
  ultimately show ?thesis by (auto simp: breaker_view_def)
qed

section \<open>Runs of a controller\<close>

text \<open>
  What can happen to a controller: a recorded health result, an evaluation against whatever the
  shared state machine holds at that moment, a read of the window count. A run also keeps the
  times of the failovers the evaluations started.
\<close>

datatype 'cb ctl_op =
    OpRecord string bool Duration
  | OpEvaluate "'cb StateMachine"
  | OpWindowCount

fun ctl_exec :: "Time \<times> 'cb ctl_op \<Rightarrow> Controller \<times> Time list \<Rightarrow> Controller \<times> Time list" where
  "ctl_exec (now, OpRecord cluster ok latency) (c, log) =
     (case RecordHealthResult now cluster ok latency c of Inl _ \<Rightarrow> (c, log) | Inr c' \<Rightarrow> (c', log))"
| "ctl_exec (now, OpEvaluate sm) (c, log) =
     (case Evaluate now c sm of (a, c', _) \<Rightarrow> (c', if a = ActionNone then log else log @ [now]))"
| "ctl_exec (now, OpWindowCount) (c, log) = (snd (FailoverWindowCount now c), log)"

definition ctl_run :: "(Time \<times> 'cb ctl_op) list \<Rightarrow> Controller \<Rightarrow> Controller \<times> Time list" where
  "ctl_run ops c = fold ctl_exec ops (c, [])"

definition breaker_inv :: "HealthCheckConfig \<Rightarrow> Time \<Rightarrow> Controller \<times> Time list \<Rightarrow> bool" where
  "breaker_inv hc now = (\<lambda>(c, log).
     ctHcCfg c = hc \<and> tracks (CircuitBreakerWindow hc) now log (ctFailoverTimestamps c)
     \<and> rate_limited (nat (CircuitBreakerMaxFailovers hc)) (CircuitBreakerWindow hc) log
     \<and> successively (\<lambda>s t. s + MinTimeBetweenFailovers hc \<le> t) log
     \<and> (log \<noteq> [] \<longrightarrow> last log = ctLastFailoverAt c) \<and> ctFailoverCount c = int (length log)
     \<and> (ctCircuitBroken c \<longleftrightarrow> (\<exists>a \<in> set log. CircuitBreakerMaxFailovers hc
           \<le> int (length (filter (in_window (CircuitBreakerWindow hc) a) log)))))"

lemma breaker_inv_new: "0 < CircuitBreakerMaxFailovers hc \<Longrightarrow> breaker_inv hc now (NewController bu active mode hc, [])"
  by (simp add: breaker_inv_def NewController_def)

lemma breaker_inv_quiet:
  assumes "breaker_inv hc now (c, log)" and "breaker_view c' = breaker_view c"
    and "ctFailoverTimestamps c' \<in> {ctFailoverTimestamps c,
         pruneFailoverTimestamps (CircuitBreakerWindow (ctHcCfg c)) now (ctFailoverTimestamps c)}"
  shows "breaker_inv hc now (c', log)"
  using assms by (auto simp: breaker_inv_def breaker_view_def fw.tracks_prune)

lemma breaker_inv_later:
  "breaker_inv hc now cl \<Longrightarrow> now \<le> now' \<Longrightarrow> breaker_inv hc now' cl"
  by (auto simp: breaker_inv_def intro: tracks_mono)

lemma window_of_past:
  assumes "\<forall>t \<in> set log. t < now" and "a \<in> set log"
  shows "filter (in_window w a) (log @ [now]) = filter (in_window w a) log"
  using assms by (auto simp: in_window_def)

lemma breaker_inv_trigger:
  assumes inv: "breaker_inv hc now (c, log)" and pos: "0 < CircuitBreakerMaxFailovers hc" "0 < CircuitBreakerWindow hc"
      "0 < MinTimeBetweenFailovers hc" "MinTimeBetweenFailovers hc \<le> maxDuration"
    and may: "may_fail_over now c" and ok: "\<not> ctCircuitBroken c"
    and c1: "c1 = snd (canFailoverLocked now c)"
    and tr: "triggerFailoverLocked now st to c1 sm = (a, c', sm', fired)"
  shows "breaker_inv hc now (c', log @ [now])"
proof -
  let ?n = "CircuitBreakerMaxFailovers hc" and ?w = "CircuitBreakerWindow hc" and ?cd = "MinTimeBetweenFailovers hc"
  let ?ts = "ctFailoverTimestamps c1"
  note c1' = canFailoverLocked_view [of now c, folded c1]
  then have inv1: "breaker_inv hc now (c1, log)" using inv breaker_inv_quiet by blast
  then have tk: "tracks ?w now log ?ts" and hc: "ctHcCfg c1 = hc" by (simp_all add: breaker_inv_def)
  have ok1: "\<not> ctCircuitBroken c1" using c1' ok by (simp add: breaker_view_def)
  note tr' = trigger_state [OF tr ok1]
  have "tracks ?w now log (ctFailoverTimestamps c)" "ctHcCfg c = hc" using inv by (simp_all add: breaker_inv_def)
  then have few: "int (length (pruneFailoverTimestamps ?w now (ctFailoverTimestamps c))) < ?n"
    using may pos by (simp add: may_fail_over_def)
  have rl: "rate_limited (nat ?n) ?w (log @ [now])"
    using fw.rate_limited_snoc [OF \<open>tracks ?w now log (ctFailoverTimestamps c)\<close>] inv few
    by (simp add: breaker_inv_def)
  have last: "log \<noteq> [] \<Longrightarrow> last log + ?cd \<le> now"
    using may inv pos Since_le_iff [of ?cd now "ctLastFailoverAt c"]
    by (auto simp: breaker_inv_def may_fail_over_def minDuration_def)
  have sp: "successively (\<lambda>s t. s + ?cd \<le> t) (log @ [now])"
    using inv last by (cases "log = []") (simp_all add: breaker_inv_def successively_append_iff)
  have lt: "\<forall>t \<in> set log. t < now"
  proof
    fix t assume "t \<in> set log"
    then have "t \<le> last log" using inv
      by (cases log rule: rev_cases) (auto simp: breaker_inv_def tracks_def sorted_append)
    moreover have "last log + ?cd \<le> now" using last \<open>t \<in> set log\<close> by (cases log) auto
    ultimately show "t < now" using pos(3) by simp
  qed
  have snoc: "tracks ?w now (log @ [now]) (?ts @ [now])" using tk by (rule tracks_snoc)
  have "ctFailoverTimestamps c' = pruneFailoverTimestamps ?w now (?ts @ [now])"
    and broken: "ctCircuitBroken c' \<longleftrightarrow> ?n \<le> int (length (filter (in_window ?w now) (log @ [now])))"
    using tr'(5) pos hc fw.prune_window [OF snoc] by (simp_all add: Let_def)
  moreover have "(\<exists>a \<in> set (log @ [now]). ?n \<le> int (length (filter (in_window ?w a) (log @ [now]))))
      \<longleftrightarrow> ctCircuitBroken c'"
    using inv1 ok1 window_of_past [OF lt, of _ ?w] broken by (auto simp: breaker_inv_def)
  ultimately show ?thesis
    using rl sp inv1 tr'(2,3,4) hc fw.tracks_prune [OF snoc] by (simp add: breaker_inv_def)
qed

lemma ctl_exec_inv:
  assumes inv: "breaker_inv hc now (c, log)" and pos: "0 < CircuitBreakerMaxFailovers hc" "0 < CircuitBreakerWindow hc"
      "0 < MinTimeBetweenFailovers hc" "MinTimeBetweenFailovers hc \<le> maxDuration"
  shows "breaker_inv hc now (ctl_exec (now, op) (c, log))"
proof (cases op)
  case (OpRecord cluster ok latency)
  have "breaker_inv hc now (c', log)" if "RecordHealthResult now cluster ok latency c = Inr c'" for c'
    using that by (intro breaker_inv_quiet [OF inv]) (auto simp: RecordHealthResult_def split: option.splits)
  then show ?thesis using OpRecord inv by (simp split: sum.splits)
next
  case (OpEvaluate sm)
  obtain a c' sm' fired where e: "evaluateLocked now c sm = (a, c', sm', fired)" by (metis prod_cases4)
  let ?st = "SM_State sm (ctBuName c)"
  show ?thesis
  proof (cases "a = ActionNone")
    case True
    then show ?thesis using e OpEvaluate breaker_inv_quiet [OF inv] evaluate_none_view [of now c sm c' sm' fired]
      by (simp add: Evaluate_def)
  next
    case False
    then have may: "may_fail_over now c" "\<not> ctCircuitBroken c" "ctMode c = ModeActivePassive"
      "wants_failover c ?st \<or> wants_failback c ?st"
      using evaluate_holds [OF e] by blast+
    note breaker_inv_trigger [OF inv pos may(1,2) refl
        trans [OF evaluate_fires [OF may(2,3,1,4) refl, symmetric] e]]
    then show ?thesis using e OpEvaluate False by (simp add: Evaluate_def)
  qed
next
  case OpWindowCount
  then show ?thesis
    using breaker_inv_quiet [OF inv, of "snd (FailoverWindowCount now c)"]
    by (auto simp: FailoverWindowCount_def Let_def breaker_view_def)
qed

lemma ctl_run_inv:
  assumes "sorted (map fst ops)" and "\<forall>t \<in> fst ` set ops. t \<le> now"
    and pos: "0 < CircuitBreakerMaxFailovers hc" "0 < CircuitBreakerWindow hc"
      "0 < MinTimeBetweenFailovers hc" "MinTimeBetweenFailovers hc \<le> maxDuration"
  shows "breaker_inv hc now (ctl_run ops (NewController bu active mode hc))"
  using assms(1,2)
proof (induction ops arbitrary: now rule: rev_induct)
  case Nil
  then show ?case using pos by (simp add: ctl_run_def breaker_inv_new)
next
  case (snoc x ops)
  obtain t op where x: "x = (t, op)" by (cases x)
  obtain c log where r: "ctl_run ops (NewController bu active mode hc) = (c, log)" by fastforce
  have "breaker_inv hc t (c, log)"
    using snoc.IH [of t] snoc.prems(1) r by (force simp: x sorted_append)
  then have "breaker_inv hc t (ctl_exec (t, op) (c, log))" by (rule ctl_exec_inv [OF _ pos])
  then show ?case using r snoc.prems(2) breaker_inv_later by (auto simp: x ctl_run_def)
qed

section \<open>Properties\<close>

text \<open>
  C6. Anti-flap. For any sequence of health results, evaluations and window reads with a
  non-decreasing clock, against a state machine that others may change arbitrarily in between,
  a controller with positive \<open>circuit_breaker_max_failovers\<close>, \<open>circuit_breaker_window\<close> and
  \<open>min_time_between_failovers\<close> never starts more than the allowed number of failovers in any
  window of that length, consecutive failovers are at least the cooldown apart, its failover
  counter is exact, and its circuit breaker is open exactly when some window reached the limit.
\<close>
theorem failover_rate_limited:
  assumes "sorted (map fst ops)"
    and "0 < CircuitBreakerMaxFailovers hc" and "0 < CircuitBreakerWindow hc"
    and "0 < MinTimeBetweenFailovers hc" and "MinTimeBetweenFailovers hc \<le> maxDuration"
    and "ctl_run ops (NewController bu active mode hc) = (c, log)"
  shows "(\<forall>a. int (length (filter (\<lambda>t. a - CircuitBreakerWindow hc < t \<and> t \<le> a) log)) \<le> CircuitBreakerMaxFailovers hc)
    \<and> successively (\<lambda>s t. s + MinTimeBetweenFailovers hc \<le> t) log
    \<and> FailoverCount c = int (length log)
    \<and> (IsCircuitBroken c \<longleftrightarrow> (\<exists>a \<in> set log.
         int (length (filter (\<lambda>t. a - CircuitBreakerWindow hc < t \<and> t \<le> a) log)) = CircuitBreakerMaxFailovers hc))"
proof -
  let ?m = "Max (set (0 # map fst ops))"
  have "\<forall>t \<in> fst ` set ops. t \<le> ?m" by simp
  from ctl_run_inv [OF assms(1) this assms(2-5), of bu active mode]
  have inv: "breaker_inv hc ?m (c, log)" by (simp add: assms(6))
  have w: "in_window w a = (\<lambda>t. a - w < t \<and> t \<le> a)" for w a by (simp add: in_window_def fun_eq_iff)
  have le: "\<forall>a. int (length (filter (in_window (CircuitBreakerWindow hc) a) log)) \<le> CircuitBreakerMaxFailovers hc"
    using inv assms(2) by (auto simp: breaker_inv_def rate_limited_def le_nat_iff)
  then have "(\<exists>a \<in> set log. CircuitBreakerMaxFailovers hc \<le> int (length (filter (in_window (CircuitBreakerWindow hc) a) log)))
      \<longleftrightarrow> (\<exists>a \<in> set log. int (length (filter (in_window (CircuitBreakerWindow hc) a) log)) = CircuitBreakerMaxFailovers hc)"
    by (metis order_antisym order_refl)
  then show ?thesis
    using inv le by (simp add: breaker_inv_def FailoverCount_def IsCircuitBroken_def w)
qed

definition sample_ops :: "(Time \<times> nat ctl_op) list" where
  "sample_ops = [(1000 * second, OpRecord ''secondary'' True 1), (1001 * second, OpRecord ''secondary'' True 1),
     (1002 * second, OpEvaluate (snd (Initialize NewStateMachine ''finance'' StatePrimary)))]"

lemma sample_run:
  "map_prod FailoverCount id (ctl_run sample_ops (NewController ''finance'' ''primary'' ''active_passive'' sample_hc))
     = (1, [1002 * second])"
  by code_simp

theorem failover_rate_limited_witness:
  "\<exists>c. ctl_run sample_ops (NewController ''finance'' ''primary'' ''active_passive'' sample_hc) = (c, [1002 * second])
     \<and> FailoverCount c = 1 \<and> \<not> IsCircuitBroken c"
proof -
  obtain c where c: "ctl_run sample_ops (NewController ''finance'' ''primary'' ''active_passive'' sample_hc) = (c, [1002 * second])"
    using sample_run by (cases "ctl_run sample_ops (NewController ''finance'' ''primary'' ''active_passive'' sample_hc)") simp
  have "FailoverCount c = 1 \<and> \<not> IsCircuitBroken c"
    using failover_rate_limited [OF _ _ _ _ _ c]
    by (simp add: sample_ops_def sample_hc_def second_def maxDuration_def)
  with c show ?thesis by blast
qed

text \<open>
  C5. When a failover starts. With the BU in state \<open>st\<close>, an evaluation fails over to the
  secondary exactly when the breaker is closed, the mode is active_passive, the BU is on the
  primary, the primary is unhealthy and the secondary healthy, and the cooldown and window
  limits allow it; it fails back exactly when the BU is on the secondary, the primary is
  healthy, auto-failback is on and the same limits allow it. Either way the BU is then in
  DRAINING, the callbacks see the state it left, and no other BU is touched.
\<close>
theorem failover_decision:
  assumes "Evaluate now c sm = (a, c', sm', fired)" and "entries sm (ctBuName c) = Some st"
  shows "(a = ActionFailoverToSecondary \<longleftrightarrow>
      \<not> IsCircuitBroken c \<and> ctMode c = ModeActivePassive \<and> may_fail_over now c
      \<and> st = StatePrimary \<and> \<not> PrimaryHealthy c \<and> SecondaryHealthy c)
    \<and> (a = ActionFailoverToPrimary \<longleftrightarrow>
      \<not> IsCircuitBroken c \<and> ctMode c = ModeActivePassive \<and> may_fail_over now c
      \<and> st = StateSecondary \<and> PrimaryHealthy c \<and> AutoFailback (ctHcCfg c))
    \<and> (a \<noteq> ActionNone \<longrightarrow> entries sm' = (entries sm)(ctBuName c \<mapsto> StateDraining)
         \<and> fired = fireCallbacks sm \<lparr>tBU = ctBuName c, tFrom = st, tTo = StateDraining, tReason = ReasonHealthEvent\<rparr>)"
proof -
  have st: "SM_State sm (ctBuName c) = st" using assms(2) by (simp add: SM_State_def)
  have e: "evaluateLocked now c sm = (a, c', sm', fired)" using assms(1) by (simp add: Evaluate_def)
  let ?go = "\<not> ctCircuitBroken c \<and> ctMode c = ModeActivePassive \<and> may_fail_over now c
    \<and> (wants_failover c st \<or> wants_failback c st)"
  show ?thesis
  proof (cases ?go)
    case False
    then have "a = ActionNone" using evaluate_holds [OF e, unfolded st] by blast
    then show ?thesis using False by (auto simp: IsCircuitBroken_def wants_failover_def wants_failback_def)
  next
    case True
    let ?c1 = "snd (canFailoverLocked now c)"
    have tr: "triggerFailoverLocked now st (if st = StatePrimary then StateSecondary else StatePrimary) ?c1 sm
        = (a, c', sm', fired)"
      using evaluate_fires [OF _ _ _ _ st [symmetric], of now] True e by metis
    have c1: "\<not> ctCircuitBroken ?c1" "ctBuName ?c1 = ctBuName c"
      using True by (simp_all add: canFailoverLocked_def Let_def)
    have "isValidTransition st StateDraining" using True by (auto simp: wants_defs)
    note t = SM_Transition_known [OF assms(2) this, of ReasonHealthEvent]
    have "a = (if st = StateSecondary then ActionFailoverToPrimary else ActionFailoverToSecondary)"
      using trigger_state(1) [OF tr c1(1)] .
    moreover have "(sm', fired) = snd (SM_Transition sm (ctBuName c) StateDraining ReasonHealthEvent)"
      using trigger_state(6) [OF tr c1(1)] c1(2) by simp
    ultimately show ?thesis using True unfolding t
      by (simp add: IsCircuitBroken_def wants_failover_def wants_failback_def) blast
  qed
qed

theorem failover_decision_witness:
  "fst (Evaluate (1000 * second)
      ((NewController ''finance'' ''primary'' ''active_passive'' sample_hc)\<lparr>ctSecondaryHealth := zero_health\<lparr>khHealthy := True\<rparr>\<rparr>)
      \<lparr>entries = [''finance'' \<mapsto> StatePrimary], callbacks = [0 :: nat]\<rparr>) = ActionFailoverToSecondary"
proof -
  let ?c = "(NewController ''finance'' ''primary'' ''active_passive'' sample_hc)\<lparr>ctSecondaryHealth := zero_health\<lparr>khHealthy := True\<rparr>\<rparr>"
  let ?sm = "\<lparr>entries = [''finance'' \<mapsto> StatePrimary], callbacks = [0 :: nat]\<rparr>"
  obtain a c' sm' fired where e: "Evaluate (1000 * second) ?c ?sm = (a, c', sm', fired)" by (metis prod_cases4)
  have "a = ActionFailoverToSecondary"
    using failover_decision [OF e, of StatePrimary]
    by (simp add: NewController_def may_fail_over_def sample_hc_def Since_def second_def maxDuration_def minDuration_def
        zero_time_def zero_health_def IsCircuitBroken_def PrimaryHealthy_def SecondaryHealthy_def ModeActivePassive_def)
  then show ?thesis by (simp add: e)
qed

fun evaluate_all :: "Time list \<Rightarrow> Controller \<Rightarrow> 'cb StateMachine \<Rightarrow>
    Controller \<times> 'cb StateMachine \<times> ('cb \<times> Transition) list" where
  "evaluate_all [] c sm = (c, sm, [])"
| "evaluate_all (now # ts) c sm =
     (let (_, c, sm, fired) = Evaluate now c sm; (c, sm, more) = evaluate_all ts c sm in (c, sm, fired @ more))"

definition remembered :: "string \<Rightarrow> BUState \<Rightarrow> string" where
  "remembered active st =
     (if st = StateDraining then (if active = ActivePrimary then ''SECUNDARIO'' else ''PRIMARIO'')
      else BUState_string st)"

lemma both_down_stays:
  assumes "\<not> PrimaryHealthy c" "\<not> SecondaryHealthy c" "SM_State sm (ctBuName c) = StateBothDown"
  shows "evaluate_all ts c sm = (c, sm, [])"
  by (induction ts) (use assms in \<open>simp_all add: Evaluate_def evaluateLocked_def PrimaryHealthy_def SecondaryHealthy_def\<close>)

lemma both_down_enters:
  assumes "\<not> PrimaryHealthy c" "\<not> SecondaryHealthy c" "\<not> IsCircuitBroken c"
    and "entries sm (ctBuName c) = Some st" and "st \<in> {StatePrimary, StateSecondary, StateDraining}"
  shows "Evaluate now c sm =
    (ActionNone, c\<lparr>ctAmbosDownCount := ctAmbosDownCount c + 1, ctLastActiveBeforeAmbos := remembered (ctActive c) st\<rparr>,
     sm\<lparr>entries := (entries sm)(ctBuName c \<mapsto> StateBothDown)\<rparr>,
     fireCallbacks sm \<lparr>tBU = ctBuName c, tFrom = st, tTo = StateBothDown, tReason = ReasonHealthEvent\<rparr>)"
proof -
  have "isValidTransition st StateBothDown" using assms(5) by auto
  note t = SM_Transition_known [OF assms(4) this, of ReasonHealthEvent]
  have ne: "BUState_string st \<noteq> ''''" and bd: "st \<noteq> StateBothDown"
    and dr: "BUState_string st = ''DRAINING'' \<longleftrightarrow> st = StateDraining"
    using assms(5) by auto
  have s: "SM_State sm (ctBuName c) = st" using assms(4) by (simp add: SM_State_def)
  show ?thesis
    unfolding Evaluate_def evaluateLocked_def enterBothDownLocked_def remembered_def s t
    using assms(1-3) ne bd dr by (simp add: PrimaryHealthy_def SecondaryHealthy_def IsCircuitBroken_def)
qed

lemma both_down_recovers:
  assumes "PrimaryHealthy c \<or> SecondaryHealthy c" "\<not> IsCircuitBroken c" "entries sm (ctBuName c) = Some StateBothDown"
  shows "entries (fst (snd (snd (Evaluate now c sm))))
     = (entries sm)(ctBuName c \<mapsto> (if PrimaryHealthy c then StatePrimary else StateSecondary))"
proof -
  let ?to = "if PrimaryHealthy c then StatePrimary else StateSecondary"
  have "isValidTransition StateBothDown ?to" by simp
  note t = SM_Transition_known [OF assms(3) this, of ReasonRecovery]
  have s: "SM_State sm (ctBuName c) = StateBothDown" using assms(3) by (simp add: SM_State_def)
  show ?thesis unfolding Evaluate_def evaluateLocked_def s
    using assms(1,2) t by (cases "khHealthy (ctPrimaryHealth c)")
      (simp_all add: PrimaryHealthy_def SecondaryHealthy_def IsCircuitBroken_def)
qed

text \<open>
  When both clusters are unhealthy and the breaker is closed, one or more evaluations in a row leave a BU
  that was on a cluster or draining in BOTH\_DOWN, and the first one after a recovery leaves it.
\<close>

lemma both_down_run:
  assumes "\<not> PrimaryHealthy c" "\<not> SecondaryHealthy c" "\<not> IsCircuitBroken c"
    and "entries sm (ctBuName c) = Some st" and "st \<in> {StatePrimary, StateSecondary, StateDraining}"
    and "evaluate_all (now # ts) c sm = (c', sm', fired)"
  shows "entries sm' = (entries sm)(ctBuName c \<mapsto> StateBothDown)
    \<and> fired = fireCallbacks sm \<lparr>tBU = ctBuName c, tFrom = st, tTo = StateBothDown, tReason = ReasonHealthEvent\<rparr>
    \<and> BothDownCount c' = BothDownCount c + 1
    \<and> BothDownActiveCluster c' = remembered (ctActive c) st
    \<and> (\<forall>later ok1 ok2. ok1 \<or> ok2 \<longrightarrow>
         entries (fst (snd (snd (Evaluate later (c'\<lparr>ctPrimaryHealth := (ctPrimaryHealth c')\<lparr>khHealthy := ok1\<rparr>,
           ctSecondaryHealth := (ctSecondaryHealth c')\<lparr>khHealthy := ok2\<rparr>\<rparr>) sm'))))
         = (entries sm)(ctBuName c \<mapsto> (if ok1 then StatePrimary else StateSecondary)))"
proof -
  let ?c = "c\<lparr>ctAmbosDownCount := ctAmbosDownCount c + 1, ctLastActiveBeforeAmbos := remembered (ctActive c) st\<rparr>"
  let ?sm = "sm\<lparr>entries := (entries sm)(ctBuName c \<mapsto> StateBothDown)\<rparr>"
  have "evaluate_all ts ?c ?sm = (?c, ?sm, [])"
    using assms(1,2) by (intro both_down_stays) (simp_all add: PrimaryHealthy_def SecondaryHealthy_def SM_State_def)
  then have r: "c' = ?c" "sm' = ?sm"
      "fired = fireCallbacks sm \<lparr>tBU = ctBuName c, tFrom = st, tTo = StateBothDown, tReason = ReasonHealthEvent\<rparr>"
    using both_down_enters [OF assms(1-5), of now] assms(6) by simp_all
  have "remembered (ctActive c) st \<noteq> ''''" using assms(5) by (auto simp: remembered_def)
  moreover have "entries (fst (snd (snd (Evaluate later (?c\<lparr>ctPrimaryHealth := (ctPrimaryHealth ?c)\<lparr>khHealthy := ok1\<rparr>,
           ctSecondaryHealth := (ctSecondaryHealth ?c)\<lparr>khHealthy := ok2\<rparr>\<rparr>) ?sm))))
         = (entries sm)(ctBuName c \<mapsto> (if ok1 then StatePrimary else StateSecondary))"
    if "ok1 \<or> ok2" for later ok1 ok2
    using that assms(3) by (subst both_down_recovers)
      (simp_all add: PrimaryHealthy_def SecondaryHealthy_def IsCircuitBroken_def)
  ultimately show ?thesis unfolding r by (simp add: BothDownCount_def BothDownActiveCluster_def)
qed

end
