(* ===== verification/Drain.thy ===== *)
theory Drain
  imports Config
begin

text \<open>
  The drain manager of \<^verbatim>\<open>internal/proxy/drain.go\<close>: the connections tracked per BU, the drains in
  progress, and the timer each of them arms. Methods are atomic steps. A connection is a handle
  (\<open>nat\<close>); closing connections is reported as the list of closed handles. Armed timers are part
  of the state: \<open>time.AfterFunc\<close> adds one, \<open>Stop\<close> removes it, and a timer that fires is removed
  and runs \<open>forceCloseOld\<close>. A timer that has already begun to run when it is stopped is not
  distinguished from one that fired before.
\<close>

section \<open>State\<close>

type_synonym uint64 = "64 word"

record trackedConn =
  tcID :: uint64
  tcConn :: nat
  tcTarget :: string

record buConnTracker =
  bcCount :: int
  bcConns :: "(uint64 \<times> trackedConn) list"
  bcNextID :: uint64

record buDrain =
  OldActive :: string
  NewActive :: string
  StartedAt :: Time
  drainTimer :: nat

record drainTimerFunc =
  tfCluster :: string
  tfOldActive :: string
  tfDeadline :: Time

record 'cb DrainManager =
  buConns :: "string \<rightharpoonup> buConnTracker"
  drains :: "string \<rightharpoonup> buDrain"
  DefaultDrainTimeout :: Duration
  drainCompleteCallbacks :: "'cb list"
  dmTimers :: "nat \<rightharpoonup> drainTimerFunc"
  dmNextTimer :: nat

definition NewDrainManager :: "Duration \<Rightarrow> 'cb DrainManager" where
  "NewDrainManager defaultTimeout =
     \<lparr>buConns = Map.empty, drains = Map.empty, DefaultDrainTimeout = defaultTimeout,
      drainCompleteCallbacks = [], dmTimers = Map.empty, dmNextTimer = 0\<rparr>"

section \<open>Connection tracking\<close>

definition newTracker :: buConnTracker where
  "newTracker = \<lparr>bcCount = 0, bcConns = [], bcNextID = 0\<rparr>"

text \<open>The part of \<open>Register\<close> that works on the tracker it found or created.\<close>

definition trackConn :: "nat \<Rightarrow> string \<Rightarrow> buConnTracker \<Rightarrow> buConnTracker" where
  "trackConn conn targetCluster tracker =
     (let i = bcNextID tracker + 1;
          tc = \<lparr>tcID = i, tcConn = conn, tcTarget = targetCluster\<rparr>
      in tracker\<lparr>bcNextID := i, bcCount := bcCount tracker + 1,
                 bcConns := (i, tc) # filter (\<lambda>(j, _). j \<noteq> i) (bcConns tracker)\<rparr>)"

definition Register :: "string \<Rightarrow> nat \<Rightarrow> string \<Rightarrow> 'cb DrainManager \<Rightarrow> uint64 \<times> 'cb DrainManager" where
  "Register clusterName conn targetCluster dm =
     (let tracker = (case buConns dm clusterName of None \<Rightarrow> newTracker | Some t \<Rightarrow> t);
          tracker = trackConn conn targetCluster tracker
      in (bcNextID tracker, dm\<lparr>buConns := (buConns dm)(clusterName \<mapsto> tracker)\<rparr>))"

definition Unregister :: "string \<Rightarrow> uint64 \<Rightarrow> 'cb DrainManager \<Rightarrow> 'cb DrainManager" where
  "Unregister clusterName i dm =
     (case buConns dm clusterName of
        None \<Rightarrow> dm
      | Some tracker \<Rightarrow>
          (case map_of (bcConns tracker) i of
             None \<Rightarrow> dm
           | Some _ \<Rightarrow>
               dm\<lparr>buConns := (buConns dm)(clusterName \<mapsto>
                    tracker\<lparr>bcConns := filter (\<lambda>(j, _). j \<noteq> i) (bcConns tracker),
                            bcCount := bcCount tracker - 1\<rparr>)\<rparr>))"

definition ActiveConnections :: "'cb DrainManager \<Rightarrow> string \<Rightarrow> int" where
  "ActiveConnections dm clusterName =
     (case buConns dm clusterName of None \<Rightarrow> 0 | Some tracker \<Rightarrow> bcCount tracker)"

text \<open>The sum over the trackers, visited in the order \<open>names\<close>.\<close>

definition TotalActiveConnections :: "string list \<Rightarrow> 'cb DrainManager \<Rightarrow> int" where
  "TotalActiveConnections names dm = sum_list (map (ActiveConnections dm) names)"

section \<open>Drains\<close>

definition StopTimer :: "nat \<Rightarrow> 'cb DrainManager \<Rightarrow> 'cb DrainManager" where
  "StopTimer i dm = dm\<lparr>dmTimers := (dmTimers dm)(i := None)\<rparr>"

definition StartDrain :: "Time \<Rightarrow> string \<Rightarrow> string \<Rightarrow> string \<Rightarrow> Duration \<Rightarrow> 'cb DrainManager \<Rightarrow> 'cb DrainManager" where
  "StartDrain now clusterName oldActive newActive timeout dm =
     (let timeout = (if timeout \<le> 0 then DefaultDrainTimeout dm else timeout);
          dm = (case drains dm clusterName of None \<Rightarrow> dm | Some existing \<Rightarrow> StopTimer (drainTimer existing) dm);
          i = dmNextTimer dm
      in dm\<lparr>drains := (drains dm)(clusterName \<mapsto>
              \<lparr>OldActive = oldActive, NewActive = newActive, StartedAt = now, drainTimer = i\<rparr>),
            dmTimers := (dmTimers dm)(i \<mapsto>
              \<lparr>tfCluster = clusterName, tfOldActive = oldActive, tfDeadline = now + timeout\<rparr>),
            dmNextTimer := i + 1\<rparr>)"

definition IsDraining :: "'cb DrainManager \<Rightarrow> string \<Rightarrow> bool" where
  "IsDraining dm clusterName = (drains dm clusterName \<noteq> None)"

definition DrainState :: "'cb DrainManager \<Rightarrow> string \<Rightarrow> buDrain option" where
  "DrainState dm clusterName = drains dm clusterName"

definition OnDrainComplete :: "'cb \<Rightarrow> 'cb DrainManager \<Rightarrow> 'cb DrainManager" where
  "OnDrainComplete fn dm = dm\<lparr>drainCompleteCallbacks := drainCompleteCallbacks dm @ [fn]\<rparr>"

definition fireDrainComplete :: "string \<Rightarrow> string \<Rightarrow> buDrain option \<Rightarrow> 'cb DrainManager \<Rightarrow>
    ('cb \<times> string \<times> string \<times> string) list" where
  "fireDrainComplete clusterName oldActive drain dm =
     (let newActive = (case drain of None \<Rightarrow> '''' | Some d \<Rightarrow> NewActive d)
      in map (\<lambda>fn. (fn, clusterName, oldActive, newActive)) (drainCompleteCallbacks dm))"

text \<open>\<open>forceCloseOld\<close>: the handles it closes, the manager, and the callbacks it invokes.\<close>

definition forceCloseOld :: "string \<Rightarrow> string \<Rightarrow> 'cb DrainManager \<Rightarrow>
    nat list \<times> 'cb DrainManager \<times> ('cb \<times> string \<times> string \<times> string) list" where
  "forceCloseOld clusterName oldActive dm =
     (case buConns dm clusterName of
        None \<Rightarrow>
          ([], dm\<lparr>drains := (drains dm)(clusterName := None)\<rparr>,
           fireDrainComplete clusterName oldActive (drains dm clusterName) dm)
      | Some tracker \<Rightarrow>
          let toClose = filter (\<lambda>(_, tc). tcTarget tc = oldActive) (bcConns tracker);
              tracker = tracker\<lparr>bcConns := filter (\<lambda>(i, _). i \<notin> fst ` set toClose) (bcConns tracker)\<rparr>;
              tracker = tracker\<lparr>bcCount := bcCount tracker - int (length toClose)\<rparr>
          in (map (tcConn \<circ> snd) toClose,
              dm\<lparr>buConns := (buConns dm)(clusterName \<mapsto> tracker), drains := (drains dm)(clusterName := None)\<rparr>,
              fireDrainComplete clusterName oldActive (drains dm clusterName) dm))"

text \<open>A timer that fires: it is no longer armed and runs its function.\<close>

definition fireTimer :: "nat \<Rightarrow> 'cb DrainManager \<Rightarrow>
    nat list \<times> 'cb DrainManager \<times> ('cb \<times> string \<times> string \<times> string) list" where
  "fireTimer i dm =
     (case dmTimers dm i of
        None \<Rightarrow> ([], dm, [])
      | Some tf \<Rightarrow> forceCloseOld (tfCluster tf) (tfOldActive tf) (StopTimer i dm))"

definition ConfigChangeHandler :: "Time \<Rightarrow> Config \<Rightarrow> Config \<Rightarrow> 'cb DrainManager \<Rightarrow> 'cb DrainManager" where
  "ConfigChangeHandler now oldCfg newCfg dm =
     fold (\<lambda>ch dm.
       if ActiveChanged ch then
         (let oldActive = (case map_of (Clusters oldCfg) (ccName ch) of None \<Rightarrow> '''' | Some c \<Rightarrow> Active c)
          in case map_of (Clusters newCfg) (ccName ch) of
               None \<Rightarrow> dm
             | Some newCluster \<Rightarrow>
                 if Mode newCluster = ModeActivePassive
                 then StartDrain now (ccName ch) oldActive (Active newCluster) 0 dm else dm)
       else dm) (DiffClusters oldCfg newCfg) dm"

section \<open>Invariants\<close>

definition tracker_inv :: "buConnTracker \<Rightarrow> bool" where
  "tracker_inv t \<longleftrightarrow> distinct (map fst (bcConns t)) \<and> bcCount t = int (length (bcConns t))
     \<and> (\<forall>(i, tc) \<in> set (bcConns t). tcID tc = i \<and> i \<le> bcNextID t)"

definition conns_inv :: "'cb DrainManager \<Rightarrow> bool" where
  "conns_inv dm \<longleftrightarrow> (\<forall>c t. buConns dm c = Some t \<longrightarrow> tracker_inv t)"

text \<open>Every drain has its own armed timer for its cluster, and nothing else is armed.\<close>

definition timers_inv :: "'cb DrainManager \<Rightarrow> bool" where
  "timers_inv dm \<longleftrightarrow>
     (\<forall>c d. drains dm c = Some d \<longrightarrow> (\<exists>tf. dmTimers dm (drainTimer d) = Some tf
        \<and> tfCluster tf = c \<and> tfOldActive tf = OldActive d))
     \<and> (\<forall>i tf. dmTimers dm i = Some tf \<longrightarrow> i < dmNextTimer dm
        \<and> (\<exists>d. drains dm (tfCluster tf) = Some d \<and> drainTimer d = i))"

text \<open>How often the ids of a tracker have been handed out: below \<open>2 ^ 64 - 1\<close> they do not wrap.\<close>

definition fresh_ids :: "'cb DrainManager \<Rightarrow> bool" where
  "fresh_ids dm \<longleftrightarrow> (\<forall>c t. buConns dm c = Some t \<longrightarrow> bcNextID t \<noteq> - 1)"

lemma conns_inv_new: "conns_inv (NewDrainManager d)" and timers_inv_new: "timers_inv (NewDrainManager d)"
  by (simp_all add: conns_inv_def timers_inv_def NewDrainManager_def)

lemma distinct_filter_keys: "distinct (map fst xs) \<Longrightarrow> distinct (map fst (filter P xs))"
  by (induction xs) auto

lemma filter_remove_key:
  "distinct (map fst xs) \<Longrightarrow> map_of xs i = Some v \<Longrightarrow> Suc (length (filter (\<lambda>(j, _). j \<noteq> i) xs)) = length xs"
proof (induction xs)
  case Nil
  then show ?case by simp
next
  case (Cons x xs)
  obtain j w where x: "x = (j, w)" by (cases x)
  show ?case
  proof (cases "j = i")
    case True
    with Cons.prems(1) x have "filter (\<lambda>(j, _). j \<noteq> i) xs = xs"
      by (force simp: filter_id_conv)
    then show ?thesis using True x by simp
  next
    case False
    then show ?thesis using Cons x by simp
  qed
qed

lemma word_add_one_gt:
  assumes "(w :: uint64) \<noteq> - 1"
  shows "w < w + 1"
proof -
  have "w < - 1" using assms by (simp add: word_order.not_eq_extremum)
  then show ?thesis
    by (simp add: word_less_nat_alt unat_word_ariths unsigned_minus_1_eq_mask mask_eq_exp_minus_1)
qed

lemma trackConn_inv:
  assumes "tracker_inv t" and "bcNextID t \<noteq> - 1"
  shows "tracker_inv (trackConn conn target t)"
proof -
  let ?i = "bcNextID t + 1"
  have gt: "bcNextID t < ?i" using assms(2) by (rule word_add_one_gt)
  have "filter (\<lambda>(j, _). j \<noteq> ?i) (bcConns t) = bcConns t"
    using assms(1) gt by (force simp: tracker_inv_def filter_id_conv)
  moreover have "?i \<notin> fst ` set (bcConns t)" using assms(1) gt by (force simp: tracker_inv_def)
  moreover have "\<forall>(j, tc) \<in> set (bcConns t). j \<le> ?i" using assms(1) gt by (force simp: tracker_inv_def)
  ultimately show ?thesis using assms(1) by (auto simp: tracker_inv_def trackConn_def Let_def)
qed

lemma Register_inv:
  assumes "conns_inv dm" and "timers_inv dm" and "fresh_ids dm" and "Register c conn target dm = (i, dm')"
  shows "conns_inv dm'" and "timers_inv dm'"
proof -
  obtain t where t: "t = (case buConns dm c of None \<Rightarrow> newTracker | Some t \<Rightarrow> t)" by simp
  have "tracker_inv t" "bcNextID t \<noteq> - 1"
    using assms(1,3) by (auto simp: t conns_inv_def fresh_ids_def tracker_inv_def newTracker_def split: option.splits)
  then have "tracker_inv (trackConn conn target t)" by (rule trackConn_inv)
  moreover have dm': "dm' = dm\<lparr>buConns := (buConns dm)(c \<mapsto> trackConn conn target t)\<rparr>"
    using assms(4) by (simp add: Register_def Let_def t)
  ultimately show "conns_inv dm'" using assms(1) by (auto simp: conns_inv_def)
  show "timers_inv dm'" using assms(2) by (simp add: dm' timers_inv_def)
qed

lemma Unregister_inv:
  assumes "conns_inv dm" and "timers_inv dm"
  shows "conns_inv (Unregister c i dm)" and "timers_inv (Unregister c i dm)"
proof -
  show "timers_inv (Unregister c i dm)"
    using assms(2) by (auto simp: Unregister_def timers_inv_def split: option.splits)
  show "conns_inv (Unregister c i dm)"
  proof (cases "buConns dm c")
    case (Some t)
    then have t: "tracker_inv t" using assms(1) by (simp add: conns_inv_def)
    show ?thesis
    proof (cases "map_of (bcConns t) i")
      case (Some tc)
      with t have "tracker_inv (t\<lparr>bcConns := filter (\<lambda>(j, _). j \<noteq> i) (bcConns t), bcCount := bcCount t - 1\<rparr>)"
        using filter_remove_key [of "bcConns t" i tc]
        by (auto simp: tracker_inv_def distinct_filter_keys simp flip: of_nat_Suc)
      with \<open>buConns dm c = Some t\<close> Some show ?thesis
        using assms(1) by (auto simp: conns_inv_def Unregister_def)
    qed (use \<open>buConns dm c = Some t\<close> assms(1) in \<open>simp add: Unregister_def\<close>)
  qed (use assms(1) in \<open>simp add: Unregister_def\<close>)
qed

lemma timers_invD:
  assumes "timers_inv dm"
  shows "drains dm c = Some d \<Longrightarrow> \<exists>tf. dmTimers dm (drainTimer d) = Some tf \<and> tfCluster tf = c \<and> tfOldActive tf = OldActive d"
    and "dmTimers dm i = Some tf \<Longrightarrow> i < dmNextTimer dm"
    and "dmTimers dm i = Some tf \<Longrightarrow> \<exists>d. drains dm (tfCluster tf) = Some d \<and> drainTimer d = i"
  using assms by (auto simp: timers_inv_def)

lemma timers_invI:
  assumes "\<And>c d. drains dm c = Some d \<Longrightarrow>
      \<exists>tf. dmTimers dm (drainTimer d) = Some tf \<and> tfCluster tf = c \<and> tfOldActive tf = OldActive d"
    and "\<And>i tf. dmTimers dm i = Some tf \<Longrightarrow>
      i < dmNextTimer dm \<and> (\<exists>d. drains dm (tfCluster tf) = Some d \<and> drainTimer d = i)"
  shows "timers_inv dm"
  using assms unfolding timers_inv_def by blast

lemma StartDrain_timers:
  "drains (StartDrain now c old new to dm) = (drains dm)(c \<mapsto>
     \<lparr>OldActive = old, NewActive = new, StartedAt = now, drainTimer = dmNextTimer dm\<rparr>)"
  "dmTimers (StartDrain now c old new to dm) =
     (\<lambda>i. if \<exists>e. drains dm c = Some e \<and> drainTimer e = i then None else dmTimers dm i)
       (dmNextTimer dm \<mapsto> \<lparr>tfCluster = c, tfOldActive = old,
          tfDeadline = now + (if to \<le> 0 then DefaultDrainTimeout dm else to)\<rparr>)"
  "dmNextTimer (StartDrain now c old new to dm) = dmNextTimer dm + 1"
  by (cases "drains dm c"; simp add: StartDrain_def StopTimer_def Let_def; auto simp: fun_eq_iff)+

lemma StartDrain_conns_inv: "conns_inv dm \<Longrightarrow> conns_inv (StartDrain now c old new d dm)"
  by (auto simp: StartDrain_def StopTimer_def conns_inv_def Let_def split: option.splits)

lemma StartDrain_timers_inv:
  assumes "timers_inv dm"
  shows "timers_inv (StartDrain now c old new d dm)"
proof (rule timers_invI)
  fix c' e assume e: "drains (StartDrain now c old new d dm) c' = Some e"
  show "\<exists>tf. dmTimers (StartDrain now c old new d dm) (drainTimer e) = Some tf
      \<and> tfCluster tf = c' \<and> tfOldActive tf = OldActive e"
  proof (cases "c' = c")
    case True
    then show ?thesis using e by (auto simp: StartDrain_timers)
  next
    case False
    then have "drains dm c' = Some e" using e by (simp add: StartDrain_timers)
    then obtain tf where "dmTimers dm (drainTimer e) = Some tf" "tfCluster tf = c'" "tfOldActive tf = OldActive e"
      using timers_invD(1) [OF assms] by blast
    moreover have "drainTimer e \<noteq> drainTimer e'" if "drains dm c = Some e'" for e'
      using calculation(1,2) timers_invD(1) [OF assms that] False by auto
    moreover have "drainTimer e \<noteq> dmNextTimer dm"
      using timers_invD(2) [OF assms calculation(1)] by simp
    ultimately show ?thesis by (auto simp: StartDrain_timers)
  qed
next
  fix i tf assume tf: "dmTimers (StartDrain now c old new d dm) i = Some tf"
  show "i < dmNextTimer (StartDrain now c old new d dm)
      \<and> (\<exists>e. drains (StartDrain now c old new d dm) (tfCluster tf) = Some e \<and> drainTimer e = i)"
  proof (cases "i = dmNextTimer dm")
    case True
    then show ?thesis using tf by (auto simp: StartDrain_timers)
  next
    case False
    then have "dmTimers dm i = Some tf" "\<not> (\<exists>e. drains dm c = Some e \<and> drainTimer e = i)"
      using tf by (auto simp: StartDrain_timers split: if_splits)
    then show ?thesis using timers_invD(2,3) [OF assms] by (fastforce simp: StartDrain_timers)
  qed
qed

text \<open>What the keys removed by a forced close are: exactly those of the old target.\<close>

lemma close_filter:
  assumes "distinct (map fst xs)"
  shows "filter (\<lambda>(i, _). i \<notin> fst ` set (filter (\<lambda>(_, tc). P tc) xs)) xs = filter (\<lambda>(_, tc). \<not> P tc) xs"
proof -
  have "i \<in> fst ` set (filter (\<lambda>(_, tc). P tc) xs) \<longleftrightarrow> P v" if v: "(i, v) \<in> set xs" for i v
  proof -
    have "i \<in> fst ` set (filter (\<lambda>(_, tc). P tc) xs) \<longleftrightarrow> (\<exists>w. (i, w) \<in> set xs \<and> P w)" by force
    also have "\<dots> \<longleftrightarrow> P v" using eq_key_imp_eq_value [OF assms v] v by blast
    finally show ?thesis .
  qed
  then show ?thesis by (intro filter_cong) auto
qed

lemma forceCloseOld_tracker:
  assumes "tracker_inv t" and "buConns dm c = Some t" and "forceCloseOld c old dm = (closed, dm', fired)"
  shows "closed = map (tcConn \<circ> snd) (filter (\<lambda>(_, tc). tcTarget tc = old) (bcConns t))"
    and "dm' = dm\<lparr>buConns := (buConns dm)(c \<mapsto> t\<lparr>bcConns := filter (\<lambda>(_, tc). tcTarget tc \<noteq> old) (bcConns t),
            bcCount := int (length (filter (\<lambda>(_, tc). tcTarget tc \<noteq> old) (bcConns t)))\<rparr>),
          drains := (drains dm)(c := None)\<rparr>"
proof -
  let ?yes = "filter (\<lambda>(_, tc). tcTarget tc = old) (bcConns t)"
  let ?no = "filter (\<lambda>(_, tc). tcTarget tc \<noteq> old) (bcConns t)"
  have "filter (\<lambda>(i, _). i \<notin> fst ` set ?yes) (bcConns t) = ?no"
    using assms(1) by (intro close_filter) (simp add: tracker_inv_def)
  moreover have "length ?yes + length ?no = length (bcConns t)"
    using sum_length_filter_compl [of "\<lambda>(_, tc). tcTarget tc = old" "bcConns t"]
    by (simp add: case_prod_unfold)
  then have "bcCount t - int (length ?yes) = int (length ?no)" using assms(1) by (simp add: tracker_inv_def)
  ultimately show "closed = map (tcConn \<circ> snd) ?yes"
    and "dm' = dm\<lparr>buConns := (buConns dm)(c \<mapsto> t\<lparr>bcConns := ?no, bcCount := int (length ?no)\<rparr>),
          drains := (drains dm)(c := None)\<rparr>"
    using assms(2,3) by (simp_all add: forceCloseOld_def Let_def)
qed

lemma forceCloseOld_conns_inv:
  assumes "conns_inv dm" and "forceCloseOld c old dm = (closed, dm', fired)"
  shows "conns_inv dm'"
proof (cases "buConns dm c")
  case None
  then show ?thesis using assms by (auto simp: forceCloseOld_def conns_inv_def)
next
  case (Some t)
  then have "tracker_inv t" using assms(1) by (simp add: conns_inv_def)
  then show ?thesis using assms(1) forceCloseOld_tracker(2) [OF _ Some assms(2)]
    by (auto simp: conns_inv_def tracker_inv_def distinct_filter_keys)
qed

lemma forceCloseOld_drains:
  assumes "forceCloseOld c old dm = (closed, dm', fired)"
  shows "drains dm' = (drains dm)(c := None)" and "dmTimers dm' = dmTimers dm" and "dmNextTimer dm' = dmNextTimer dm"
    and "drainCompleteCallbacks dm' = drainCompleteCallbacks dm"
    and "fired = fireDrainComplete c old (drains dm c) dm"
    and "\<And>c'. c' \<noteq> c \<Longrightarrow> buConns dm' c' = buConns dm c'"
  using assms by (auto simp: forceCloseOld_def Let_def split: option.splits)

lemma fireTimer_conns_inv:
  assumes "conns_inv dm" and "fireTimer i dm = (closed, dm', fired)"
  shows "conns_inv dm'"
proof (cases "dmTimers dm i")
  case (Some tf)
  have "conns_inv (StopTimer i dm)" using assms(1) by (simp add: conns_inv_def StopTimer_def)
  then show ?thesis using assms(2) Some by (simp add: fireTimer_def forceCloseOld_conns_inv)
qed (use assms in \<open>simp add: fireTimer_def\<close>)

lemma fireTimer_timers_inv:
  assumes "timers_inv dm" and "fireTimer i dm = (closed, dm', fired)"
  shows "timers_inv dm'"
proof (cases "dmTimers dm i")
  case (Some tf)
  then obtain d where d: "drains dm (tfCluster tf) = Some d" "drainTimer d = i"
    using timers_invD(3) [OF assms(1) Some] by blast
  note f = forceCloseOld_drains [of "tfCluster tf" "tfOldActive tf" "StopTimer i dm" closed dm' fired]
  have "drains dm' = (drains dm)(tfCluster tf := None)" "dmTimers dm' = (dmTimers dm)(i := None)"
    "dmNextTimer dm' = dmNextTimer dm"
    using assms(2) Some f(1-3) by (simp_all add: fireTimer_def StopTimer_def)
  then show ?thesis using timers_invD [OF assms(1)] d unfolding timers_inv_def
    by (auto simp: fun_upd_def) (metis option.inject)+
qed (use assms in \<open>simp add: fireTimer_def\<close>)

section \<open>Runs\<close>

datatype drain_op =
    DRegister string nat string
  | DUnregister string uint64
  | DStart Time string string string Duration
  | DFire nat

fun drain_exec :: "drain_op \<Rightarrow> 'cb DrainManager \<Rightarrow> 'cb DrainManager" where
  "drain_exec (DRegister c conn target) dm = snd (Register c conn target dm)"
| "drain_exec (DUnregister c i) dm = Unregister c i dm"
| "drain_exec (DStart now c old new timeout) dm = StartDrain now c old new timeout dm"
| "drain_exec (DFire i) dm = fst (snd (fireTimer i dm))"

definition drain_run :: "drain_op list \<Rightarrow> Duration \<Rightarrow> 'cb DrainManager" where
  "drain_run ops d = fold drain_exec ops (NewDrainManager d)"

definition trackedConns :: "'cb DrainManager \<Rightarrow> string \<Rightarrow> trackedConn list" where
  "trackedConns dm c = (case buConns dm c of None \<Rightarrow> [] | Some t \<Rightarrow> map snd (bcConns t))"

definition ids_upto :: "nat \<Rightarrow> 'cb DrainManager \<Rightarrow> bool" where
  "ids_upto k dm \<longleftrightarrow> (\<forall>c t. buConns dm c = Some t \<longrightarrow> unat (bcNextID t) \<le> k)"

lemma ids_upto_fresh: "ids_upto k dm \<Longrightarrow> k < 2 ^ 64 - 1 \<Longrightarrow> fresh_ids dm"
  by (fastforce simp: ids_upto_def fresh_ids_def unsigned_minus_1_eq_mask mask_eq_exp_minus_1)

lemma ids_upto_same: "ids_upto k dm \<Longrightarrow> (\<And>c t. buConns dm' c = Some t \<Longrightarrow>
    \<exists>t'. buConns dm c = Some t' \<and> bcNextID t' = bcNextID t) \<Longrightarrow> ids_upto (Suc k) dm'"
  unfolding ids_upto_def by (metis le_SucI)

lemma drain_exec_ids:
  assumes "ids_upto k dm"
  shows "ids_upto (Suc k) (drain_exec op dm)"
proof (cases op)
  case (DRegister c conn target)
  have "unat (w + 1) \<le> Suc k" if "unat w \<le> k" for w :: uint64
  proof -
    have "unat (w + 1) \<le> unat w + 1" by (simp add: unat_word_ariths)
    then show ?thesis using that by simp
  qed
  then show ?thesis using assms DRegister
    by (auto simp: ids_upto_def Register_def trackConn_def newTracker_def Let_def le_SucI split: option.splits)
next
  case (DUnregister c i)
  show ?thesis using assms unfolding DUnregister
    by (rule ids_upto_same) (auto simp: Unregister_def split: option.splits if_splits)
next
  case (DStart now c old new timeout)
  show ?thesis using assms unfolding DStart
    by (rule ids_upto_same) (auto simp: StartDrain_def StopTimer_def Let_def split: option.splits)
next
  case (DFire i)
  show ?thesis using assms unfolding DFire
    by (rule ids_upto_same)
      (auto simp: fireTimer_def forceCloseOld_def StopTimer_def Let_def split: option.splits if_splits)
qed

lemma drain_exec_inv:
  assumes "conns_inv dm" and "timers_inv dm" and "fresh_ids dm"
  shows "conns_inv (drain_exec op dm) \<and> timers_inv (drain_exec op dm)"
proof (cases op)
  case (DRegister c conn target)
  then show ?thesis using Register_inv [OF assms, of c conn target] by (cases "Register c conn target dm") simp
next
  case (DFire i)
  then show ?thesis using assms fireTimer_conns_inv [of dm i] fireTimer_timers_inv [of dm i]
    by (cases "fireTimer i dm") auto
qed (use assms in \<open>simp_all add: Unregister_inv StartDrain_conns_inv StartDrain_timers_inv\<close>)

lemma drain_run_inv:
  assumes "length ops < 2 ^ 64 - 1" and "dm = (drain_run ops d :: 'cb DrainManager)"
  shows "conns_inv dm \<and> timers_inv dm \<and> ids_upto (length ops) dm"
  using assms
proof (induction ops arbitrary: dm rule: rev_induct)
  case Nil
  then show ?case
    by (simp add: drain_run_def conns_inv_new timers_inv_new) (simp add: ids_upto_def NewDrainManager_def)
next
  case (snoc op ops)
  obtain dm0 where dm0: "dm0 = (drain_run ops d :: 'cb DrainManager)" by simp
  then have inv: "conns_inv dm0" "timers_inv dm0" "ids_upto (length ops) dm0" using snoc by simp_all
  have "fresh_ids dm0" using ids_upto_fresh [OF inv(3)] snoc.prems(1) by simp
  then have "conns_inv (drain_exec op dm0) \<and> timers_inv (drain_exec op dm0)" using inv by (intro drain_exec_inv)
  moreover have "dm = drain_exec op dm0" using snoc.prems(2) dm0 by (simp add: drain_run_def)
  ultimately show ?case using drain_exec_ids [OF inv(3), of op] by simp
qed

section \<open>Properties\<close>

text \<open>
  C16. Bookkeeping of the drain manager, after any sequence of fewer than \<open>2 ^ 64 - 1\<close>
  registrations, unregistrations, drain starts and timer expiries: the connection gauge of every
  BU is the number of connections it tracks, no two of them share an id, and a BU is draining
  exactly when one timer is armed for it, never two.
\<close>
theorem drain_bookkeeping:
  fixes ops :: "drain_op list" and d :: Duration
  assumes "length ops < 2 ^ 64 - 1"
  defines "dm \<equiv> drain_run ops d :: nat DrainManager"
  shows "ActiveConnections dm c = int (length (trackedConns dm c))
    \<and> distinct (map tcID (trackedConns dm c))
    \<and> (IsDraining dm c \<longleftrightarrow> (\<exists>!i. \<exists>tf. dmTimers dm i = Some tf \<and> tfCluster tf = c))
    \<and> (IsDraining dm c \<longleftrightarrow> (\<exists>i tf. dmTimers dm i = Some tf \<and> tfCluster tf = c))"
proof -
  have inv: "conns_inv dm" "timers_inv dm" using drain_run_inv [OF assms(1) dm_def [THEN meta_eq_to_obj_eq]] by auto
  have "ActiveConnections dm c = int (length (trackedConns dm c)) \<and> distinct (map tcID (trackedConns dm c))"
  proof (cases "buConns dm c")
    case None
    then show ?thesis by (simp add: ActiveConnections_def trackedConns_def)
  next
    case (Some t)
    then have t: "tracker_inv t" using inv(1) by (simp add: conns_inv_def)
    then have "map tcID (map snd (bcConns t)) = map fst (bcConns t)" by (auto simp: tracker_inv_def)
    then have "distinct (map tcID (trackedConns dm c))"
      using t Some by (simp only: trackedConns_def option.case tracker_inv_def)
    then show ?thesis using t Some by (simp add: ActiveConnections_def trackedConns_def tracker_inv_def)
  qed
  moreover have own: "\<exists>e. drains dm c = Some e \<and> drainTimer e = i"
    if "dmTimers dm i = Some tf" "tfCluster tf = c" for i tf
    using timers_invD(3) [OF inv(2) that(1)] that(2) by simp
  have "\<exists>i tf. dmTimers dm i = Some tf \<and> tfCluster tf = c" if dr: "IsDraining dm c"
  proof -
    obtain e where "drains dm c = Some e" using dr by (auto simp: IsDraining_def)
    from timers_invD(1) [OF inv(2) this] show ?thesis by blast
  qed
  then have ex: "IsDraining dm c \<longleftrightarrow> (\<exists>i tf. dmTimers dm i = Some tf \<and> tfCluster tf = c)"
    using own by (fastforce simp: IsDraining_def)
  have "i = j" if "dmTimers dm i = Some tf" "tfCluster tf = c" "dmTimers dm j = Some tg" "tfCluster tg = c" for i j tf tg
    using own [OF that(1,2)] own [OF that(3,4)] by auto
  then have "(\<exists>i tf. dmTimers dm i = Some tf \<and> tfCluster tf = c)
      \<longleftrightarrow> (\<exists>!i. \<exists>tf. dmTimers dm i = Some tf \<and> tfCluster tf = c)" by blast
  with ex show ?thesis using calculation by blast
qed

theorem drain_bookkeeping_witness:
  "ActiveConnections (drain_run [DRegister ''finance'' 7 ''primary'', DStart 5 ''finance'' ''primary'' ''secondary'' 0,
     DRegister ''finance'' 8 ''secondary'', DFire 0] 30 :: nat DrainManager) ''finance'' = 1"
  using drain_bookkeeping [of "[DRegister ''finance'' 7 ''primary'', DStart 5 ''finance'' ''primary'' ''secondary'' 0,
     DRegister ''finance'' 8 ''secondary'', DFire 0]" 30 "''finance''"]
  by (simp add: trackedConns_def drain_run_def NewDrainManager_def Register_def trackConn_def newTracker_def
      StartDrain_def fireTimer_def forceCloseOld_def StopTimer_def)

text \<open>
  C17. What the end of a drain does, in any state such a sequence reaches: it closes exactly the
  BU's connections on the old cluster, keeps all its others, leaves the gauge at their number,
  ends the drain, reports the drain's destination to every callback once, and touches neither
  the connections nor the drains of any other BU. Unregistering a closed connection afterwards
  changes nothing.
\<close>
theorem force_close_exact:
  fixes ops :: "drain_op list" and d :: Duration
  assumes "length ops < 2 ^ 64 - 1"
  defines "dm \<equiv> drain_run ops d :: nat DrainManager"
  assumes "forceCloseOld c old dm = (closed, dm', fired)"
  shows "closed = map tcConn (filter (\<lambda>tc. tcTarget tc = old) (trackedConns dm c))
    \<and> trackedConns dm' c = filter (\<lambda>tc. tcTarget tc \<noteq> old) (trackedConns dm c)
    \<and> ActiveConnections dm' c = int (length (trackedConns dm' c))
    \<and> DrainState dm' c = None
    \<and> fired = map (\<lambda>fn. (fn, c, old, case DrainState dm c of None \<Rightarrow> '''' | Some e \<Rightarrow> NewActive e)) (drainCompleteCallbacks dm)
    \<and> (\<forall>c'. c' \<noteq> c \<longrightarrow> trackedConns dm' c' = trackedConns dm c' \<and> DrainState dm' c' = DrainState dm c')
    \<and> (\<forall>tc \<in> set (trackedConns dm c). tcTarget tc = old \<longrightarrow> Unregister c (tcID tc) dm' = dm')"
proof (cases "buConns dm c")
  case None
  then show ?thesis using assms(3)
    by (auto simp: trackedConns_def ActiveConnections_def DrainState_def forceCloseOld_def fireDrainComplete_def)
next
  case (Some t)
  have t: "tracker_inv t" using drain_run_inv [OF assms(1) dm_def [THEN meta_eq_to_obj_eq]] Some by (auto simp: conns_inv_def)
  note f = forceCloseOld_tracker [OF t Some assms(3)] and g = forceCloseOld_drains [OF assms(3)]
  have eq: "filter P (map snd (bcConns t)) = map snd (filter (\<lambda>(_, tc). P tc) (bcConns t))" for P
    by (simp add: filter_map comp_def case_prod_unfold)
  have "Unregister c (tcID tc) dm' = dm'" if "tc \<in> set (trackedConns dm c)" "tcTarget tc = old" for tc
  proof -
    have "(tcID tc, tc) \<in> set (bcConns t)" using that(1) t Some by (auto simp: trackedConns_def tracker_inv_def)
    then have "(tcID tc, tc') \<notin> set (filter (\<lambda>(_, tc). tcTarget tc \<noteq> old) (bcConns t))" for tc'
      using that(2) t eq_key_imp_eq_value [of "bcConns t" "tcID tc" tc tc'] by (auto simp: tracker_inv_def)
    then have "map_of (filter (\<lambda>(_, tc). tcTarget tc \<noteq> old) (bcConns t)) (tcID tc) = None"
      by (meson map_of_SomeD not_Some_eq)
    then show ?thesis by (simp add: f(2) Unregister_def)
  qed
  then show ?thesis using f g Some
    by (simp add: trackedConns_def ActiveConnections_def DrainState_def fireDrainComplete_def eq)
qed

theorem force_close_exact_witness:
  "fst (forceCloseOld ''finance'' ''primary'' (drain_run [DRegister ''finance'' 7 ''primary'',
     DRegister ''finance'' 8 ''secondary''] 30 :: nat DrainManager)) = [7]"
proof -
  let ?dm = "drain_run [DRegister ''finance'' 7 ''primary'', DRegister ''finance'' 8 ''secondary''] 30 :: nat DrainManager"
  obtain closed dm' fired where f: "forceCloseOld ''finance'' ''primary'' ?dm = (closed, dm', fired)" by (metis prod_cases3)
  have "closed = map tcConn (filter (\<lambda>tc. tcTarget tc = ''primary'') (trackedConns ?dm ''finance''))"
    using force_close_exact [OF _ f] by simp
  also have "\<dots> = [7]"
    by (simp add: trackedConns_def drain_run_def NewDrainManager_def Register_def trackConn_def newTracker_def)
  finally show ?thesis by (simp add: f)
qed

end
