(* ===== verification/DR_System.thy ===== *)
theory DR_System
  imports Health Controller Drain
begin

text \<open>
  The disaster-recovery system as it is wired at start-up: the coordinator that connects the
  state machine with the drain manager (\<^verbatim>\<open>internal/proxy/dr_coordinator.go\<close>), the failover
  manager that feeds health snapshots to the controllers (\<^verbatim>\<open>internal/failover/manager.go\<close>), its
  metrics (\<^verbatim>\<open>internal/server/server.go\<close>) and the start-up and reload code of
  \<^verbatim>\<open>cmd/proxy/main.go\<close>. Callbacks run synchronously inside the operation that fires them.
  Methods are atomic; goroutines interleave as steps of \<open>dr_step\<close>.
\<close>

section \<open>The coordinator\<close>

datatype sm_callback = WireStartDrain
datatype dm_callback = WireDrainComplete

definition stateToTarget :: "string \<Rightarrow> string" where
  "stateToTarget state =
     (if state = BUState_string StatePrimary then ActivePrimary
      else if state = BUState_string StateSecondary then ActiveSecondary
      else if state = BUState_string StateDraining then ActivePrimary
      else if state = BUState_string StateBothDown then ActivePrimary
      else ActivePrimary)"

text \<open>The callback that \<open>Wire\<close> registers on the state machine.\<close>

definition wireStateChange :: "Time \<Rightarrow> Transition \<Rightarrow> dm_callback DrainManager \<Rightarrow> dm_callback DrainManager" where
  "wireStateChange now t dm =
     (if tTo t \<noteq> StateDraining then dm
      else
        let oldTarget = stateToTarget (BUState_string (tFrom t));
            newTarget = stateToTarget (BUState_string (tTo t));
            newTarget = (case tFrom t of StatePrimary \<Rightarrow> ActiveSecondary
                         | StateSecondary \<Rightarrow> ActivePrimary | _ \<Rightarrow> newTarget)
        in StartDrain now (tBU t) oldTarget newTarget 0 dm)"

definition runStateCallbacks :: "Time \<Rightarrow> (sm_callback \<times> Transition) list \<Rightarrow>
    dm_callback DrainManager \<Rightarrow> dm_callback DrainManager" where
  "runStateCallbacks now fired dm = fold (\<lambda>(cb, t). wireStateChange now t) fired dm"

text \<open>\<open>sm.Transition\<close> on the wired state machine, with the callbacks it fires.\<close>

definition transitionWired :: "Time \<Rightarrow> string \<Rightarrow> BUState \<Rightarrow> StateChangeReason \<Rightarrow>
    sm_callback StateMachine \<times> dm_callback DrainManager \<Rightarrow> sm_callback StateMachine \<times> dm_callback DrainManager" where
  "transitionWired now bu to reason = (\<lambda>(sm, dm).
     let (_, sm', fired) = SM_Transition sm bu to reason in (sm', runStateCallbacks now fired dm))"

text \<open>The callback that \<open>Wire\<close> registers on the drain manager.\<close>

definition wireDrainComplete :: "Time \<Rightarrow> string \<times> string \<times> string \<Rightarrow>
    sm_callback StateMachine \<times> dm_callback DrainManager \<Rightarrow> sm_callback StateMachine \<times> dm_callback DrainManager" where
  "wireDrainComplete now = (\<lambda>(clusterName, oldActive, newActive) (sm, dm).
     if SM_State sm clusterName \<noteq> StateDraining then (sm, dm)
     else if newActive = ActivePrimary then transitionWired now clusterName StatePrimary ReasonDrainComplete (sm, dm)
     else if newActive = ActiveSecondary then transitionWired now clusterName StateSecondary ReasonDrainComplete (sm, dm)
     else (sm, dm))"

definition runDrainCallbacks :: "Time \<Rightarrow> (dm_callback \<times> string \<times> string \<times> string) list \<Rightarrow>
    sm_callback StateMachine \<times> dm_callback DrainManager \<Rightarrow> sm_callback StateMachine \<times> dm_callback DrainManager" where
  "runDrainCallbacks now fired = fold (\<lambda>(cb, args). wireDrainComplete now args) fired"

definition Wire :: "sm_callback StateMachine \<times> dm_callback DrainManager \<Rightarrow>
    sm_callback StateMachine \<times> dm_callback DrainManager" where
  "Wire = (\<lambda>(sm, dm). (OnStateChange sm WireStartDrain, OnDrainComplete WireDrainComplete dm))"

definition DrainNewActive :: "dm_callback DrainManager \<Rightarrow> string \<Rightarrow> string \<times> bool" where
  "DrainNewActive dm bu = (case DrainState dm bu of None \<Rightarrow> ('''', False) | Some ds \<Rightarrow> (NewActive ds, True))"

text \<open>\<open>TargetForRouting\<close>; \<open>ctrlLookup\<close> is the optional controller lookup.\<close>

definition TargetForRouting :: "sm_callback StateMachine \<Rightarrow> dm_callback DrainManager \<Rightarrow>
    (string \<Rightarrow> Controller option) option \<Rightarrow> string \<Rightarrow> string \<times> bool" where
  "TargetForRouting sm dm ctrlLookup bu =
     (case SM_State sm bu of
        StatePrimary \<Rightarrow> (ActivePrimary, True)
      | StateSecondary \<Rightarrow> (ActiveSecondary, True)
      | StateDraining \<Rightarrow>
          (case DrainState dm bu of
             None \<Rightarrow> (ActivePrimary, True)
           | Some drainState \<Rightarrow> (NewActive drainState, True))
      | StateBothDown \<Rightarrow>
          (case Option.bind ctrlLookup (\<lambda>look. look bu) of
             None \<Rightarrow> (ActivePrimary, True)
           | Some ctrl \<Rightarrow>
               if BothDownActiveCluster ctrl = BUState_string StatePrimary then (ActivePrimary, True)
               else if BothDownActiveCluster ctrl = BUState_string StateSecondary then (ActiveSecondary, True)
               else (ActivePrimary, True))
      | StateOther _ \<Rightarrow> (ActivePrimary, True))"

section \<open>The failover manager\<close>

record FailoverMetrics =
  totalFailovers :: int
  circuitBreaker :: "string \<rightharpoonup> string"

definition NewFailoverMetrics :: FailoverMetrics where
  "NewFailoverMetrics = \<lparr>totalFailovers = 0, circuitBreaker = Map.empty\<rparr>"

definition RecordFailover :: "FailoverMetrics \<Rightarrow> FailoverMetrics" where
  "RecordFailover fm = fm\<lparr>totalFailovers := totalFailovers fm + 1\<rparr>"

definition RecordCircuitBreaker :: "string \<Rightarrow> string \<Rightarrow> FailoverMetrics \<Rightarrow> FailoverMetrics" where
  "RecordCircuitBreaker bu state fm = fm\<lparr>circuitBreaker := (circuitBreaker fm)(bu \<mapsto> state)\<rparr>"

text \<open>
  The manager with the objects it shares: the state machine, the drain manager behind its drain
  reader, the metrics. \<open>mgHasChecker\<close> says whether a checker is attached; its snapshot is an
  argument of \<open>sync\<close>.
\<close>

record Manager =
  mgSM :: "sm_callback StateMachine"
  mgDM :: "dm_callback DrainManager"
  mgControllers :: "string \<rightharpoonup> Controller"
  mgHasDrainReader :: bool
  mgHasChecker :: bool
  mgMetrics :: "FailoverMetrics option"

definition Reconfigure :: "(string \<times> ClusterConfig) list \<Rightarrow> Manager \<Rightarrow> Manager" where
  "Reconfigure clusters m =
     m\<lparr>mgControllers := fold (\<lambda>(name, c) cs.
         if Mode c \<noteq> ModeActivePassive \<or> \<not> AutoFailover (HealthCheck c) then cs
         else cs(name \<mapsto> NewController name (Active c) (Mode c) (HealthCheck c))) clusters Map.empty\<rparr>"

definition NewManager :: "sm_callback StateMachine \<Rightarrow> dm_callback DrainManager \<Rightarrow>
    (string \<times> ClusterConfig) list \<Rightarrow> Manager" where
  "NewManager sm dm clusters =
     Reconfigure clusters \<lparr>mgSM = sm, mgDM = dm, mgControllers = Map.empty, mgHasDrainReader = False,
       mgHasChecker = False, mgMetrics = None\<rparr>"

definition EffectiveActive :: "Manager \<Rightarrow> string \<Rightarrow> string \<times> bool" where
  "EffectiveActive m bu =
     (case SM_State (mgSM m) bu of
        StatePrimary \<Rightarrow> (ActivePrimary, True)
      | StateSecondary \<Rightarrow> (ActiveSecondary, True)
      | StateDraining \<Rightarrow>
          (if mgHasDrainReader m \<and> snd (DrainNewActive (mgDM m) bu)
           then (fst (DrainNewActive (mgDM m) bu), True) else ('''', False))
      | StateBothDown \<Rightarrow>
          (case mgControllers m bu of
             None \<Rightarrow> ('''', False)
           | Some ctrl \<Rightarrow>
               if BothDownActiveCluster ctrl = BUState_string StatePrimary then (ActivePrimary, True)
               else if BothDownActiveCluster ctrl = BUState_string StateSecondary then (ActiveSecondary, True)
               else ('''', False))
      | StateOther _ \<Rightarrow> ('''', False))"

text \<open>Both cluster names are known to \<open>RecordHealthResult\<close>, so its panic branch is not taken.\<close>

definition recordSnapshot :: "Time \<Rightarrow> string \<Rightarrow> Snapshot \<Rightarrow> Controller \<Rightarrow> Controller" where
  "recordSnapshot now cluster s c =
     (case RecordHealthResult now cluster (snHealthy s) (snLastCheckLatency s) c of Inl _ \<Rightarrow> c | Inr c' \<Rightarrow> c')"

definition syncOne :: "Time \<Rightarrow> (string \<rightharpoonup> ClusterHealth) \<Rightarrow> string \<Rightarrow> Manager \<Rightarrow> Manager" where
  "syncOne now healthMap bu m =
     (case (mgControllers m bu, healthMap bu) of
        (Some ctrl, Some ch) \<Rightarrow>
          let ctrl = recordSnapshot now ''primary'' (chPrimary ch) ctrl;
              ctrl = recordSnapshot now ''secondary'' (chSecondary ch) ctrl;
              (action, ctrl, sm, fired) = Evaluate now ctrl (mgSM m);
              m = m\<lparr>mgControllers := (mgControllers m)(bu \<mapsto> ctrl), mgSM := sm,
                    mgDM := runStateCallbacks now fired (mgDM m)\<rparr>;
              m = (if action \<noteq> ActionNone then m\<lparr>mgMetrics := map_option RecordFailover (mgMetrics m)\<rparr> else m)
          in m\<lparr>mgMetrics := map_option
                 (RecordCircuitBreaker bu (if IsCircuitBroken ctrl then ''broken'' else ''ok'')) (mgMetrics m)\<rparr>
      | _ \<Rightarrow> m)"

text \<open>\<open>sync\<close> visits the controllers in the order \<open>bus\<close>.\<close>

definition sync :: "Time \<Rightarrow> (string \<rightharpoonup> ClusterHealth) \<Rightarrow> string list \<Rightarrow> Manager \<Rightarrow> Manager" where
  "sync now healthMap bus m = (if \<not> mgHasChecker m then m else fold (syncOne now healthMap) bus m)"

section \<open>Start-up and reload\<close>

definition initialState :: "ClusterConfig \<Rightarrow> BUState" where
  "initialState c = (if Active c = ActivePrimary then StatePrimary
     else if Active c = ActiveSecondary then StateSecondary else StatePrimary)"

definition initStates :: "(string \<times> ClusterConfig) list \<Rightarrow> 'cb StateMachine \<Rightarrow> 'cb StateMachine" where
  "initStates clusters sm = fold (\<lambda>(name, c) sm.
     if Mode c \<noteq> ModeActivePassive then sm else snd (Initialize sm name (initialState c))) clusters sm"

definition startup :: "Config \<Rightarrow> Manager" where
  "startup cfg =
     (let idle = IdleTimeout (ConnectionPool (Proxy cfg));
          (sm, dm) = Wire (initStates (Clusters cfg) NewStateMachine,
                           NewDrainManager (if idle \<le> 0 then 30 * second else idle))
      in (NewManager sm dm (Clusters cfg))
           \<lparr>mgHasDrainReader := True, mgMetrics := Some NewFailoverMetrics, mgHasChecker := True\<rparr>)"

definition applyChange :: "Time \<Rightarrow> Config \<Rightarrow> ClusterChange \<Rightarrow> Manager \<Rightarrow> Manager" where
  "applyChange now newCfg ch m =
     (case map_of (Clusters newCfg) (ccName ch) of
        Some newCluster \<Rightarrow>
          if ActiveChanged ch \<and> Mode newCluster = ModeActivePassive then
            let (sm, dm) = transitionWired now (ccName ch) StateDraining ReasonConfigChange (mgSM m, mgDM m)
            in m\<lparr>mgSM := sm, mgDM := dm\<rparr>
          else m
      | None \<Rightarrow> m)"

definition onReload :: "Time \<Rightarrow> Config \<Rightarrow> Config \<Rightarrow> Manager \<Rightarrow> Manager" where
  "onReload now oldCfg newCfg m =
     (let changes = DiffClusters oldCfg newCfg
      in if changes = [] then m
         else (Reconfigure (Clusters newCfg) (fold (applyChange now newCfg) changes m))\<lparr>mgHasChecker := True\<rparr>)"

text \<open>A drain timer fires, with the callbacks of the coordinator.\<close>

definition timerFires :: "Time \<Rightarrow> nat \<Rightarrow> Manager \<Rightarrow> Manager" where
  "timerFires now i m =
     (let (_, dm, fired) = fireTimer i (mgDM m);
          (sm, dm) = runDrainCallbacks now fired (mgSM m, dm)
      in m\<lparr>mgSM := sm, mgDM := dm\<rparr>)"

text \<open>
  The steps of the running system, in any order: a sync with any health snapshot, a reload
  between any two configurations, a due drain timer, and clients that come and go.
\<close>

inductive dr_step :: "Manager \<Rightarrow> Manager \<Rightarrow> bool" where
  sync: "dr_step m (sync now healthMap bus m)"
| reload: "dr_step m (onReload now oldCfg newCfg m)"
| timer: "dmTimers (mgDM m) i = Some tf \<Longrightarrow> tfDeadline tf \<le> now \<Longrightarrow> dr_step m (timerFires now i m)"
| register: "dr_step m (m\<lparr>mgDM := snd (Register c conn (fst (TargetForRouting (mgSM m) (mgDM m) (Some (mgControllers m)) c)) (mgDM m))\<rparr>)"
| unregister: "dr_step m (m\<lparr>mgDM := Unregister c i (mgDM m)\<rparr>)"

inductive dr_reach :: "Config \<Rightarrow> Manager \<Rightarrow> bool" for cfg where
  start: "dr_reach cfg (startup cfg)"
| step: "dr_reach cfg m \<Longrightarrow> dr_step m m' \<Longrightarrow> dr_reach cfg m'"

section \<open>The invariant\<close>

text \<open>
  The callbacks are those of \<open>Wire\<close>, the timers belong to drains, no BU is in a state outside
  the graph, and every BU in DRAINING has a drain with a real destination.
\<close>

definition dr_inv :: "sm_callback StateMachine \<times> dm_callback DrainManager \<Rightarrow> bool" where
  "dr_inv = (\<lambda>(sm, dm). callbacks sm = [WireStartDrain] \<and> drainCompleteCallbacks dm = [WireDrainComplete]
     \<and> timers_inv dm \<and> (\<forall>bu s. entries sm bu \<noteq> Some (StateOther s))
     \<and> (\<forall>bu. SM_State sm bu = StateDraining \<longrightarrow>
          (\<exists>d. drains dm bu = Some d \<and> NewActive d \<in> {ActivePrimary, ActiveSecondary})))"

lemma timers_inv_cong:
  "drains dm' = drains dm \<Longrightarrow> dmTimers dm' = dmTimers dm \<Longrightarrow> dmNextTimer dm' = dmNextTimer dm \<Longrightarrow>
     timers_inv dm' = timers_inv dm"
  by (simp add: timers_inv_def)

lemma dr_inv_conns:
  assumes "dr_inv (sm, dm)" and "drains dm' = drains dm" and "dmTimers dm' = dmTimers dm"
    and "dmNextTimer dm' = dmNextTimer dm" and "drainCompleteCallbacks dm' = drainCompleteCallbacks dm"
  shows "dr_inv (sm, dm')"
  using assms timers_inv_cong [OF assms(2-4)] by (simp add: dr_inv_def)

lemma SM_Transition_cases:
  assumes "SM_Transition sm bu to reason = (err, sm', fired)"
  shows "(sm' = sm \<and> fired = []) \<or>
    (sm' = sm\<lparr>entries := (entries sm)(bu \<mapsto> to)\<rparr> \<and>
     (\<exists>frm. fired = fireCallbacks sm \<lparr>tBU = bu, tFrom = frm, tTo = to, tReason = reason\<rparr>))"
  using assms by (auto simp: SM_Transition_def split: option.splits if_splits)

lemma wireStateChange_drain:
  "wireStateChange now \<lparr>tBU = bu, tFrom = frm, tTo = StateDraining, tReason = r\<rparr> dm
     = StartDrain now bu (stateToTarget (BUState_string frm))
         (if frm = StatePrimary then ActiveSecondary else ActivePrimary) 0 dm"
  by (cases frm) (simp_all add: wireStateChange_def stateToTarget_def)

lemma StartDrain_callbacks [simp]:
  "drainCompleteCallbacks (StartDrain now c old new d dm) = drainCompleteCallbacks dm"
  by (simp add: StartDrain_def StopTimer_def Let_def split: option.splits)

lemma runStateCallbacks_inv:
  assumes inv: "dr_inv (sm, dm)" and t: "SM_Transition sm bu to reason = (err, sm', fired)"
    and to: "to \<in> {StatePrimary, StateSecondary, StateDraining, StateBothDown}"
  shows "dr_inv (sm', runStateCallbacks now fired dm)"
  using SM_Transition_cases [OF t]
proof (elim disjE conjE exE)
  assume "sm' = sm" "fired = []"
  then show ?thesis using inv by (simp add: runStateCallbacks_def)
next
  fix frm assume sm': "sm' = sm\<lparr>entries := (entries sm)(bu \<mapsto> to)\<rparr>"
    and fired: "fired = fireCallbacks sm \<lparr>tBU = bu, tFrom = frm, tTo = to, tReason = reason\<rparr>"
  have cb: "callbacks sm' = callbacks sm" by (simp add: sm')
  have st: "SM_State sm' bu' = (if bu' = bu then to else SM_State sm bu')" for bu' by (simp add: sm' SM_State_def)
  have dm': "runStateCallbacks now fired dm = wireStateChange now \<lparr>tBU = bu, tFrom = frm, tTo = to, tReason = reason\<rparr> dm"
    using inv by (simp add: fired fireCallbacks_def runStateCallbacks_def dr_inv_def)
  have no: "\<forall>bu s. entries sm' bu \<noteq> Some (StateOther s)" using inv to by (auto simp: sm' dr_inv_def)
  show ?thesis
  proof (cases "to = StateDraining")
    case False
    then show ?thesis using inv no unfolding dm' wireStateChange_def dr_inv_def by (simp add: st cb)
  next
    case True
    then show ?thesis using inv no unfolding dm' True wireStateChange_drain dr_inv_def
      by (simp add: st cb StartDrain_timers StartDrain_timers_inv)
  qed
qed

lemma transitionWired_inv:
  assumes "dr_inv (sm, dm)" and "to \<in> {StatePrimary, StateSecondary, StateDraining, StateBothDown}"
  shows "dr_inv (transitionWired now bu to reason (sm, dm))"
  using runStateCallbacks_inv [OF assms(1) _ assms(2)]
  by (cases "SM_Transition sm bu to reason") (simp add: transitionWired_def)

lemma Evaluate_transition:
  assumes "Evaluate now c sm = (a, c', sm', fired)"
  shows "(sm' = sm \<and> fired = []) \<or> (\<exists>to reason err. SM_Transition sm (ctBuName c) to reason = (err, sm', fired)
     \<and> to \<in> {StatePrimary, StateSecondary, StateDraining, StateBothDown})"
proof -
  have bu: "ctBuName (snd (canFailoverLocked now c)) = ctBuName c"
    by (simp add: canFailoverLocked_def Let_def)
  show ?thesis using assms bu
    by (force simp: Evaluate_def evaluateLocked_def enterBothDownLocked_def triggerFailoverLocked_def Let_def
        split: if_splits prod.splits)
qed

lemma syncOne_inv:
  assumes "dr_inv (mgSM m, mgDM m)"
  shows "dr_inv (mgSM (syncOne now hm bu m), mgDM (syncOne now hm bu m))"
proof (cases "mgControllers m bu = None \<or> hm bu = None")
  case True
  then show ?thesis using assms by (auto simp: syncOne_def split: option.splits)
next
  case False
  then obtain ctrl ch where c: "mgControllers m bu = Some ctrl" "hm bu = Some ch" by auto
  let ?c = "recordSnapshot now ''secondary'' (chSecondary ch) (recordSnapshot now ''primary'' (chPrimary ch) ctrl)"
  obtain a c' sm' fired where e: "Evaluate now ?c (mgSM m) = (a, c', sm', fired)" by (metis prod_cases4)
  have "dr_inv (sm', runStateCallbacks now fired (mgDM m))"
    using Evaluate_transition [OF e] runStateCallbacks_inv [OF assms] assms
    by (auto simp: runStateCallbacks_def)
  then show ?thesis by (simp add: syncOne_def c e Let_def)
qed

lemma sync_inv: "dr_inv (mgSM m, mgDM m) \<Longrightarrow> dr_inv (mgSM (sync now hm bus m), mgDM (sync now hm bus m))"
proof -
  assume "dr_inv (mgSM m, mgDM m)"
  then have "dr_inv (mgSM (fold (syncOne now hm) bus m), mgDM (fold (syncOne now hm) bus m))"
    by (induction bus arbitrary: m) (auto intro: syncOne_inv)
  then show ?thesis using \<open>dr_inv (mgSM m, mgDM m)\<close> by (simp add: sync_def)
qed

lemma applyChange_inv:
  assumes "dr_inv (mgSM m, mgDM m)"
  shows "dr_inv (mgSM (applyChange now cfg ch m), mgDM (applyChange now cfg ch m))"
  using transitionWired_inv [OF assms, of StateDraining now "ccName ch" ReasonConfigChange] assms
  by (auto simp: applyChange_def split: option.splits prod.splits)

lemma onReload_inv:
  assumes "dr_inv (mgSM m, mgDM m)"
  shows "dr_inv (mgSM (onReload now old new m), mgDM (onReload now old new m))"
proof -
  have "dr_inv (mgSM (fold (applyChange now new) chs m), mgDM (fold (applyChange now new) chs m))" for chs
    using assms by (induction chs arbitrary: m) (auto intro: applyChange_inv)
  then show ?thesis using assms by (simp add: onReload_def Reconfigure_def Let_def)
qed

text \<open>The firing of the timer of a drain: the drain ends, and a BU still in DRAINING leaves it.\<close>

lemma timerFires_effect:
  assumes inv: "dr_inv (sm, dm)" and tf: "dmTimers dm i = Some tf" and m: "mgSM m = sm" "mgDM m = dm"
  obtains d dm' closed where "drains dm (tfCluster tf) = Some d" "drainTimer d = i"
    "fireTimer i dm = (closed, dm', [(WireDrainComplete, tfCluster tf, tfOldActive tf, NewActive d)])"
    "drains dm' = (drains dm)(tfCluster tf := None)" "timers_inv dm'"
    "drainCompleteCallbacks dm' = [WireDrainComplete]" "mgDM (timerFires now i m) = dm'"
    "mgSM (timerFires now i m) = (if SM_State sm (tfCluster tf) = StateDraining
        then sm\<lparr>entries := (entries sm)(tfCluster tf \<mapsto>
               (if NewActive d = ActiveSecondary then StateSecondary else StatePrimary))\<rparr> else sm)"
proof -
  let ?bu = "tfCluster tf"
  have ti: "timers_inv dm" and cb: "drainCompleteCallbacks dm = [WireDrainComplete]" using inv by (simp_all add: dr_inv_def)
  obtain d where d: "drains dm ?bu = Some d" "drainTimer d = i" using timers_invD(3) [OF ti tf] by blast
  obtain closed dm' fired where f: "fireTimer i dm = (closed, dm', fired)" by (metis prod_cases3)
  then have fo: "forceCloseOld ?bu (tfOldActive tf) (StopTimer i dm) = (closed, dm', fired)" by (simp add: fireTimer_def tf)
  note g = forceCloseOld_drains [OF fo]
  have fired: "fired = [(WireDrainComplete, ?bu, tfOldActive tf, NewActive d)]"
    using g(5) d cb by (simp add: fireDrainComplete_def StopTimer_def)
  have dr: "drains dm' = (drains dm)(?bu := None)" and cb': "drainCompleteCallbacks dm' = [WireDrainComplete]"
    using g(1,4) cb by (simp_all add: StopTimer_def)
  have ti': "timers_inv dm'" using fireTimer_timers_inv [OF ti f] .
  let ?to = "if NewActive d = ActiveSecondary then StateSecondary else StatePrimary"
  have w: "wireDrainComplete now (?bu, tfOldActive tf, NewActive d) (sm, dm')
      = (if SM_State sm ?bu = StateDraining then (sm\<lparr>entries := (entries sm)(?bu \<mapsto> ?to)\<rparr>, dm') else (sm, dm'))"
  proof (cases "SM_State sm ?bu = StateDraining")
    case False
    then show ?thesis by (simp add: wireDrainComplete_def)
  next
    case True
    then have e: "entries sm ?bu = Some StateDraining" by (simp add: SM_State_def split: option.splits)
    have na: "NewActive d \<in> {ActivePrimary, ActiveSecondary}" using inv True d by (force simp: dr_inv_def)
    have "transitionWired now ?bu ?to ReasonDrainComplete (sm, dm') = (sm\<lparr>entries := (entries sm)(?bu \<mapsto> ?to)\<rparr>, dm')"
      using SM_Transition_known [OF e, of ?to ReasonDrainComplete] inv
      by (simp add: transitionWired_def runStateCallbacks_def fireCallbacks_def wireStateChange_def dr_inv_def)
    then show ?thesis using True na by (auto simp: wireDrainComplete_def)
  qed
  have "mgDM (timerFires now i m) = dm'"
    "mgSM (timerFires now i m) = (if SM_State sm ?bu = StateDraining then sm\<lparr>entries := (entries sm)(?bu \<mapsto> ?to)\<rparr> else sm)"
    using w by (simp_all add: timerFires_def m f fired runDrainCallbacks_def)
  with d f fired dr ti' cb' show thesis by (intro that) simp_all
qed

lemma timerFires_inv:
  assumes inv: "dr_inv (mgSM m, mgDM m)" and tf: "dmTimers (mgDM m) i = Some tf"
  shows "dr_inv (mgSM (timerFires now i m), mgDM (timerFires now i m))"
proof (rule timerFires_effect [OF inv tf refl refl, of now])
  fix d dm' closed
  let ?sm = "mgSM (timerFires now i m)"
  assume dr: "drains dm' = (drains (mgDM m))(tfCluster tf := None)" and ti: "timers_inv dm'"
    and cb: "drainCompleteCallbacks dm' = [WireDrainComplete]" and dm: "mgDM (timerFires now i m) = dm'"
    and sm: "?sm = (if SM_State (mgSM m) (tfCluster tf) = StateDraining
        then (mgSM m)\<lparr>entries := (entries (mgSM m))(tfCluster tf \<mapsto>
               (if NewActive d = ActiveSecondary then StateSecondary else StatePrimary))\<rparr> else mgSM m)"
  have "bu \<noteq> tfCluster tf \<and> SM_State (mgSM m) bu = StateDraining" if "SM_State ?sm bu = StateDraining" for bu
    using that by (auto simp: sm SM_State_def split: if_splits option.splits)
  then have "\<forall>bu. SM_State ?sm bu = StateDraining \<longrightarrow>
      (\<exists>d. drains dm' bu = Some d \<and> NewActive d \<in> {ActivePrimary, ActiveSecondary})"
    using inv by (simp add: dr dr_inv_def)
  moreover have "callbacks ?sm = callbacks (mgSM m)" by (simp add: sm)
  moreover have "\<forall>bu s. entries ?sm bu \<noteq> Some (StateOther s)" using inv by (auto simp: sm dr_inv_def)
  ultimately show ?thesis using inv ti cb by (simp add: dm dr_inv_def)
qed

lemma initStates_ok:
  assumes "\<forall>bu. entries sm bu \<in> {None, Some StatePrimary, Some StateSecondary}"
  shows "(\<forall>bu. entries (initStates cs sm) bu \<in> {None, Some StatePrimary, Some StateSecondary})
     \<and> callbacks (initStates cs sm) = callbacks sm"
  using assms
proof (induction cs arbitrary: sm)
  case Nil
  then show ?case by (simp add: initStates_def)
next
  case (Cons x cs)
  obtain n c where x: "x = (n, c)" by (cases x)
  let ?sm = "if Mode c \<noteq> ModeActivePassive then sm else snd (Initialize sm n (initialState c))"
  have "\<forall>bu. entries ?sm bu \<in> {None, Some StatePrimary, Some StateSecondary}" "callbacks ?sm = callbacks sm"
    using Cons.prems by (auto simp: Initialize_def initialState_def)
  moreover have "initStates (x # cs) sm = initStates cs ?sm" by (simp add: initStates_def x)
  ultimately show ?case using Cons.IH [of ?sm] by simp
qed

lemma startup_inv: "dr_inv (mgSM (startup cfg), mgDM (startup cfg))"
proof -
  let ?sm = "initStates (Clusters cfg) NewStateMachine :: sm_callback StateMachine"
  have s: "\<forall>bu. entries ?sm bu \<in> {None, Some StatePrimary, Some StateSecondary}" "callbacks ?sm = []"
    using initStates_ok [of "NewStateMachine :: sm_callback StateMachine" "Clusters cfg"] by (simp_all add: NewStateMachine_def)
  have "entries ?sm bu \<noteq> Some (StateOther x)" "SM_State ?sm bu \<noteq> StateDraining" for bu x
    using s(1) [rule_format, of bu] by (auto simp: SM_State_def split: option.splits)
  then show ?thesis using s(2)
    by (simp add: startup_def Wire_def NewManager_def Reconfigure_def dr_inv_def OnStateChange_def OnDrainComplete_def
        NewDrainManager_def timers_inv_def SM_State_def Let_def)
qed

definition mgr_inv :: "Manager \<Rightarrow> bool" where
  "mgr_inv m \<longleftrightarrow> dr_inv (mgSM m, mgDM m) \<and> mgHasDrainReader m"

lemma fold_keeps: "(\<And>x m. P m \<Longrightarrow> P (f x m)) \<Longrightarrow> P m \<Longrightarrow> P (fold f xs m)"
  by (induction xs arbitrary: m) auto

lemma drain_reader_kept:
  "mgHasDrainReader m \<Longrightarrow> mgHasDrainReader (sync now hm bus m)"
  "mgHasDrainReader m \<Longrightarrow> mgHasDrainReader (onReload now old new m)"
  "mgHasDrainReader m \<Longrightarrow> mgHasDrainReader (timerFires now i m)"
proof -
  have "mgHasDrainReader (syncOne now hm bu m)" if "mgHasDrainReader m" for bu m
    using that by (auto simp: syncOne_def Let_def split: option.splits prod.splits)
  then show "mgHasDrainReader m \<Longrightarrow> mgHasDrainReader (sync now hm bus m)"
    by (simp add: sync_def fold_keeps [of mgHasDrainReader])
  have "mgHasDrainReader (applyChange now new ch m)" if "mgHasDrainReader m" for ch m
    using that by (auto simp: applyChange_def split: option.splits prod.splits)
  then show "mgHasDrainReader m \<Longrightarrow> mgHasDrainReader (onReload now old new m)"
    by (simp add: onReload_def Reconfigure_def Let_def fold_keeps [of mgHasDrainReader])
  show "mgHasDrainReader m \<Longrightarrow> mgHasDrainReader (timerFires now i m)"
    by (simp add: timerFires_def split: prod.splits)
qed

lemma dr_step_inv: "dr_step m m' \<Longrightarrow> mgr_inv m \<Longrightarrow> mgr_inv m'"
proof (induction rule: dr_step.induct)
  case (register m c conn)
  then show ?case unfolding mgr_inv_def
    by (auto simp: Register_def Let_def intro: dr_inv_conns)
next
  case (unregister m c i)
  then show ?case unfolding mgr_inv_def
    by (auto simp: Unregister_def split: option.splits intro: dr_inv_conns)
qed (simp_all add: mgr_inv_def sync_inv onReload_inv timerFires_inv drain_reader_kept)

lemma dr_reach_inv: "dr_reach cfg m \<Longrightarrow> mgr_inv m"
proof (induction rule: dr_reach.induct)
  case start
  have "mgHasDrainReader (startup cfg)" by (simp add: startup_def Wire_def Let_def)
  then show ?case by (simp add: mgr_inv_def startup_inv)
next
  case (step m m')
  then show ?case by (blast intro: dr_step_inv)
qed

section \<open>Cold start\<close>

text \<open>A healthy snapshot of both endpoints, and \<open>n\<close> rounds of sync that see it.\<close>

definition all_healthy :: "ClusterHealth \<Rightarrow> bool" where
  "all_healthy ch \<longleftrightarrow> snHealthy (chPrimary ch) \<and> snHealthy (chSecondary ch)"

fun sync_rounds :: "(Time \<times> (string \<rightharpoonup> ClusterHealth)) list \<Rightarrow> string list \<Rightarrow> Manager \<Rightarrow> Manager" where
  "sync_rounds [] bus m = m"
| "sync_rounds ((now, hm) # rs) bus m = sync_rounds rs bus (sync now hm bus m)"

lemma recordSnapshot_both:
  assumes "snHealthy (chPrimary ch)" "snHealthy (chSecondary ch)"
  shows "recordSnapshot now ''secondary'' (chSecondary ch) (recordSnapshot now ''primary'' (chPrimary ch) c)
    = c\<lparr>ctPrimaryHealth := recordHealthy (controllerRT (ctHcCfg c)) (now, snLastCheckLatency (chPrimary ch)) (ctPrimaryHealth c),
        ctSecondaryHealth := recordHealthy (controllerRT (ctHcCfg c)) (now, snLastCheckLatency (chSecondary ch)) (ctSecondaryHealth c)\<rparr>"
  using assms by (simp add: recordSnapshot_def RecordHealthResult_def healthFor_def setHealthFor_def)

text \<open>A controller that has seen \<open>k\<close> good results for both clusters since it was created.\<close>

definition warming :: "int \<Rightarrow> string \<Rightarrow> Controller \<Rightarrow> bool" where
  "warming k bu c \<longleftrightarrow> ctBuName c = bu \<and> \<not> ctCircuitBroken c
     \<and> khConsecutiveSuccesses (ctPrimaryHealth c) = k \<and> khConsecutiveSuccesses (ctSecondaryHealth c) = k
     \<and> \<not> khHealthy (ctPrimaryHealth c) \<and> \<not> khHealthy (ctSecondaryHealth c)"

lemma warming_new: "warming 0 bu (NewController bu active mode hc)"
  by (simp add: warming_def NewController_def zero_health_def)

lemma syncOne_warming:
  fixes now :: Time
  assumes "mgHasChecker m" and "mgControllers m bu = Some c" and "hm bu = Some ch" and "all_healthy ch" and "warming k bu c"
    and "entries (mgSM m) bu = Some st" and "st \<in> {StatePrimary, StateSecondary, StateDraining, StateBothDown}"
  defines "m' \<equiv> syncOne now hm bu m"
  shows "mgHasChecker m'"
    and "k + 1 < controllerRT (ctHcCfg c) \<Longrightarrow>
      entries (mgSM m') bu = Some StateBothDown \<and> (\<exists>c'. mgControllers m' bu = Some c' \<and> warming (k + 1) bu c' \<and> ctHcCfg c' = ctHcCfg c)"
    and "controllerRT (ctHcCfg c) \<le> k + 1 \<Longrightarrow> st = StateBothDown \<Longrightarrow> entries (mgSM m') bu = Some StatePrimary"
proof -
  let ?c = "recordSnapshot now ''secondary'' (chSecondary ch) (recordSnapshot now ''primary'' (chPrimary ch) c)"
  obtain a c' sm' fired where e: "Evaluate now ?c (mgSM m) = (a, c', sm', fired)" by (metis prod_cases4)
  have m': "mgHasChecker m' = mgHasChecker m" "mgControllers m' bu = Some c'" "mgSM m' = sm'"
    by (simp_all add: m'_def syncOne_def assms(2,3) e Let_def)
  show "mgHasChecker m'" using assms(1) m' by simp
  have ah: "snHealthy (chPrimary ch)" "snHealthy (chSecondary ch)" using assms(4) by (simp_all add: all_healthy_def)
  note rs = recordSnapshot_both [OF ah, of now c]
  have bu: "ctBuName ?c = bu" "\<not> IsCircuitBroken ?c" "ctHcCfg ?c = ctHcCfg c"
    using assms(5) by (simp_all add: rs warming_def IsCircuitBroken_def)
  { assume k: "k + 1 < controllerRT (ctHcCfg c)"
    have w: "warming (k + 1) bu ?c" using assms(5) k by (simp add: warming_def rs kh.hyst_simps)
    then have dn: "\<not> PrimaryHealthy ?c" "\<not> SecondaryHealthy ?c"
      by (simp_all add: warming_def PrimaryHealthy_def SecondaryHealthy_def)
    show "entries (mgSM m') bu = Some StateBothDown
      \<and> (\<exists>c'. mgControllers m' bu = Some c' \<and> warming (k + 1) bu c' \<and> ctHcCfg c' = ctHcCfg c)"
    proof (cases "st = StateBothDown")
      case True
      then have "Evaluate now ?c (mgSM m) = (ActionNone, ?c, mgSM m, [])"
        using dn assms(6) bu by (simp add: Evaluate_def evaluateLocked_def PrimaryHealthy_def SecondaryHealthy_def SM_State_def)
      then show ?thesis using e m' w bu True assms(6) by simp
    next
      case False
      then show ?thesis
        using both_down_enters [OF dn bu(2), of "mgSM m" st now] e m' w bu assms(6,7)
        by (auto simp: warming_def)
    qed }
  { assume k: "controllerRT (ctHcCfg c) \<le> k + 1" and st: "st = StateBothDown"
    have "PrimaryHealthy ?c" using assms(5) k by (simp add: warming_def rs kh.hyst_simps PrimaryHealthy_def)
    then show "entries (mgSM m') bu = Some StatePrimary"
      using both_down_recovers [of ?c "mgSM m" now] bu e m' assms(6) st by simp }
qed

lemma sync_rounds_warming:
  assumes "mgHasChecker m" and "mgControllers m bu = Some c" and "warming k bu c" and "ctHcCfg c = hc"
    and "list_all (\<lambda>(now, hm). \<exists>ch. hm bu = Some ch \<and> all_healthy ch) rs" and "rs \<noteq> []"
    and "k + int (length rs) < controllerRT hc"
    and "entries (mgSM m) bu = Some st" and "st \<in> {StatePrimary, StateSecondary, StateDraining, StateBothDown}"
  shows "mgHasChecker (sync_rounds rs [bu] m) \<and> entries (mgSM (sync_rounds rs [bu] m)) bu = Some StateBothDown
    \<and> (\<exists>c'. mgControllers (sync_rounds rs [bu] m) bu = Some c' \<and> warming (k + int (length rs)) bu c' \<and> ctHcCfg c' = hc)"
  using assms
proof (induction rs arbitrary: m c k st)
  case Nil
  then show ?case by simp
next
  case (Cons r rs)
  obtain now hm where r: "r = (now, hm)" by (cases r)
  then obtain ch where ch: "hm bu = Some ch" "all_healthy ch" using Cons.prems(5) by auto
  let ?m = "syncOne now hm bu m"
  note w = syncOne_warming [where hm = hm and now = now and bu = bu, OF Cons.prems(1,2) ch Cons.prems(3,8,9)]
  have k: "k + 1 < controllerRT (ctHcCfg c)" using Cons.prems(4,7) by simp
  obtain c' where c': "mgControllers ?m bu = Some c'" "warming (k + 1) bu c'" "ctHcCfg c' = hc"
    using w(2) [OF k] Cons.prems(4) by auto
  have e: "entries (mgSM ?m) bu = Some StateBothDown" using w(2) [OF k] by simp
  have s: "sync_rounds (r # rs) [bu] m = sync_rounds rs [bu] ?m" using Cons.prems(1) by (simp add: r sync_def)
  show ?case
  proof (cases "rs = []")
    case True
    then show ?thesis using w(1) e c' unfolding s by simp
  next
    case False
    have "k + 1 + int (length rs) < controllerRT hc" using Cons.prems(7) by simp
    from Cons.IH [OF w(1) c'(1,2,3) _ False this e] Cons.prems(5)
    show ?thesis unfolding s by (simp add: add.assoc)
  qed
qed

section \<open>Properties\<close>

text \<open>
  C1. A drain always ends, at the destination it announced. In every state the wired system can
  reach through syncs with arbitrary health snapshots, reloads between arbitrary configurations,
  timers and client connections: a BU in DRAINING has a drain in progress whose timer is armed
  for that BU; new connections are routed to the drain's destination; when the timer is due its
  step is possible, and after it the BU is out of DRAINING, in the state of that destination,
  and routing is unchanged.
\<close>
theorem draining_resolves:
  assumes "dr_reach cfg m" and "SM_State (mgSM m) bu = StateDraining"
  shows "\<exists>d tf. DrainState (mgDM m) bu = Some d \<and> dmTimers (mgDM m) (drainTimer d) = Some tf \<and> tfCluster tf = bu
    \<and> NewActive d \<in> {ActivePrimary, ActiveSecondary}
    \<and> TargetForRouting (mgSM m) (mgDM m) look bu = (NewActive d, True)
    \<and> (\<forall>now \<ge> tfDeadline tf. let m' = timerFires now (drainTimer d) m in
         dr_step m m' \<and> SM_State (mgSM m') bu = (if NewActive d = ActiveSecondary then StateSecondary else StatePrimary)
         \<and> DrainState (mgDM m') bu = None
         \<and> TargetForRouting (mgSM m') (mgDM m') look bu = (NewActive d, True))"
proof -
  have inv: "dr_inv (mgSM m, mgDM m)" using dr_reach_inv [OF assms(1)] by (simp add: mgr_inv_def)
  then obtain d where d: "drains (mgDM m) bu = Some d" "NewActive d \<in> {ActivePrimary, ActiveSecondary}"
    using assms(2) by (auto simp: dr_inv_def)
  then obtain tf where tf: "dmTimers (mgDM m) (drainTimer d) = Some tf" "tfCluster tf = bu"
    using inv timers_invD(1) [of "mgDM m" bu d] by (auto simp: dr_inv_def)
  have t: "TargetForRouting (mgSM m) (mgDM m) look bu = (NewActive d, True)"
    using assms(2) d by (simp add: TargetForRouting_def DrainState_def)
  have "let m' = timerFires now (drainTimer d) m in
         dr_step m m' \<and> SM_State (mgSM m') bu = (if NewActive d = ActiveSecondary then StateSecondary else StatePrimary)
         \<and> DrainState (mgDM m') bu = None \<and> TargetForRouting (mgSM m') (mgDM m') look bu = (NewActive d, True)"
    if "tfDeadline tf \<le> now" for now
  proof (rule timerFires_effect [OF inv tf(1) refl refl, of now])
    fix e dm' closed
    assume "drains (mgDM m) (tfCluster tf) = Some e" "drains dm' = (drains (mgDM m))(tfCluster tf := None)"
      "mgDM (timerFires now (drainTimer d) m) = dm'"
      "mgSM (timerFires now (drainTimer d) m) = (if SM_State (mgSM m) (tfCluster tf) = StateDraining
        then (mgSM m)\<lparr>entries := (entries (mgSM m))(tfCluster tf \<mapsto>
               (if NewActive e = ActiveSecondary then StateSecondary else StatePrimary))\<rparr> else mgSM m)"
    then show ?thesis using dr_step.timer [OF tf(1) that] d tf(2) assms(2)
      by (auto simp: TargetForRouting_def DrainState_def SM_State_def)
  qed
  with d tf t show ?thesis by (auto simp: DrainState_def)
qed

text \<open>
The two places that name a BU's active cluster agree: in every reachable state, whenever
  the status API's \<open>EffectiveActive\<close> gives an answer it is the cluster to which the coordinator
  routes new connections, and it always gives one unless the BU is in BOTH\_DOWN.
\<close>
theorem effective_active_agrees:
  assumes "dr_reach cfg m"
  shows "(snd (EffectiveActive m bu) \<longrightarrow>
      EffectiveActive m bu = TargetForRouting (mgSM m) (mgDM m) (Some (mgControllers m)) bu)
    \<and> (SM_State (mgSM m) bu \<noteq> StateBothDown \<longrightarrow> snd (EffectiveActive m bu))"
proof -
  have inv: "dr_inv (mgSM m, mgDM m)" "mgHasDrainReader m" using dr_reach_inv [OF assms] by (simp_all add: mgr_inv_def)
  have "SM_State (mgSM m) bu \<noteq> StateOther s" for s
    using inv(1) by (auto simp: dr_inv_def SM_State_def split: option.splits)
  moreover have "\<exists>d. drains (mgDM m) bu = Some d" if "SM_State (mgSM m) bu = StateDraining"
    using inv(1) that by (auto simp: dr_inv_def)
  ultimately show ?thesis using inv(2)
    by (cases "SM_State (mgSM m) bu")
      (auto simp: EffectiveActive_def TargetForRouting_def DrainNewActive_def DrainState_def split: option.splits)
qed

lemma sync_rounds_append: "sync_rounds (xs @ ys) bus m = sync_rounds ys bus (sync_rounds xs bus m)"
  by (induction xs arbitrary: m) auto

definition failed_over_config :: Config where
  "failed_over_config = sample_config\<lparr>Clusters := [(''finance'', sample_finance\<lparr>Active := ''secondary''\<rparr>),
     (''logistics'', sample_logistics)]\<rparr>"

definition draining_manager :: Manager where
  "draining_manager = onReload 5 sample_config failed_over_config (startup sample_config)"

lemma draining_manager_reach: "dr_reach sample_config draining_manager"
  unfolding draining_manager_def by (rule dr_reach.step [OF dr_reach.start]) (rule dr_step.reload)

lemma draining_manager_state: "SM_State (mgSM draining_manager) ''finance'' = StateDraining"
  by code_simp

theorem draining_resolves_witness:
  "\<exists>d. DrainState (mgDM draining_manager) ''finance'' = Some d
     \<and> TargetForRouting (mgSM draining_manager) (mgDM draining_manager) None ''finance'' = (NewActive d, True)"
  using draining_resolves [OF draining_manager_reach draining_manager_state, of None] by blast

theorem effective_active_agrees_witness:
  "EffectiveActive draining_manager ''finance''
     = TargetForRouting (mgSM draining_manager) (mgDM draining_manager) (Some (mgControllers draining_manager)) ''finance''"
  using effective_active_agrees [OF draining_manager_reach, of "''finance''"] draining_manager_state by simp

text \<open>
  C36. The cold start. A freshly created controller (at start-up and after every reload that
  changes a cluster) considers both clusters unhealthy until it has seen \<open>recovery_threshold\<close>
  good results. With a threshold of at least two and both clusters healthy all along, the first
  sync therefore puts the BU into BOTH\_DOWN, it stays there through the following syncs, and
  the one that reaches the threshold moves it to PRIMARIO, also when it was on the secondary.
\<close>
theorem cold_start_detour:
  assumes "mgHasChecker m" and "mgControllers m bu = Some (NewController bu active mode hc)"
    and "entries (mgSM m) bu = Some st" and "st \<in> {StatePrimary, StateSecondary, StateDraining}"
    and "2 \<le> controllerRT hc" and "int (length rs) = controllerRT hc"
    and "list_all (\<lambda>(now, hm). \<exists>ch. hm bu = Some ch \<and> all_healthy ch) rs"
  shows "(\<forall>n. 0 < n \<and> n < length rs \<longrightarrow> entries (mgSM (sync_rounds (take n rs) [bu] m)) bu = Some StateBothDown)
    \<and> entries (mgSM (sync_rounds rs [bu] m)) bu = Some StatePrimary"
proof -
  let ?c = "NewController bu active mode hc"
  have hc: "ctHcCfg ?c = hc" by (simp add: NewController_def)
  have warm: "mgHasChecker (sync_rounds (take n rs) [bu] m)
      \<and> entries (mgSM (sync_rounds (take n rs) [bu] m)) bu = Some StateBothDown
      \<and> (\<exists>c'. mgControllers (sync_rounds (take n rs) [bu] m) bu = Some c' \<and> warming (0 + int (length (take n rs))) bu c' \<and> ctHcCfg c' = hc)"
    if n: "0 < n" "n < length rs" for n
  proof (rule sync_rounds_warming [OF assms(1,2) warming_new hc])
    show "list_all (\<lambda>(now, hm). \<exists>ch. hm bu = Some ch \<and> all_healthy ch) (take n rs)"
      using assms(7) by (auto simp: list_all_iff dest: in_set_takeD)
    show "take n rs \<noteq> []" "0 + int (length (take n rs)) < controllerRT hc" using n assms(6) by auto
    show "entries (mgSM m) bu = Some st" "st \<in> {StatePrimary, StateSecondary, StateDraining, StateBothDown}"
      using assms(3,4) by auto
  qed
  obtain xs now hm where rs: "rs = xs @ [(now, hm)]" using assms(5,6) by (cases rs rule: rev_cases) auto
  let ?m = "sync_rounds xs [bu] m"
  have len: "0 < length xs" "length xs < length rs" using assms(5,6) rs by auto
  obtain c' where c': "mgHasChecker ?m" "entries (mgSM ?m) bu = Some StateBothDown" "mgControllers ?m bu = Some c'"
      "warming (int (length xs)) bu c'" "ctHcCfg c' = hc"
    using warm [OF len] rs by auto
  obtain ch where ch: "hm bu = Some ch" "all_healthy ch" using assms(7) rs by auto
  have "entries (mgSM (syncOne now hm bu ?m)) bu = Some StatePrimary"
    using syncOne_warming(3) [where hm = hm and bu = bu, OF c'(1,3) ch c'(4,2)] assms(6) rs c'(5) by simp
  then have "entries (mgSM (sync_rounds rs [bu] m)) bu = Some StatePrimary"
    using c'(1) by (simp add: rs sync_rounds_append sync_def)
  with warm show ?thesis by blast
qed

definition healthy_map :: "string \<rightharpoonup> ClusterHealth" where
  "healthy_map = [''finance'' \<mapsto> \<lparr>chName = ''finance'',
     chPrimary = HealthState_Snapshot (NewHealthState 1 ''k1:9092''),
     chSecondary = HealthState_Snapshot (NewHealthState 1 ''k2:9092'')\<rparr>]"

theorem cold_start_detour_witness:
  "entries (mgSM (sync_rounds [(10, healthy_map)] [''finance''] (startup failed_over_config))) ''finance'' = Some StateBothDown
   \<and> entries (mgSM (sync_rounds [(10, healthy_map), (11, healthy_map)] [''finance''] (startup failed_over_config))) ''finance''
       = Some StatePrimary"
proof -
  let ?m = "startup failed_over_config"
  have h: "\<exists>ch. healthy_map ''finance'' = Some ch \<and> all_healthy ch"
    by (simp add: healthy_map_def all_healthy_def HealthState_Snapshot_def NewHealthState_def)
  have m: "mgHasChecker ?m" "entries (mgSM ?m) ''finance'' = Some StateSecondary"
    by (code_simp, code_simp)
  have c: "mgControllers ?m ''finance'' = Some (NewController ''finance'' ''secondary'' ''active_passive'' sample_hc)"
    by (simp add: startup_def Wire_def Let_def NewManager_def Reconfigure_def failed_over_config_def
        sample_finance_def sample_logistics_def mode_defs) (simp add: sample_hc_def)
  have "controllerRT sample_hc = 2" by (simp add: controllerRT_def sample_hc_def)
  with cold_start_detour [OF m(1) c m(2), of "[(10, healthy_map), (11, healthy_map)]"] h
  show ?thesis by (auto simp del: sync_rounds.simps)
qed

text \<open>
  C35. Aborting a drain does not disarm it. When the controller takes a BU out of DRAINING
  because the cluster being drained recovered, the drain manager is not told: the drain and its
  timer stay, and when the timer fires it closes every tracked connection on the drain's old
  cluster, including those opened after the abort.
\<close>
theorem aborted_drain_still_closes:
  assumes "dr_reach cfg m" and "SM_State (mgSM m) bu = StateDraining" and "DrainState (mgDM m) bu = Some d"
    and "transitionWired now bu to ReasonRecovery (mgSM m, mgDM m) = (sm', dm')"
    and "to \<in> {StatePrimary, StateSecondary}"
  shows "SM_State sm' bu = to \<and> DrainState dm' bu = Some d
    \<and> (\<forall>conn. conn \<in> set (fst (fireTimer (drainTimer d) (snd (Register bu conn (OldActive d) dm')))))"
proof -
  have inv: "dr_inv (mgSM m, mgDM m)" using dr_reach_inv [OF assms(1)] by (simp add: mgr_inv_def)
  have e: "entries (mgSM m) bu = Some StateDraining" using assms(2) by (simp add: SM_State_def split: option.splits)
  have "isValidTransition StateDraining to" using assms(5) by auto
  from SM_Transition_known [OF e this, of ReasonRecovery] inv assms(4,5)
  have r: "sm' = (mgSM m)\<lparr>entries := (entries (mgSM m))(bu \<mapsto> to)\<rparr>" "dm' = mgDM m"
    by (auto simp: transitionWired_def runStateCallbacks_def fireCallbacks_def wireStateChange_def dr_inv_def)
  have d: "drains dm' bu = Some d" using assms(3) r by (simp add: DrainState_def)
  obtain tf where tf: "dmTimers dm' (drainTimer d) = Some tf" "tfCluster tf = bu" "tfOldActive tf = OldActive d"
    using inv timers_invD(1) [of dm' bu d] d r by (auto simp: dr_inv_def)
  have "conn \<in> set (fst (fireTimer (drainTimer d) (snd (Register bu conn (OldActive d) dm'))))" for conn
    using tf by (simp add: fireTimer_def Register_def trackConn_def StopTimer_def forceCloseOld_def Let_def)
  then show ?thesis using r d by (simp add: SM_State_def DrainState_def)
qed

theorem aborted_drain_still_closes_witness:
  "\<exists>d. DrainState (mgDM draining_manager) ''finance'' = Some d \<and> 7 \<in> set (fst (fireTimer (drainTimer d)
     (snd (Register ''finance'' 7 (OldActive d)
        (snd (transitionWired 9 ''finance'' StatePrimary ReasonRecovery (mgSM draining_manager, mgDM draining_manager)))))))"
proof -
  obtain sm' dm' where t: "transitionWired 9 ''finance'' StatePrimary ReasonRecovery
      (mgSM draining_manager, mgDM draining_manager) = (sm', dm')" by fastforce
  have "DrainState (mgDM draining_manager) ''finance'' \<noteq> None" by code_simp
  then obtain d where "DrainState (mgDM draining_manager) ''finance'' = Some d" by auto
  then show ?thesis
    using aborted_drain_still_closes [OF draining_manager_reach draining_manager_state _ t] t by simp
qed

section \<open>Both clusters down\<close>

lemma both_down_target:
  assumes "entries sm' bu = Some StateBothDown" and "BothDownActiveCluster c' = remembered active st"
    and "st \<in> {StatePrimary, StateSecondary, StateDraining}"
  shows "TargetForRouting sm' dm' (Some (look'(bu \<mapsto> c'))) bu =
    ((if st = StateDraining then (if active = ActivePrimary then ActiveSecondary else ActivePrimary)
      else if st = StatePrimary then ActivePrimary else ActiveSecondary), True)"
  using assms by (auto simp: TargetForRouting_def SM_State_def remembered_def)

text \<open>
  C7. BOTH\_DOWN never flaps, except out of a drain towards the configured cluster. When both
  clusters are unhealthy and the breaker is closed, one or more evaluations in a row leave a BU that
  was on a cluster or draining in BOTH\_DOWN; the transition happens once and is counted once; and the
  first evaluation after a cluster is healthy again moves the BU to it, the primary taking precedence.
  Meanwhile new connections of a BU that was on a cluster stay there. For a BU that was draining the
  code does not look at the drain: it remembers the opposite of the configured active cluster. New
  connections therefore keep going to the drain's destination exactly if the drain leads away from the
  configured cluster; in a drain back to it (a failback, or a change of the configuration) they return
  to the cluster that was being left.
\<close>
theorem both_down_never_flaps:
  assumes "\<not> PrimaryHealthy c" "\<not> SecondaryHealthy c" "\<not> IsCircuitBroken c"
    and "entries sm (ctBuName c) = Some st" and "st \<in> {StatePrimary, StateSecondary, StateDraining}"
    and "evaluate_all (now # ts) c sm = (c', sm', fired)"
  defines "bu \<equiv> ctBuName c"
  shows "entries sm' = (entries sm)(bu \<mapsto> StateBothDown)
    \<and> fired = fireCallbacks sm \<lparr>tBU = bu, tFrom = st, tTo = StateBothDown, tReason = ReasonHealthEvent\<rparr>
    \<and> BothDownCount c' = BothDownCount c + 1
    \<and> (\<forall>later ok1 ok2. ok1 \<or> ok2 \<longrightarrow>
         entries (fst (snd (snd (Evaluate later (c'\<lparr>ctPrimaryHealth := (ctPrimaryHealth c')\<lparr>khHealthy := ok1\<rparr>,
           ctSecondaryHealth := (ctSecondaryHealth c')\<lparr>khHealthy := ok2\<rparr>\<rparr>) sm'))))
         = (entries sm)(bu \<mapsto> (if ok1 then StatePrimary else StateSecondary)))
    \<and> (st \<noteq> StateDraining \<longrightarrow>
         TargetForRouting sm' dm' (Some (look'(bu \<mapsto> c'))) bu = TargetForRouting sm dm look bu)
    \<and> (st = StateDraining \<longrightarrow> ctActive c \<in> {ActivePrimary, ActiveSecondary} \<longrightarrow>
         (\<forall>d. drains dm bu = Some d \<and> NewActive d \<in> {ActivePrimary, ActiveSecondary} \<longrightarrow>
            TargetForRouting sm dm look bu = (NewActive d, True)
          \<and> fst (TargetForRouting sm' dm' (Some (look'(bu \<mapsto> c'))) bu) \<in> {ActivePrimary, ActiveSecondary} - {ctActive c}
          \<and> (TargetForRouting sm' dm' (Some (look'(bu \<mapsto> c'))) bu = TargetForRouting sm dm look bu \<longleftrightarrow> NewActive d \<noteq> ctActive c)))"
proof -
  note r = both_down_run [OF assms(1-6)]
  have e: "entries sm' bu = Some StateBothDown" and a: "BothDownActiveCluster c' = remembered (ctActive c) st"
    using r by (simp_all add: bu_def)
  note t = both_down_target [OF e a assms(5), of dm' look']
  have "st \<noteq> StateDraining \<longrightarrow> TargetForRouting sm' dm' (Some (look'(bu \<mapsto> c'))) bu = TargetForRouting sm dm look bu"
    unfolding t using assms(4,5) by (auto simp: TargetForRouting_def SM_State_def bu_def)
  moreover have "TargetForRouting sm dm look bu = (NewActive d, True)" if "st = StateDraining" "drains dm bu = Some d" for d
    using that assms(4) by (simp add: TargetForRouting_def SM_State_def DrainState_def bu_def)
  ultimately show ?thesis using r unfolding t by (auto simp: bu_def)
qed

text \<open>A drain back to the configured primary, with a fresh controller: new connections return to the secondary.\<close>

theorem both_down_never_flaps_witness:
  "let c = NewController ''finance'' ''primary'' ''active_passive'' sample_hc;
       sm = \<lparr>entries = [''finance'' \<mapsto> StateDraining], callbacks = [WireStartDrain]\<rparr>;
       dm = (NewDrainManager 0)\<lparr>drains := [''finance'' \<mapsto> \<lparr>OldActive = ActiveSecondary, NewActive = ActivePrimary, StartedAt = 0, drainTimer = 0\<rparr>]\<rparr>
   in \<exists>c' sm' fired. evaluate_all [1, 2, 3] c sm = (c', sm', fired)
      \<and> TargetForRouting sm dm (Some [''finance'' \<mapsto> c]) ''finance'' = (ActivePrimary, True)
      \<and> TargetForRouting sm' dm (Some (Map.empty(''finance'' \<mapsto> c'))) ''finance'' \<noteq> (ActivePrimary, True)"
proof -
  let ?c = "NewController ''finance'' ''primary'' ''active_passive'' sample_hc"
  let ?sm = "\<lparr>entries = [''finance'' \<mapsto> StateDraining], callbacks = [WireStartDrain]\<rparr> :: sm_callback StateMachine"
  let ?d = "\<lparr>OldActive = ActiveSecondary, NewActive = ActivePrimary, StartedAt = 0, drainTimer = 0\<rparr>"
  let ?dm = "(NewDrainManager 0 :: dm_callback DrainManager)\<lparr>drains := [''finance'' \<mapsto> ?d]\<rparr>"
  obtain c' sm' fired where e: "evaluate_all [1, 2, 3] ?c ?sm = (c', sm', fired)" by (metis prod_cases3)
  have h: "\<not> PrimaryHealthy ?c" "\<not> SecondaryHealthy ?c" "\<not> IsCircuitBroken ?c" "ctBuName ?c = ''finance''" "ctActive ?c = ActivePrimary"
    by (simp_all add: NewController_def zero_health_def IsCircuitBroken_def PrimaryHealthy_def SecondaryHealthy_def ActivePrimary_def)
  have st: "entries ?sm (ctBuName ?c) = Some StateDraining" by (simp add: h(4))
  have d: "drains ?dm ''finance'' = Some ?d" by simp
  have "TargetForRouting ?sm ?dm (Some [''finance'' \<mapsto> ?c]) ''finance'' = (ActivePrimary, True)
      \<and> TargetForRouting sm' ?dm (Some (Map.empty(''finance'' \<mapsto> c'))) ''finance'' \<noteq> (ActivePrimary, True)"
    using both_down_never_flaps [OF h(1-3) st _ e, of ?dm Map.empty ?dm "Some [''finance'' \<mapsto> ?c]"] d h(4,5) by auto
  then show ?thesis using e unfolding Let_def by blast
qed

end
