(* ===== verification/Rebalancer.thy ===== *)
theory Rebalancer
  imports Config Sliding_Window
begin

text \<open>
  Asymmetric recovery of load-balanced clusters, \<^verbatim>\<open>internal/failover/rebalance.go\<close>: an endpoint
  goes down after a run of failures, recovers only after enough successes and enough uptime, and
  carries its weight only while it is up. Every method is a critical section and reads the clock
  as \<open>now\<close>; the roll of \<open>rand.Intn\<close> is an argument. A pointer to one of the two endpoints is
  the selector \<open>which\<close>.
\<close>

section \<open>State\<close>

datatype epStatus = StatusUp | StatusDown | StatusRecovering

record endpointState =
  epAddr :: string
  epStatus :: epStatus
  epUpSince :: Time
  epConsecutiveSuccess :: int
  epConsecutiveFailure :: int
  epOriginalWeight :: int
  epEffectiveWeight :: int

record Rebalancer =
  rbPrimary :: endpointState
  rbSecondary :: endpointState
  rbFailureThreshold :: int
  rbRecoveryThreshold :: int
  rbRecoveryMinUptime :: Duration
  rbMinTimeBetweenFailovers :: Duration
  rbCircuitBreakerMaxFailovers :: int
  rbCircuitBreakerWindow :: Duration
  rbFailoverHistory :: "Time list"
  rbLastFailoverAt :: "string \<rightharpoonup> Time"

definition newEndpoint :: "Time \<Rightarrow> ClusterEndpoint \<Rightarrow> endpointState" where
  "newEndpoint now e = \<lparr>epAddr = Bootstrap e, epStatus = StatusUp, epUpSince = now,
     epConsecutiveSuccess = 0, epConsecutiveFailure = 0, epOriginalWeight = Weight e, epEffectiveWeight = Weight e\<rparr>"

definition NewRebalancer :: "Time \<Rightarrow> ClusterConfig \<Rightarrow> Rebalancer" where
  "NewRebalancer now cfg =
     (let hc = HealthCheck cfg;
          ft = (if FailureThreshold hc \<le> 0 then 3 else FailureThreshold hc);
          rt = (if RecoveryThreshold hc \<le> 0 then 5 else RecoveryThreshold hc);
          rmu = (if RecoveryMinUptime hc \<le> 0 then 120 * second else RecoveryMinUptime hc)
      in \<lparr>rbPrimary = newEndpoint now (Primary cfg), rbSecondary = newEndpoint now (Secondary cfg),
          rbFailureThreshold = ft, rbRecoveryThreshold = rt, rbRecoveryMinUptime = rmu,
          rbMinTimeBetweenFailovers = MinTimeBetweenFailovers hc,
          rbCircuitBreakerMaxFailovers = CircuitBreakerMaxFailovers hc,
          rbCircuitBreakerWindow = CircuitBreakerWindow hc,
          rbFailoverHistory = [], rbLastFailoverAt = Map.empty\<rparr>)"

section \<open>Target selection\<close>

text \<open>The weights that \<open>SelectTarget\<close> rolls against.\<close>

definition rollWeights :: "Rebalancer \<Rightarrow> int \<times> int" where
  "rollWeights r =
     (let pw = epEffectiveWeight (rbPrimary r); sw = epEffectiveWeight (rbSecondary r)
      in if pw = 0 \<and> sw = 0 then (epOriginalWeight (rbPrimary r), epOriginalWeight (rbSecondary r)) else (pw, sw))"

text \<open>\<open>rand.Intn\<close> panics on a non-positive bound; \<open>roll\<close> is its result otherwise.\<close>

definition SelectTarget :: "int \<Rightarrow> Rebalancer \<Rightarrow> error + string" where
  "SelectTarget roll r =
     (let (pw, sw) = rollWeights r
      in if pw + sw = 0 then Inr (epAddr (rbPrimary r))
         else if pw + sw < 0 then Inl (Panic ''invalid argument to Intn'')
         else if roll < pw then Inr (epAddr (rbPrimary r)) else Inr (epAddr (rbSecondary r)))"

definition GetEffectiveWeight :: "Rebalancer \<Rightarrow> string \<Rightarrow> int" where
  "GetEffectiveWeight r name =
     (if name = ActivePrimary then epEffectiveWeight (rbPrimary r)
      else if name = ActiveSecondary then epEffectiveWeight (rbSecondary r) else - 1)"

definition Rebalancer_Status :: "Rebalancer \<Rightarrow> string \<Rightarrow> epStatus option" where
  "Rebalancer_Status r name =
     (if name = ActivePrimary then Some (epStatus (rbPrimary r))
      else if name = ActiveSecondary then Some (epStatus (rbSecondary r)) else None)"

section \<open>Transitions of an endpoint\<close>

datatype which = IsPrimary | IsSecondary

definition endpointFor :: "Rebalancer \<Rightarrow> string \<Rightarrow> which option" where
  "endpointFor r addr =
     (if epAddr (rbPrimary r) = addr then Some IsPrimary
      else if epAddr (rbSecondary r) = addr then Some IsSecondary else None)"

fun getEp :: "which \<Rightarrow> Rebalancer \<Rightarrow> endpointState" where
  "getEp IsPrimary r = rbPrimary r"
| "getEp IsSecondary r = rbSecondary r"

fun setEp :: "which \<Rightarrow> endpointState \<Rightarrow> Rebalancer \<Rightarrow> Rebalancer" where
  "setEp IsPrimary ep r = r\<lparr>rbPrimary := ep\<rparr>"
| "setEp IsSecondary ep r = r\<lparr>rbSecondary := ep\<rparr>"

fun filterHistory :: "Time \<Rightarrow> Time list \<Rightarrow> Time list" where
  "filterHistory cutoff [] = []"
| "filterHistory cutoff (t # ts) = (if cutoff < t then t # filterHistory cutoff ts else filterHistory cutoff ts)"

definition pruneFailoverHistory :: "Duration \<Rightarrow> Time \<Rightarrow> Time list \<Rightarrow> Time list" where
  "pruneFailoverHistory window now ts = filterHistory (now - window) ts"

definition promoteToUp :: "Time \<Rightarrow> which \<Rightarrow> Rebalancer \<Rightarrow> Rebalancer" where
  "promoteToUp now w r =
     (let ep = getEp w r;
          cooling = (0 < rbMinTimeBetweenFailovers r \<and>
            (case rbLastFailoverAt r (epAddr ep) of
               None \<Rightarrow> False | Some t \<Rightarrow> Since now t < rbMinTimeBetweenFailovers r));
          breaker = (0 < rbCircuitBreakerMaxFailovers r \<and> 0 < rbCircuitBreakerWindow r)
      in if cooling then r
         else
           let r = (if breaker
                    then r\<lparr>rbFailoverHistory := pruneFailoverHistory (rbCircuitBreakerWindow r) now (rbFailoverHistory r)\<rparr>
                    else r)
           in if breaker \<and> rbCircuitBreakerMaxFailovers r \<le> int (length (rbFailoverHistory r)) then r
              else setEp w (ep\<lparr>epStatus := StatusUp, epEffectiveWeight := epOriginalWeight ep,
                               epConsecutiveFailure := 0, epConsecutiveSuccess := 0\<rparr>) r)"

definition demoteToDown :: "Time \<Rightarrow> which \<Rightarrow> Rebalancer \<Rightarrow> Rebalancer" where
  "demoteToDown now w r =
     (let ep = getEp w r;
          r = setEp w (ep\<lparr>epStatus := StatusDown, epEffectiveWeight := 0, epConsecutiveSuccess := 0\<rparr>) r;
          r = r\<lparr>rbLastFailoverAt := (rbLastFailoverAt r)(epAddr ep \<mapsto> now)\<rparr>
      in if 0 < rbCircuitBreakerMaxFailovers r then r\<lparr>rbFailoverHistory := rbFailoverHistory r @ [now]\<rparr> else r)"

definition RB_RecordSuccess :: "Time \<Rightarrow> string \<Rightarrow> Rebalancer \<Rightarrow> Rebalancer" where
  "RB_RecordSuccess now addr r =
     (case endpointFor r addr of
        None \<Rightarrow> r
      | Some w \<Rightarrow>
          let ep = (getEp w r)\<lparr>epConsecutiveFailure := 0, epConsecutiveSuccess := epConsecutiveSuccess (getEp w r) + 1\<rparr>
          in case epStatus ep of
               StatusDown \<Rightarrow>
                 setEp w (ep\<lparr>epStatus := StatusRecovering, epConsecutiveSuccess := 1, epUpSince := now\<rparr>) r
             | StatusRecovering \<Rightarrow>
                 if rbRecoveryThreshold r \<le> epConsecutiveSuccess ep \<and> rbRecoveryMinUptime r \<le> Since now (epUpSince ep)
                 then promoteToUp now w (setEp w ep r) else setEp w ep r
             | StatusUp \<Rightarrow> setEp w ep r)"

definition RB_RecordFailure :: "Time \<Rightarrow> string \<Rightarrow> Rebalancer \<Rightarrow> Rebalancer" where
  "RB_RecordFailure now addr r =
     (case endpointFor r addr of
        None \<Rightarrow> r
      | Some w \<Rightarrow>
          let ep = (getEp w r)\<lparr>epConsecutiveSuccess := 0, epConsecutiveFailure := epConsecutiveFailure (getEp w r) + 1\<rparr>
          in case epStatus ep of
               StatusUp \<Rightarrow>
                 if rbFailureThreshold r \<le> epConsecutiveFailure ep then demoteToDown now w (setEp w ep r) else setEp w ep r
             | StatusRecovering \<Rightarrow>
                 setEp w (ep\<lparr>epStatus := StatusDown, epEffectiveWeight := 0, epConsecutiveSuccess := 0,
                             epConsecutiveFailure := 1\<rparr>) r
             | StatusDown \<Rightarrow> setEp w (ep\<lparr>epConsecutiveFailure := 1\<rparr>) r)"

section \<open>Lemmas\<close>

lemma filterHistory_eq: "filterHistory cutoff ts = filter (\<lambda>t. cutoff < t) ts"
  by (induction ts) auto

interpretation rw: sliding_window pruneFailoverHistory
  by unfold_locales (simp add: pruneFailoverHistory_def filterHistory_eq)

lemma getEp_setEp [simp]: "getEp w (setEp w' ep r) = (if w = w' then ep else getEp w r)"
  by (cases w; cases w') auto

lemma setEp_frame [simp]:
  "rbFailureThreshold (setEp w ep r) = rbFailureThreshold r"
  "rbRecoveryThreshold (setEp w ep r) = rbRecoveryThreshold r"
  "rbRecoveryMinUptime (setEp w ep r) = rbRecoveryMinUptime r"
  "rbMinTimeBetweenFailovers (setEp w ep r) = rbMinTimeBetweenFailovers r"
  "rbCircuitBreakerMaxFailovers (setEp w ep r) = rbCircuitBreakerMaxFailovers r"
  "rbCircuitBreakerWindow (setEp w ep r) = rbCircuitBreakerWindow r"
  "rbFailoverHistory (setEp w ep r) = rbFailoverHistory r"
  "rbLastFailoverAt (setEp w ep r) = rbLastFailoverAt r"
  by (cases w; simp)+

lemma getEp_frame [simp]:
  "getEp w (r\<lparr>rbFailoverHistory := h\<rparr>) = getEp w r" "getEp w (r\<lparr>rbLastFailoverAt := l\<rparr>) = getEp w r"
  by (cases w; simp)+

section \<open>Runs\<close>

type_synonym report = "Time \<times> string \<times> bool"

definition rb_report :: "report \<Rightarrow> Rebalancer \<Rightarrow> Rebalancer" where
  "rb_report = (\<lambda>(now, addr, ok) r. if ok then RB_RecordSuccess now addr r else RB_RecordFailure now addr r)"

definition rb_run :: "report list \<Rightarrow> Rebalancer \<Rightarrow> Rebalancer" where
  "rb_run reps r = fold rb_report reps r"

text \<open>What never changes: addresses, weights and parameters.\<close>

definition rb_params :: "Rebalancer \<Rightarrow> (string \<times> int) \<times> (string \<times> int) \<times> int \<times> int \<times> Duration \<times> Duration \<times> int \<times> Duration" where
  "rb_params r = ((epAddr (rbPrimary r), epOriginalWeight (rbPrimary r)), (epAddr (rbSecondary r), epOriginalWeight (rbSecondary r)),
     rbFailureThreshold r, rbRecoveryThreshold r, rbRecoveryMinUptime r, rbMinTimeBetweenFailovers r,
     rbCircuitBreakerMaxFailovers r, rbCircuitBreakerWindow r)"

lemma rb_params_setEp:
  "epAddr ep = epAddr (getEp w r) \<Longrightarrow> epOriginalWeight ep = epOriginalWeight (getEp w r) \<Longrightarrow>
     rb_params (setEp w ep r) = rb_params r"
  by (cases w) (simp_all add: rb_params_def)

lemma rb_params_upd [simp]:
  "rb_params (r\<lparr>rbFailoverHistory := h\<rparr>) = rb_params r" "rb_params (r\<lparr>rbLastFailoverAt := l\<rparr>) = rb_params r"
  by (simp_all add: rb_params_def)

lemmas rb_step_defs = rb_report_def RB_RecordSuccess_def RB_RecordFailure_def promoteToUp_def demoteToDown_def Let_def

lemma rb_report_params: "rb_params (rb_report rep r) = rb_params r"
  by (auto simp: rb_step_defs rb_params_setEp split: prod.splits option.splits epStatus.splits)

lemma rb_run_params: "rb_params (rb_run reps r) = rb_params r"
  by (induction reps arbitrary: r) (simp_all add: rb_run_def rb_report_params)

lemma endpointFor_params: "rb_params r = rb_params r' \<Longrightarrow> endpointFor r a = endpointFor r' a"
  by (simp add: rb_params_def endpointFor_def)

text \<open>The reports that concern one endpoint.\<close>

definition ep_trace :: "which \<Rightarrow> Rebalancer \<Rightarrow> report list \<Rightarrow> report list" where
  "ep_trace w r reps = filter (\<lambda>(_, a, _). endpointFor r a = Some w) reps"

definition ep_inv :: "Rebalancer \<Rightarrow> report list \<Rightarrow> which \<Rightarrow> bool" where
  "ep_inv r tr w \<longleftrightarrow>
     (let ep = getEp w r in
      epEffectiveWeight ep = (if epStatus ep = StatusUp then epOriginalWeight ep else 0)
      \<and> (epStatus ep = StatusRecovering \<longrightarrow> (\<exists>pre suf. tr = pre @ suf \<and> suf \<noteq> []
           \<and> list_all (\<lambda>(_, _, ok). ok) suf \<and> int (length suf) = epConsecutiveSuccess ep \<and> fst (hd suf) = epUpSince ep)))"

lemma ep_inv_other:
  assumes "endpointFor r a \<noteq> Some w" and "ep_inv r tr w"
  shows "ep_inv (rb_report (now, a, ok) r) tr w"
proof -
  have "getEp w (rb_report (now, a, ok) r) = getEp w r"
    using assms(1) by (auto simp: rb_step_defs split: option.splits epStatus.splits)
  then show ?thesis using assms(2) by (simp add: ep_inv_def)
qed

lemma ep_inv_success:
  assumes "endpointFor r a = Some w" and "ep_inv r tr w"
  shows "ep_inv (rb_report (now, a, True) r) (tr @ [(now, a, True)]) w"
proof (cases "epStatus (getEp w r)")
  case StatusUp
  then show ?thesis using assms by (simp add: rb_step_defs ep_inv_def)
next
  case StatusDown
  have "\<exists>pre suf. tr @ [(now, a, True)] = pre @ suf \<and> suf \<noteq> [] \<and> list_all (\<lambda>(_, _, ok). ok) suf
      \<and> length suf = Suc 0 \<and> fst (hd suf) = now"
    by (intro exI [of _ tr] exI [of _ "[(now, a, True)]"]) simp
  then show ?thesis using assms StatusDown by (simp add: rb_step_defs ep_inv_def)
next
  case StatusRecovering
  then obtain pre suf where suf: "tr = pre @ suf" "suf \<noteq> []" "list_all (\<lambda>(_, _, ok). ok) suf"
      "int (length suf) = epConsecutiveSuccess (getEp w r)" "fst (hd suf) = epUpSince (getEp w r)"
    using assms(2) by (auto simp: ep_inv_def Let_def)
  have "\<exists>pre' suf'. tr @ [(now, a, True)] = pre' @ suf' \<and> suf' \<noteq> [] \<and> list_all (\<lambda>(_, _, ok). ok) suf'
      \<and> int (length suf') = epConsecutiveSuccess (getEp w r) + 1 \<and> fst (hd suf') = epUpSince (getEp w r)"
    using suf by (intro exI [of _ pre] exI [of _ "suf @ [(now, a, True)]"]) simp
  moreover have "epEffectiveWeight (getEp w r) = 0" using assms(2) StatusRecovering by (simp add: ep_inv_def Let_def)
  ultimately show ?thesis using assms(1) StatusRecovering by (simp add: rb_step_defs ep_inv_def)
qed

lemma ep_inv_failure:
  assumes "endpointFor r a = Some w" and "ep_inv r tr w"
  shows "ep_inv (rb_report (now, a, False) r) (tr @ [(now, a, False)]) w"
  using assms by (cases "epStatus (getEp w r)") (simp_all add: rb_step_defs ep_inv_def)

lemma rb_run_inv:
  assumes "r0 = NewRebalancer now0 cfg"
  shows "ep_inv (rb_run reps r0) (ep_trace w r0 reps) w"
proof (induction reps rule: rev_induct)
  case Nil
  show ?case by (cases w) (simp_all add: assms rb_run_def ep_inv_def NewRebalancer_def newEndpoint_def Let_def)
next
  case (snoc rep reps)
  obtain now a ok where rep: "rep = (now, a, ok)" by (cases rep)
  have e: "endpointFor (rb_run reps r0) a = endpointFor r0 a" by (rule endpointFor_params [OF rb_run_params])
  have s: "rb_run (reps @ [rep]) r0 = rb_report rep (rb_run reps r0)" by (simp add: rb_run_def)
  show ?case
  proof (cases "endpointFor r0 a = Some w")
    case False
    then show ?thesis unfolding s unfolding rep
      using ep_inv_other [of "rb_run reps r0" a w] snoc e by (simp add: ep_trace_def)
  next
    case True
    then show ?thesis unfolding s unfolding rep
      using ep_inv_success [of "rb_run reps r0" a w] ep_inv_failure [of "rb_run reps r0" a w] snoc e
      by (cases ok) (simp_all add: ep_trace_def)
  qed
qed

section \<open>Properties\<close>

text \<open>
  C27. Weights follow the health of the endpoints. After any sequence of reports to a rebalancer
  with non-negative weights that sum to 100: an endpoint's effective weight is its configured
  weight while it is up and zero otherwise; a target is always selected, without a panic, and it
  is one of the two addresses; while exactly one endpoint is up and has weight, every roll
  selects it; and with both endpoints not up the configured weights decide.
\<close>
theorem weights_follow_health:
  fixes reps :: "report list" and now :: Time
  assumes "0 \<le> Weight (Primary cfg)" and "0 \<le> Weight (Secondary cfg)"
    and "Weight (Primary cfg) + Weight (Secondary cfg) = 100"
  defines "r \<equiv> rb_run reps (NewRebalancer now cfg)"
  shows "GetEffectiveWeight r ''primary'' = (if Rebalancer_Status r ''primary'' = Some StatusUp then Weight (Primary cfg) else 0)
    \<and> GetEffectiveWeight r ''secondary'' = (if Rebalancer_Status r ''secondary'' = Some StatusUp then Weight (Secondary cfg) else 0)
    \<and> (\<forall>roll. SelectTarget roll r \<in> {Inr (Bootstrap (Primary cfg)), Inr (Bootstrap (Secondary cfg))})
    \<and> (\<forall>roll. Rebalancer_Status r ''primary'' = Some StatusUp \<and> Rebalancer_Status r ''secondary'' \<noteq> Some StatusUp
         \<and> 0 < Weight (Primary cfg) \<and> roll < fst (rollWeights r) + snd (rollWeights r)
         \<longrightarrow> SelectTarget roll r = Inr (Bootstrap (Primary cfg)))
    \<and> (\<forall>roll. Rebalancer_Status r ''secondary'' = Some StatusUp \<and> Rebalancer_Status r ''primary'' \<noteq> Some StatusUp
         \<and> 0 < Weight (Secondary cfg) \<and> 0 \<le> roll \<longrightarrow> SelectTarget roll r = Inr (Bootstrap (Secondary cfg)))
    \<and> (Rebalancer_Status r ''primary'' \<noteq> Some StatusUp \<and> Rebalancer_Status r ''secondary'' \<noteq> Some StatusUp
         \<longrightarrow> rollWeights r = (Weight (Primary cfg), Weight (Secondary cfg)))"
proof -
  let ?r0 = "NewRebalancer now cfg"
  have "rb_params r = rb_params ?r0" unfolding r_def by (rule rb_run_params)
  then have par: "epAddr (rbPrimary r) = Bootstrap (Primary cfg)" "epAddr (rbSecondary r) = Bootstrap (Secondary cfg)"
    "epOriginalWeight (rbPrimary r) = Weight (Primary cfg)" "epOriginalWeight (rbSecondary r) = Weight (Secondary cfg)"
    by (simp_all add: rb_params_def NewRebalancer_def newEndpoint_def Let_def)
  have "epEffectiveWeight (getEp w r) = (if epStatus (getEp w r) = StatusUp then epOriginalWeight (getEp w r) else 0)" for w
    using rb_run_inv [OF refl, of reps now cfg w] by (simp add: r_def ep_inv_def Let_def)
  from this [of IsPrimary] this [of IsSecondary] par
  have ew: "epEffectiveWeight (rbPrimary r) = (if epStatus (rbPrimary r) = StatusUp then Weight (Primary cfg) else 0)"
    "epEffectiveWeight (rbSecondary r) = (if epStatus (rbSecondary r) = StatusUp then Weight (Secondary cfg) else 0)"
    by simp_all
  show ?thesis using assms(1-3) par
    by (simp add: GetEffectiveWeight_def Rebalancer_Status_def ActivePrimary_def ActiveSecondary_def
        SelectTarget_def rollWeights_def Let_def ew)
qed

theorem weights_follow_health_witness:
  "GetEffectiveWeight (rb_run [(5, ''k2:9092'', False), (6, ''k2:9092'', False), (7, ''k2:9092'', False)]
     (NewRebalancer 1 (sample_logistics\<lparr>Primary := \<lparr>Bootstrap = ''k1:9092'', Weight = 70\<rparr>\<rparr>))) ''secondary'' \<in> {0, 30}"
  using weights_follow_health [of "sample_logistics\<lparr>Primary := \<lparr>Bootstrap = ''k1:9092'', Weight = 70\<rparr>\<rparr>"
      "[(5, ''k2:9092'', False), (6, ''k2:9092'', False), (7, ''k2:9092'', False)]" 1]
  by (simp add: sample_logistics_def)

text \<open>
  Recovery is asymmetric. Whenever a report brings an endpoint back up, in any run, the
  endpoint's own reports end in an unbroken series of at least \<open>recovery_threshold\<close> successes
  that started at least \<open>recovery_min_uptime\<close> before, its last demotion is at least the
  failover cooldown ago, and fewer than the allowed number of demotions lie in the circuit
  breaker's window.
\<close>
theorem recovery_is_asymmetric:
  fixes reps :: "report list" and now now0 :: Time and cfg :: ClusterConfig
  defines "r \<equiv> rb_run reps (NewRebalancer now0 cfg)"
  assumes "endpointFor (NewRebalancer now0 cfg) a = Some w"
    and "epStatus (getEp w r) \<noteq> StatusUp" and "epStatus (getEp w (rb_report (now, a, ok) r)) = StatusUp"
  shows "(\<exists>pre suf. ep_trace w (NewRebalancer now0 cfg) (reps @ [(now, a, ok)]) = pre @ suf
      \<and> list_all (\<lambda>(_, _, ok). ok) suf \<and> rbRecoveryThreshold r \<le> int (length suf)
      \<and> rbRecoveryMinUptime r \<le> Since now (fst (hd suf)))
    \<and> (0 < rbMinTimeBetweenFailovers r \<longrightarrow> (\<forall>t. rbLastFailoverAt r (epAddr (getEp w r)) = Some t \<longrightarrow>
         rbMinTimeBetweenFailovers r \<le> Since now t))
    \<and> (0 < rbCircuitBreakerMaxFailovers r \<and> 0 < rbCircuitBreakerWindow r \<longrightarrow>
         int (length (filter (\<lambda>t. now - rbCircuitBreakerWindow r < t) (rbFailoverHistory r))) < rbCircuitBreakerMaxFailovers r)"
proof -
  let ?r0 = "NewRebalancer now0 cfg"
  have e: "endpointFor r a = Some w"
    using assms(2) endpointFor_params [OF rb_run_params [of reps ?r0], of a] by (simp add: r_def)
  have inv: "ep_inv r (ep_trace w ?r0 reps) w" unfolding r_def by (rule rb_run_inv [OF refl])
  have ok: "ok" and rec: "epStatus (getEp w r) = StatusRecovering"
    using assms(3,4) e by (auto simp: rb_step_defs split: epStatus.splits if_splits)
  from inv rec obtain pre suf where suf: "ep_trace w ?r0 reps = pre @ suf" "suf \<noteq> []" "list_all (\<lambda>(_, _, ok). ok) suf"
      "int (length suf) = epConsecutiveSuccess (getEp w r)" "fst (hd suf) = epUpSince (getEp w r)"
    by (auto simp: ep_inv_def Let_def)
  have up: "rbRecoveryThreshold r \<le> epConsecutiveSuccess (getEp w r) + 1 \<and> rbRecoveryMinUptime r \<le> Since now (epUpSince (getEp w r))"
    using assms(4) e ok rec by (auto simp: rb_step_defs split: if_splits)
  have "ep_trace w ?r0 (reps @ [(now, a, ok)]) = pre @ (suf @ [(now, a, ok)])"
    using suf(1) assms(2) by (simp add: ep_trace_def)
  moreover have "list_all (\<lambda>(_, _, ok). ok) (suf @ [(now, a, ok)])" using suf(3) ok by simp
  moreover have "rbRecoveryThreshold r \<le> int (length (suf @ [(now, a, ok)]))" using suf(4) up by simp
  moreover have "rbRecoveryMinUptime r \<le> Since now (fst (hd (suf @ [(now, a, ok)])))" using suf(2,5) up by simp
  moreover have "0 < rbMinTimeBetweenFailovers r \<longrightarrow> (\<forall>t. rbLastFailoverAt r (epAddr (getEp w r)) = Some t \<longrightarrow>
         rbMinTimeBetweenFailovers r \<le> Since now t)"
    using assms(4) e ok rec by (auto simp: rb_step_defs split: if_splits)
  moreover have "0 < rbCircuitBreakerMaxFailovers r \<and> 0 < rbCircuitBreakerWindow r \<longrightarrow>
         int (length (filter (\<lambda>t. now - rbCircuitBreakerWindow r < t) (rbFailoverHistory r))) < rbCircuitBreakerMaxFailovers r"
    using assms(4) e ok rec up
    by (auto simp: rb_step_defs pruneFailoverHistory_def filterHistory_eq split: if_splits)
  ultimately show ?thesis by blast
qed

definition flaky_reports :: "report list" where
  "flaky_reports = [(10 * second, ''k2:9092'', False), (11 * second, ''k2:9092'', False), (12 * second, ''k2:9092'', False),
     (13 * second, ''k2:9092'', True)]"

definition balanced_cluster :: ClusterConfig where
  "balanced_cluster = sample_logistics\<lparr>HealthCheck := sample_hc\<lparr>RecoveryThreshold := 2\<rparr>\<rparr>"

lemma flaky_facts:
  "endpointFor (NewRebalancer 1 balanced_cluster) ''k2:9092'' = Some IsSecondary"
  "epStatus (getEp IsSecondary (rb_run flaky_reports (NewRebalancer 1 balanced_cluster))) = StatusRecovering"
  "epStatus (getEp IsSecondary (rb_report (200 * second, ''k2:9092'', True) (rb_run flaky_reports (NewRebalancer 1 balanced_cluster)))) = StatusUp"
  "rbRecoveryMinUptime (rb_run flaky_reports (NewRebalancer 1 balanced_cluster)) = 120 * second"
  by code_simp+

theorem recovery_is_asymmetric_witness:
  "\<exists>pre suf. ep_trace IsSecondary (NewRebalancer 1 balanced_cluster) (flaky_reports @ [(200 * second, ''k2:9092'', True)]) = pre @ suf
     \<and> 120 * second \<le> Since (200 * second) (fst (hd suf))"
  using recovery_is_asymmetric [of 1 balanced_cluster "''k2:9092''" IsSecondary flaky_reports "200 * second" True]
    flaky_facts by auto

end
