(* ===== verification/Metadata.thy ===== *)
theory Metadata
  imports Config Protocol
begin

text \<open>
  Metadata responses, \<^verbatim>\<open>internal/routing/metadata.go\<close>: the parser that splits a response body
  into brokers and the raw bytes around them, the rewriter that replaces every broker's host and
  port by the proxy's, and the choice of the upstream for a Metadata request. The broker parser
  and the loop body that writes a broker are an instance of \<open>prefix_codec\<close>.
\<close>

section \<open>Data\<close>

definition MaxMetadataResponseSize :: nat where "MaxMetadataResponseSize = 104857600"
definition MaxStringLen :: int where "MaxStringLen = 32767"

record Broker =
  NodeID :: int32
  Host :: string
  BrokerPort :: int32
  Rack :: string
  RackIsSet :: bool

record MetadataResponse =
  mrCorrelationID :: int32
  ThrottleTimeMs :: int32
  Brokers :: "Broker list"
  bodyBeforeBrokers :: "byte list"
  bodyAfterBrokers :: "byte list"

abbreviation too_short :: "string \<Rightarrow> error" where
  "too_short msg \<equiv> Wrap msg ErrMetadataTooShort"

section \<open>Parsing\<close>

text \<open>The last field of a broker, for a broker parsed up to \<open>pos\<close>.\<close>

definition parseRack :: "int16 \<Rightarrow> byte list \<Rightarrow> Broker \<Rightarrow> nat \<Rightarrow> error + Broker \<times> nat" where
  "parseRack version data b pos =
     (if sint version < 1 then Inr (b, pos)
      else if length data < pos + 2 then Inl (too_short ''missing Rack length'')
      else
        let rackLen = sint (Uint16 (drop pos data)); pos = pos + 2 in
        if rackLen = - 1 then Inr (b\<lparr>RackIsSet := False\<rparr>, pos)
        else if rackLen = 0 then Inr (b\<lparr>Rack := '''', RackIsSet := True\<rparr>, pos)
        else if 0 < rackLen then
          (if MaxStringLen < rackLen then Inl (Errorf ''broker rack exceeds maximum length'')
           else if length data < pos + nat rackLen then Inl (too_short ''truncated Rack'')
           else Inr (b\<lparr>Rack := btos (slice data pos (pos + nat rackLen)), RackIsSet := True\<rparr>, pos + nat rackLen))
        else Inl (Errorf ''invalid Rack length''))"

definition parseBroker :: "int16 \<Rightarrow> byte list \<Rightarrow> error + Broker \<times> nat" where
  "parseBroker version data =
     (if length data < 4 then Inl (too_short ''missing NodeId'')
      else if length data < 6 then Inl (too_short ''missing Host length'')
      else
        let hostLen = sint (Uint16 (drop 4 data)) in
        if hostLen < 0 then Inl (Errorf ''invalid broker Host length'')
        else if MaxStringLen < hostLen then Inl ErrBrokerHostTooLong
        else
          let pos = 6 + nat hostLen in
          if length data < pos then Inl (too_short ''truncated Host'')
          else if length data < pos + 4 then Inl (too_short ''missing Port'')
          else parseRack version data
                 \<lparr>NodeID = Uint32 data, Host = btos (slice data 6 pos), BrokerPort = Uint32 (drop pos data),
                  Rack = '''', RackIsSet = False\<rparr> (pos + 4))"

text \<open>\<open>brokerCount\<close> is an unsigned 32-bit value in a 64-bit \<open>int\<close>: the test for a negative count
  in the code is never true and has no branch here.\<close>

definition ParseMetadataResponseBody :: "byte list \<Rightarrow> int16 \<Rightarrow> error + MetadataResponse" where
  "ParseMetadataResponseBody data version =
     (if MaxMetadataResponseSize < length data then Inl ErrMetadataResponseTooLarge
      else if 3 \<le> sint version \<and> length data < 4 then Inl (too_short ''missing ThrottleTimeMs'')
      else
        let throttle = (if 3 \<le> sint version then Uint32 data else 0);
            pos = (if 3 \<le> sint version then 4 else 0)
        in
        if length data < pos + 4 then Inl (too_short ''missing broker array length'')
        else
          let brokerArrayStart = pos;
              brokerCount = unat (Uint32 (drop pos data));
              pos = pos + 4
          in
          if brokerCount = 0 then
            Inr \<lparr>mrCorrelationID = 0, ThrottleTimeMs = throttle, Brokers = [],
                 bodyBeforeBrokers = take brokerArrayStart data, bodyAfterBrokers = drop pos data\<rparr>
          else
            (case parse_many (\<lambda>i. ''broker'') (parseBroker version) 0 brokerCount data pos of
               Inl e \<Rightarrow> Inl e
             | Inr (bs, pos) \<Rightarrow>
                 Inr \<lparr>mrCorrelationID = 0, ThrottleTimeMs = throttle, Brokers = bs,
                      bodyBeforeBrokers = take brokerArrayStart data, bodyAfterBrokers = drop pos data\<rparr>))"

section \<open>Rewriting\<close>

text \<open>The bytes the loop body writes for one broker.\<close>

definition writeBroker :: "string \<Rightarrow> int32 \<Rightarrow> int16 \<Rightarrow> Broker \<Rightarrow> byte list" where
  "writeBroker proxyHost proxyPort version b =
     PutUint32 (NodeID b) @ PutUint16 (word_of_nat (length proxyHost)) @ stob proxyHost @ PutUint32 proxyPort
     @ (if 1 \<le> sint version then
          (if RackIsSet b then PutUint16 (word_of_nat (length (Rack b))) @ stob (Rack b) else PutUint16 (- 1))
        else [])"

definition brokerArray :: "string \<Rightarrow> int32 \<Rightarrow> int16 \<Rightarrow> Broker list \<Rightarrow> byte list" where
  "brokerArray proxyHost proxyPort version bs =
     PutUint32 (word_of_nat (length bs)) @ concat (map (writeBroker proxyHost proxyPort version) bs)"

definition RewriteBrokers :: "MetadataResponse \<Rightarrow> string \<Rightarrow> int32 \<Rightarrow> int16 \<Rightarrow> error + byte list" where
  "RewriteBrokers resp proxyHost proxyPort version =
     (if MaxStringLen < int (length proxyHost) then Inl (Wrap ''proxy host'' ErrBrokerHostTooLong)
      else
        let brokerBuf = brokerArray proxyHost proxyPort version (Brokers resp);
            newBodyLen = length (bodyBeforeBrokers resp) + length brokerBuf + length (bodyAfterBrokers resp);
            sizeFieldValue = 4 + newBodyLen;
            newFrameLen = 4 + sizeFieldValue
        in if MaxMetadataResponseSize < newFrameLen then Inl ErrMetadataResponseTooLarge
           else Inr (PutUint32 (word_of_nat sizeFieldValue) @ PutUint32 (mrCorrelationID resp)
                     @ bodyBeforeBrokers resp @ brokerBuf @ bodyAfterBrokers resp))"

definition RewriteMetadataResponse :: "byte list \<Rightarrow> string \<Rightarrow> int32 \<Rightarrow> int16 \<Rightarrow> error + byte list" where
  "RewriteMetadataResponse rawResponse proxyHost proxyPort version =
     (if MaxMetadataResponseSize < length rawResponse then Inl ErrMetadataResponseTooLarge
      else if length rawResponse < 8 then Inl (too_short ''response frame too short'')
      else
        let frameSize = sint (Uint32 rawResponse); correlationID = Uint32 (drop 4 rawResponse) in
        if frameSize < 4 then Inl (Errorf ''invalid frame size'')
        else
          let expectedLen = 4 + nat frameSize in
          if length rawResponse < expectedLen then Inl (too_short ''frame size'')
          else
            (case wrap_err ''parsing metadata body'' (ParseMetadataResponseBody (slice rawResponse 8 expectedLen) version) of
               Inl e \<Rightarrow> Inl e
             | Inr resp \<Rightarrow> RewriteBrokers (resp\<lparr>mrCorrelationID := correlationID\<rparr>) proxyHost proxyPort version))"

section \<open>The upstream of a Metadata request\<close>

definition MetadataTarget :: "byte list \<Rightarrow> ClusterConfig \<Rightarrow> error + string \<times> int32" where
  "MetadataTarget requestData clusterCfg =
     (case wrap_err ''parsing metadata request header'' (ParseRequestHeader requestData) of
        Inl e \<Rightarrow> Inl e
      | Inr hdr \<Rightarrow>
          if rhAPIKey hdr \<noteq> APIKeyMetadata then Inl (Errorf ''not a metadata request'')
          else if Mode clusterCfg \<noteq> ModeActivePassive \<and> Mode clusterCfg \<noteq> ModeSingle
          then Inl (Errorf ''metadata forwarding for mode is not implemented'')
          else if Active clusterCfg \<noteq> ActivePrimary \<and> Active clusterCfg \<noteq> ActiveSecondary
          then Inl (Errorf ''unknown active cluster'')
          else
            let targetAddr = (if Active clusterCfg = ActivePrimary then Bootstrap (Primary clusterCfg)
                              else Bootstrap (Secondary clusterCfg))
            in if targetAddr = '''' then Inl (Errorf ''active cluster has empty bootstrap address'')
               else Inr (targetAddr, rhCorrelationID hdr))"

section \<open>The broker codec\<close>

text \<open>A broker entry as it came from the wire, written back with its own host and port.\<close>

definition encodeBroker :: "int16 \<Rightarrow> Broker \<Rightarrow> byte list" where
  "encodeBroker version b = writeBroker (Host b) (BrokerPort b) version b"

definition broker_ok :: "int16 \<Rightarrow> Broker \<Rightarrow> bool" where
  "broker_ok version b \<longleftrightarrow> length (Host b) < 2 ^ 15 \<and> length (Rack b) < 2 ^ 15
     \<and> (RackIsSet b \<longrightarrow> 1 \<le> sint version) \<and> (\<not> RackIsSet b \<longrightarrow> Rack b = '''')"

lemma PutUint16_sint: "2 \<le> length bs \<Longrightarrow> 0 \<le> sint (Uint16 bs) \<Longrightarrow> PutUint16 (word_of_nat (nat (sint (Uint16 bs)))) = take 2 bs"
  by (simp add: word_of_nat_sint_int16)

lemma Uint16_minus_one: "2 \<le> length bs \<Longrightarrow> sint (Uint16 bs) = - 1 \<Longrightarrow> PutUint16 (- 1) = take 2 bs"
  by (metis PutUint16_Uint16 signed_word_eqI sint_n1)

lemma stob_slice: "stob (btos (slice d i j)) = slice d i j"
  by simp

lemma encodeBroker_rack:
  "\<not> sint v < 1 \<Longrightarrow> RackIsSet b \<Longrightarrow> encodeBroker v b
     = PutUint32 (NodeID b) @ PutUint16 (word_of_nat (length (Host b))) @ stob (Host b) @ PutUint32 (BrokerPort b)
       @ PutUint16 (word_of_nat (length (Rack b))) @ stob (Rack b)"
  by (simp add: encodeBroker_def writeBroker_def)

lemma parseBroker_canonical:
  assumes "parseBroker v d = Inr (b, n)"
  shows "n \<le> length d \<and> take n d = encodeBroker v b \<and> broker_ok v b"
proof -
  let ?h = "nat (sint (Uint16 (drop 4 d)))"
  have len: "6 \<le> length d" and h: "0 \<le> sint (Uint16 (drop 4 d))" "sint (Uint16 (drop 4 d)) \<le> 32767" and l: "10 + ?h \<le> length d"
    using assms by (auto simp: parseBroker_def Let_def MaxStringLen_def split: if_splits)
  let ?b = "\<lparr>NodeID = Uint32 d, Host = btos (slice d 6 (6 + ?h)), BrokerPort = Uint32 (drop (6 + ?h) d), Rack = '''', RackIsSet = False\<rparr>"
  have front: "take (10 + ?h) d = PutUint32 (Uint32 d) @ PutUint16 (word_of_nat ?h) @ slice d 6 (6 + ?h) @ PutUint32 (Uint32 (drop (6 + ?h) d))"
  proof -
    have "take (10 + ?h) d = take 4 d @ take 2 (drop 4 d) @ take ?h (drop 6 d) @ take 4 (drop (6 + ?h) d)"
    proof -
      have "take (10 + ?h) d = take (4 + (2 + (?h + 4))) d" by (simp add: algebra_simps)
      then show ?thesis by (simp only: take_add drop_drop) (simp add: algebra_simps)
    qed
    then show ?thesis using len l h by (simp add: PutUint16_sint slice_def)
  qed
  let ?p = "10 + ?h"
  have hl: "length (slice d 6 (6 + ?h)) = ?h" and hb: "?h < 32768" using l h(2) by auto
  have p6: "6 + ?h + 4 = ?p" by simp
  show ?thesis
  proof (cases "sint v < 1")
    case True
    then have "b = ?b \<and> n = ?p" using assms len h l
      by (simp add: parseBroker_def parseRack_def Let_def MaxStringLen_def p6 split: if_splits)
    then show ?thesis using True front l h hl hb
      by (simp add: encodeBroker_def writeBroker_def broker_ok_def)
  next
    case False
    let ?r = "sint (Uint16 (drop ?p d))"
    have two: "?p + 2 \<le> length d"
      using assms len h l False by (simp add: parseBroker_def parseRack_def Let_def MaxStringLen_def p6 split: if_splits)
    have take2: "take (?p + 2) d = take ?p d @ take 2 (drop ?p d)" by (rule take_add)
    consider "?r = - 1" "b = ?b" "n = ?p + 2" | "?r = 0" "b = ?b\<lparr>RackIsSet := True\<rparr>" "n = ?p + 2"
      | "0 < ?r" "?r \<le> 32767" "?p + 2 + nat ?r \<le> length d" "n = ?p + 2 + nat ?r"
        "NodeID b = Uint32 d" "Host b = btos (slice d 6 (6 + ?h))" "BrokerPort b = Uint32 (drop (6 + ?h) d)"
        "Rack b = btos (slice d (?p + 2) (?p + 2 + nat ?r))" "RackIsSet b"
      using assms len h l two False
      by (auto simp: parseBroker_def parseRack_def Let_def MaxStringLen_def p6 split: if_splits)
    then show ?thesis
    proof cases
      case 1
      then show ?thesis using False front two hl hb h take2 Uint16_minus_one [of "drop ?p d"]
        by (simp add: encodeBroker_def writeBroker_def broker_ok_def)
    next
      case 2
      then show ?thesis using False front two hl hb h take2 PutUint16_sint [of "drop ?p d"]
        by (simp add: encodeBroker_def writeBroker_def broker_ok_def)
    next
      case 3
      let ?k = "slice d (?p + 2) (?p + 2 + nat ?r)"
      have kl: "length ?k = nat ?r" using 3(3) by simp
      have "nat ?r < 32768" using 3(2) by simp
      have hk: "length (Host b) = ?h" "length (Rack b) = nat ?r" "stob (Host b) = slice d 6 (6 + ?h)" "stob (Rack b) = ?k"
        unfolding 3(6,8) using hl kl by simp_all
      then have ok: "broker_ok v b" using False hb \<open>nat ?r < 32768\<close> 3(9) by (simp add: broker_ok_def)
      have "encodeBroker v b = (PutUint32 (Uint32 d) @ PutUint16 (word_of_nat ?h) @ slice d 6 (6 + ?h)
          @ PutUint32 (Uint32 (drop (6 + ?h) d))) @ PutUint16 (word_of_nat (nat ?r)) @ ?k"
        unfolding encodeBroker_rack [OF False 3(9)] hk 3(5,7) append_assoc ..
      also have "\<dots> = take ?p d @ take 2 (drop ?p d) @ ?k"
        using PutUint16_sint [of "drop ?p d"] two 3(1) front by simp
      also have "\<dots> = take (?p + 2) d @ ?k" using take2 by simp
      also have "\<dots> = take n d" unfolding 3(4) slice_def by (subst take_add) simp
      finally show ?thesis using ok 3(3,4) by simp
    qed
  qed
qed

lemma parseBroker_encodeBroker:
  assumes "broker_ok v b"
  shows "parseBroker v (encodeBroker v b @ r) = Inr (b, length (encodeBroker v b))"
proof -
  let ?h = "length (Host b)" and ?k = "length (Rack b)"
  let ?rack = "if 1 \<le> sint v then (if RackIsSet b then PutUint16 (word_of_nat ?k) @ stob (Rack b) else PutUint16 (- 1)) else []"
  define d where "d = encodeBroker v b @ r"
  have e: "encodeBroker v b = PutUint32 (NodeID b) @ PutUint16 (word_of_nat ?h) @ stob (Host b) @ PutUint32 (BrokerPort b) @ ?rack"
    by (simp add: encodeBroker_def writeBroker_def)
  have d: "d = PutUint32 (NodeID b) @ PutUint16 (word_of_nat ?h) @ stob (Host b) @ PutUint32 (BrokerPort b) @ ?rack @ r"
    by (simp only: d_def e append_assoc)
  have h: "sint (word_of_nat ?h :: int16) = int ?h" "int ?h \<le> 32767" and k: "sint (word_of_nat ?k :: int16) = int ?k" "int ?k \<le> 32767"
    using assms sint_int16_nonneg [of ?h] sint_int16_nonneg [of ?k] by (auto simp: broker_ok_def)
  have f: "Uint32 d = NodeID b" "Uint16 (drop 4 d) = word_of_nat ?h" "slice d 6 (6 + ?h) = stob (Host b)"
    "drop (6 + ?h) d = PutUint32 (BrokerPort b) @ ?rack @ r" "drop (10 + ?h) d = ?rack @ r"
    "length d = 10 + ?h + length ?rack + length r"
    by (simp_all add: d slice_def)
  have g: "Uint32 (drop (6 + ?h) d) = BrokerPort b" unfolding f(4) by simp
  have "6 \<le> length d" "6 + ?h + 4 \<le> length d" unfolding f(6) by simp_all
  then have step: "parseBroker v d = parseRack v d
      \<lparr>NodeID = NodeID b, Host = Host b, BrokerPort = BrokerPort b, Rack = '''', RackIsSet = False\<rparr> (6 + ?h + 4)"
    using h(2) unfolding parseBroker_def f(1,2) h(1) Let_def nat_int f(3) g btos_stob
    by (simp add: MaxStringLen_def)
  have ten: "6 + ?h + 4 = 10 + ?h" by simp
  consider "sint v < 1" "\<not> RackIsSet b" "Rack b = ''''" | "1 \<le> sint v" "\<not> RackIsSet b" "Rack b = ''''"
    | "1 \<le> sint v" "RackIsSet b"
    using assms by (cases "RackIsSet b"; cases "sint v < 1") (auto simp: broker_ok_def not_less)
  then have "parseBroker v d = Inr (b, 10 + ?h + length ?rack)"
  proof cases
    case 1
    then show ?thesis unfolding step ten by (simp add: parseRack_def)
  next
    case 2
    then have "sint (Uint16 (drop (10 + ?h) d)) = - 1" unfolding f(5) by simp
    moreover have "\<not> length d < 10 + ?h + 2" using 2 unfolding f(6) by simp
    ultimately show ?thesis unfolding step ten parseRack_def using 2 by (simp add: Let_def)
  next
    case 3
    then have rk: "sint (Uint16 (drop (10 + ?h) d)) = int ?k" unfolding f(5) by (simp add: k(1))
    have sl: "slice d (10 + ?h + 2) (10 + ?h + 2 + ?k) = stob (Rack b)" using 3 by (simp add: d slice_def)
    have "\<not> length d < 10 + ?h + 2" "\<not> length d < 10 + ?h + 2 + ?k" using 3 unfolding f(6) by simp_all
    then show ?thesis unfolding step ten parseRack_def Let_def rk nat_int sl using 3 k(2)
      by (cases "?k = 0") (simp_all add: MaxStringLen_def)
  qed
  then show ?thesis unfolding d_def by (simp add: e)
qed

interpretation bp: prefix_codec "parseBroker v" "encodeBroker v" "broker_ok v" for v
proof unfold_locales
  fix d x n
  assume a: "parseBroker v d = Inr (x, n)"
  note c = parseBroker_canonical [OF a]
  show "n \<le> length d" using c by simp
  have "length (encodeBroker v x) = n" using c by (metis length_take min.absorb2)
  then show "parseBroker v (take n d @ r) = Inr (x, n)" for r using c parseBroker_encodeBroker [of v x r] by simp
next
  fix x r
  assume "broker_ok v x"
  then show "parseBroker v (encodeBroker v x @ r) = Inr (x, length (encodeBroker v x))" by (rule parseBroker_encodeBroker)
qed

lemma many_brokers_ok:
  "parse_many ctx (parseBroker v) i k data pos = Inr (bs, q) \<Longrightarrow> list_all (broker_ok v) bs
     \<and> (pos \<le> length data \<longrightarrow> slice data pos q = concat (map (encodeBroker v) bs))"
proof (induction k arbitrary: i pos bs)
  case 0
  then show ?case by (simp add: slice_def)
next
  case (Suc k)
  from Suc.prems obtain x n ys where *: "parseBroker v (drop pos data) = Inr (x, n)"
    "parse_many ctx (parseBroker v) (Suc i) k data (pos + n) = Inr (ys, q)" "bs = x # ys"
    by (rule parse_many_Suc_Inr)
  note c = parseBroker_canonical [OF *(1)]
  have "slice data pos q = encodeBroker v x @ concat (map (encodeBroker v) ys)" if "pos \<le> length data"
  proof -
    have le: "pos + n \<le> length data" using c that by auto
    then have "pos + n \<le> q" using bp.many_consumed [OF *(2)] by simp
    then have "take (q - pos) (drop pos data) = take n (drop pos data) @ take (q - (pos + n)) (drop (pos + n) data)"
      using take_add [of n "q - (pos + n)" "drop pos data"] by (simp add: add.commute)
    then show ?thesis using Suc.IH [OF *(2)] le c by (simp add: slice_def)
  qed
  then show ?case using Suc.IH [OF *(2)] c *(3) by simp
qed

section \<open>Bodies and frames\<close>

definition beforeLen :: "int16 \<Rightarrow> nat" where
  "beforeLen v = (if 3 \<le> sint v then 4 else 0)"

definition encodeBrokers :: "int16 \<Rightarrow> Broker list \<Rightarrow> byte list" where
  "encodeBrokers v bs = PutUint32 (word_of_nat (length bs)) @ concat (map (encodeBroker v) bs)"

definition throttle_of :: "int16 \<Rightarrow> byte list \<Rightarrow> int32" where
  "throttle_of v before = (if 3 \<le> sint v then Uint32 before else 0)"

lemma brokers_step:
  "ParseMetadataResponseBody data v =
     (if MaxMetadataResponseSize < length data then Inl ErrMetadataResponseTooLarge
      else if 3 \<le> sint v \<and> length data < 4 then Inl (too_short ''missing ThrottleTimeMs'')
      else if length data < beforeLen v + 4 then Inl (too_short ''missing broker array length'')
      else (case parse_many (\<lambda>i. ''broker'') (parseBroker v) 0 (unat (Uint32 (drop (beforeLen v) data))) data (beforeLen v + 4) of
               Inl e \<Rightarrow> Inl e
             | Inr (bs, pos) \<Rightarrow>
                 Inr \<lparr>mrCorrelationID = 0, ThrottleTimeMs = throttle_of v data, Brokers = bs,
                      bodyBeforeBrokers = take (beforeLen v) data, bodyAfterBrokers = drop pos data\<rparr>))"
  by (cases "unat (Uint32 (drop (beforeLen v) data)) = 0"; cases "3 \<le> sint v")
    (simp_all add: ParseMetadataResponseBody_def beforeLen_def throttle_of_def Let_def split: sum.splits)

lemma Uint32_local: "4 \<le> length bs \<Longrightarrow> take 4 bs = take 4 cs \<Longrightarrow> Uint32 bs = Uint32 cs"
  by (metis Uint32_take le_refl)

lemma ParseBody_Inr:
  assumes "ParseMetadataResponseBody data v = Inr resp"
  shows "data = bodyBeforeBrokers resp @ encodeBrokers v (Brokers resp) @ bodyAfterBrokers resp"
    and "length (bodyBeforeBrokers resp) = beforeLen v" and "list_all (broker_ok v) (Brokers resp)"
    and "length (Brokers resp) < 2 ^ 32" and "length data \<le> MaxMetadataResponseSize"
    and "ThrottleTimeMs resp = throttle_of v (bodyBeforeBrokers resp)" and "mrCorrelationID resp = 0"
proof -
  let ?p = "beforeLen v" and ?c = "unat (Uint32 (drop (beforeLen v) data))"
  have len: "?p + 4 \<le> length data" "length data \<le> MaxMetadataResponseSize"
    using assms unfolding brokers_step by (auto split: if_splits)
  then obtain bs q where m: "parse_many (\<lambda>i. ''broker'') (parseBroker v) 0 ?c data (?p + 4) = Inr (bs, q)"
    and r: "resp = \<lparr>mrCorrelationID = 0, ThrottleTimeMs = throttle_of v data, Brokers = bs,
                    bodyBeforeBrokers = take ?p data, bodyAfterBrokers = drop q data\<rparr>"
    using assms unfolding brokers_step by (auto split: if_splits sum.splits)
  have q: "?p + 4 \<le> q" "q \<le> length data" "length bs = ?c" using bp.many_consumed [OF m len(1)] by auto
  have ok: "list_all (broker_ok v) bs" and sl: "slice data (?p + 4) q = concat (map (encodeBroker v) bs)"
    using many_brokers_ok [OF m] len(1) by auto
  have "encodeBrokers v bs = take 4 (drop ?p data) @ slice data (?p + 4) q"
    using len(1) q(3) by (simp add: encodeBrokers_def sl)
  also have "\<dots> = take (q - ?p) (drop ?p data)"
    using q(1) take_add [of 4 "q - (?p + 4)" "drop ?p data"] by (simp add: slice_def add.commute)
  finally have "data = take ?p data @ encodeBrokers v bs @ drop q data"
    using q(1) by (metis append_take_drop_id drop_drop le_add_diff_inverse2 le_add1 le_trans add.commute)
  then show "data = bodyBeforeBrokers resp @ encodeBrokers v (Brokers resp) @ bodyAfterBrokers resp" by (simp add: r)
  show "length (bodyBeforeBrokers resp) = ?p" using len(1) by (simp add: r)
  show "list_all (broker_ok v) (Brokers resp)" using ok by (simp add: r)
  have "?c < 2 ^ 32" using unsigned_less [where 'a = nat, of "Uint32 (drop ?p data)"] by simp
  then show "length (Brokers resp) < 2 ^ 32" using q(3) by (simp add: r)
  show "length data \<le> MaxMetadataResponseSize" by (rule len(2))
  show "ThrottleTimeMs resp = throttle_of v (bodyBeforeBrokers resp)"
    by (simp add: r throttle_of_def beforeLen_def)
  show "mrCorrelationID resp = 0" by (simp add: r)
qed

lemma ParseBody_build:
  assumes "length before = beforeLen v" and "list_all (broker_ok v) bs" and "length bs < 2 ^ 32"
    and "length (before @ encodeBrokers v bs @ rest) \<le> MaxMetadataResponseSize"
  shows "ParseMetadataResponseBody (before @ encodeBrokers v bs @ rest) v
    = Inr \<lparr>mrCorrelationID = 0, ThrottleTimeMs = throttle_of v before, Brokers = bs,
           bodyBeforeBrokers = before, bodyAfterBrokers = rest\<rparr>"
proof -
  let ?d = "before @ encodeBrokers v bs @ rest"
  have el: "4 \<le> length (encodeBrokers v bs)" by (simp add: encodeBrokers_def)
  have cnt: "unat (Uint32 (drop (beforeLen v) ?d)) = length bs"
    using assms(1,3) unat_int32_of_nat [of "length bs"] by (simp add: encodeBrokers_def)
  have m: "parse_many (\<lambda>i. ''broker'') (parseBroker v) 0 (length bs) ?d (beforeLen v + 4)
      = Inr (bs, length before + length (encodeBrokers v bs))"
    using bp.many_enc [OF assms(2), of "\<lambda>i. ''broker''" 0 "before @ PutUint32 (word_of_nat (length bs))" rest]
    by (simp add: encodeBrokers_def assms(1))
  have th: "throttle_of v ?d = throttle_of v before"
    using assms(1) by (auto simp: throttle_of_def beforeLen_def Uint32_append)
  have "\<not> (3 \<le> sint v \<and> length ?d < 4)" "\<not> length ?d < beforeLen v + 4" using assms(1) el by auto
  then show ?thesis unfolding brokers_step cnt m th using assms(1,4) by (auto simp: not_less)
qed

lemma broker_array_encode: "brokerArray h p v bs = encodeBrokers v (map (\<lambda>b. b\<lparr>Host := h, BrokerPort := p\<rparr>) bs)"
proof -
  have "writeBroker h p v = encodeBroker v \<circ> (\<lambda>b. b\<lparr>Host := h, BrokerPort := p\<rparr>)"
    by (simp add: fun_eq_iff encodeBroker_def writeBroker_def)
  then show ?thesis by (simp add: brokerArray_def encodeBrokers_def)
qed

text \<open>A response frame: size, correlation id, body.\<close>

definition frame :: "int32 \<Rightarrow> byte list \<Rightarrow> byte list" where
  "frame corr body = PutUint32 (word_of_nat (4 + length body)) @ PutUint32 corr @ body"

lemma RewriteMetadataResponse_Inr:
  assumes "RewriteMetadataResponse raw h p v = Inr out"
  obtains body resp where "raw = frame (Uint32 (drop 4 raw)) body @ drop (8 + length body) raw"
    "ParseMetadataResponseBody body v = Inr resp" "length h \<le> 32767"
    "out = frame (Uint32 (drop 4 raw)) (bodyBeforeBrokers resp @ brokerArray h p v (Brokers resp) @ bodyAfterBrokers resp)"
    "length out \<le> MaxMetadataResponseSize"
proof -
  let ?f = "sint (Uint32 raw)"
  let ?body = "slice raw 8 (4 + nat ?f)"
  have c: "8 \<le> length raw" "4 \<le> ?f" "4 + nat ?f \<le> length raw"
    using assms by (auto simp: RewriteMetadataResponse_def Let_def split: if_splits)
  then obtain resp where resp: "ParseMetadataResponseBody ?body v = Inr resp"
      "RewriteBrokers (resp\<lparr>mrCorrelationID := Uint32 (drop 4 raw)\<rparr>) h p v = Inr out"
    using assms by (auto simp: RewriteMetadataResponse_def Let_def split: if_splits sum.splits)
  have lb: "length ?body = nat ?f - 4" using c by simp
  have "(word_of_nat (4 + length ?body) :: int32) = Uint32 raw"
    using c(2) unfolding lb by (simp add: signed_word_eqI)
  then have "frame (Uint32 (drop 4 raw)) ?body = take 4 raw @ take 4 (drop 4 raw) @ ?body"
    using c(1) by (simp add: frame_def)
  also have "\<dots> = take (8 + length ?body) raw"
  proof -
    have "take (8 + length ?body) raw = take (4 + (4 + length ?body)) raw" by simp
    also have "\<dots> = take 4 raw @ take 4 (drop 4 raw) @ take (length ?body) (drop 8 raw)"
      unfolding take_add by simp
    finally show ?thesis using lb by (simp add: slice_def)
  qed
  finally have raw: "raw = frame (Uint32 (drop 4 raw)) ?body @ drop (8 + length ?body) raw" by simp
  have "length h \<le> 32767" "out = frame (Uint32 (drop 4 raw)) (bodyBeforeBrokers resp @ brokerArray h p v (Brokers resp) @ bodyAfterBrokers resp)"
    "length out \<le> MaxMetadataResponseSize"
    using resp(2) by (auto simp: RewriteBrokers_def Let_def frame_def MaxStringLen_def algebra_simps split: if_splits)
  with raw resp(1) show thesis by (rule that)
qed

lemma frame_fields:
  assumes "length body \<le> MaxMetadataResponseSize"
  shows "length (frame corr body) = 8 + length body" and "sint (Uint32 (frame corr body)) = int (4 + length body)"
    and "Uint32 (drop 4 (frame corr body)) = corr" and "slice (frame corr body) 8 (8 + length body) = body"
proof -
  show "length (frame corr body) = 8 + length body" "Uint32 (drop 4 (frame corr body)) = corr"
    "slice (frame corr body) 8 (8 + length body) = body" by (simp_all add: frame_def slice_def)
  have "4 + length body < 2 ^ 31" using assms by (simp add: MaxMetadataResponseSize_def)
  then have "sint (word_of_nat (4 + length body) :: int32) = int (4 + length body)" by (rule sint_int32_nonneg)
  then show "sint (Uint32 (frame corr body)) = int (4 + length body)" unfolding frame_def by simp
qed

lemma Rewrite_frame:
  assumes "length (frame corr body) \<le> MaxMetadataResponseSize" and "ParseMetadataResponseBody body v = Inr resp"
    and "length h \<le> 32767"
    and "length (frame corr (bodyBeforeBrokers resp @ brokerArray h p v (Brokers resp) @ bodyAfterBrokers resp)) \<le> MaxMetadataResponseSize"
  shows "RewriteMetadataResponse (frame corr body) h p v
    = Inr (frame corr (bodyBeforeBrokers resp @ brokerArray h p v (Brokers resp) @ bodyAfterBrokers resp))"
proof -
  have lb: "length body \<le> MaxMetadataResponseSize" using assms(1) by (simp add: frame_def)
  note f = frame_fields [OF lb, of corr]
  have n: "4 + nat (int (4 + length body)) = 8 + length body" by simp
  have g: "\<not> MaxMetadataResponseSize < length (frame corr body)" "\<not> length (frame corr body) < 8"
    "\<not> int (4 + length body) < 4" "\<not> length (frame corr body) < 8 + length body" "\<not> MaxStringLen < int (length h)"
    using assms(1,3) f(1) by (auto simp: MaxStringLen_def)
  have r: "RewriteBrokers (resp\<lparr>mrCorrelationID := corr\<rparr>) h p v
      = Inr (frame corr (bodyBeforeBrokers resp @ brokerArray h p v (Brokers resp) @ bodyAfterBrokers resp))"
    using assms(4) g(5) by (simp add: RewriteBrokers_def Let_def frame_def algebra_simps)
  show ?thesis unfolding RewriteMetadataResponse_def Let_def f(2,3) n f(4) assms(2) using g r by simp
qed

lemma brokers_ok_rewritten:
  assumes "list_all (broker_ok v) bs" and "length h \<le> 32767"
  shows "list_all (broker_ok v) (map (\<lambda>b. b\<lparr>Host := h, BrokerPort := p\<rparr>) bs)"
  using assms by (auto simp: list_all_iff broker_ok_def)

section \<open>Properties\<close>

text \<open>
  C8. Metadata rewriting changes nothing but host and port. Whenever a response is rewritten,
  the input is a frame whose body splits into the bytes before the broker array, the encoding of
  brokers \<open>bs\<close> and the bytes after it, and the output is a frame with the same correlation id
  and the same bytes before and after, around the encoding of the same brokers with every host
  and port replaced by the proxy's; node ids and racks are kept, the size field is right, and the
  output is within the size limit.
\<close>
theorem metadata_rewrite_exact:
  assumes "RewriteMetadataResponse raw h p v = Inr out"
  shows "\<exists>corr before bs rest trailing.
      raw = frame corr (before @ encodeBrokers v bs @ rest) @ trailing
    \<and> out = frame corr (before @ encodeBrokers v (map (\<lambda>b. b\<lparr>Host := h, BrokerPort := p\<rparr>) bs) @ rest)
    \<and> sint (Uint32 out) = int (length out) - 4
    \<and> length out \<le> MaxMetadataResponseSize"
proof -
  obtain body resp where *: "raw = frame (Uint32 (drop 4 raw)) body @ drop (8 + length body) raw"
    "ParseMetadataResponseBody body v = Inr resp"
    "out = frame (Uint32 (drop 4 raw)) (bodyBeforeBrokers resp @ brokerArray h p v (Brokers resp) @ bodyAfterBrokers resp)"
    "length out \<le> MaxMetadataResponseSize"
    using RewriteMetadataResponse_Inr [OF assms] by metis
  let ?body = "bodyBeforeBrokers resp @ brokerArray h p v (Brokers resp) @ bodyAfterBrokers resp"
  have "length ?body \<le> MaxMetadataResponseSize" using *(3,4) by (simp add: frame_def)
  from frame_fields(1,2) [OF this] have "sint (Uint32 out) = int (length out) - 4" unfolding *(3) by simp
  then show ?thesis
    using * ParseBody_Inr(1) [OF *(2)] unfolding broker_array_encode by metis
qed

text \<open>
Rewriting is idempotent: a rewritten response is accepted again and rewriting it for the
  same proxy address returns it unchanged, byte for byte.
\<close>
theorem metadata_rewrite_idempotent:
  assumes "RewriteMetadataResponse raw h p v = Inr out"
  shows "RewriteMetadataResponse out h p v = Inr out"
proof -
  obtain corr body resp where *: "ParseMetadataResponseBody body v = Inr resp" "length h \<le> 32767"
    "out = frame corr (bodyBeforeBrokers resp @ brokerArray h p v (Brokers resp) @ bodyAfterBrokers resp)"
    "length out \<le> MaxMetadataResponseSize"
    using RewriteMetadataResponse_Inr [OF assms] by metis
  let ?bs = "map (\<lambda>b. b\<lparr>Host := h, BrokerPort := p\<rparr>) (Brokers resp)"
  let ?body = "bodyBeforeBrokers resp @ encodeBrokers v ?bs @ bodyAfterBrokers resp"
  note b = ParseBody_Inr [OF *(1)]
  have out: "out = frame corr ?body" using *(3) unfolding broker_array_encode .
  have "length ?body \<le> MaxMetadataResponseSize" using *(4) unfolding out by (simp add: frame_def)
  then have parse: "ParseMetadataResponseBody ?body v
      = Inr \<lparr>mrCorrelationID = 0, ThrottleTimeMs = throttle_of v (bodyBeforeBrokers resp), Brokers = ?bs,
             bodyBeforeBrokers = bodyBeforeBrokers resp, bodyAfterBrokers = bodyAfterBrokers resp\<rparr>"
    using b(2,4) brokers_ok_rewritten [OF b(3) *(2)] by (intro ParseBody_build) simp_all
  have same: "brokerArray h p v ?bs = encodeBrokers v ?bs" by (simp add: broker_array_encode comp_def)
  show ?thesis
    using Rewrite_frame [OF _ parse *(2), of corr p] *(4) unfolding out by (simp add: same)
qed

definition sample_response :: "byte list" where
  "sample_response = frame 7 (encodeBrokers 0
     [\<lparr>NodeID = 1, Host = ''kafka-1'', BrokerPort = 9092, Rack = '''', RackIsSet = False\<rparr>] @ [0, 0, 0, 0])"

lemma sample_rewrites: "\<exists>out. RewriteMetadataResponse sample_response ''proxy'' 9093 0 = Inr out"
proof -
  let ?bs = "[\<lparr>NodeID = 1, Host = ''kafka-1'', BrokerPort = 9092, Rack = '''', RackIsSet = False\<rparr>]"
  have "ParseMetadataResponseBody ([] @ encodeBrokers 0 ?bs @ [0, 0, 0, 0]) 0
      = Inr \<lparr>mrCorrelationID = 0, ThrottleTimeMs = throttle_of 0 [], Brokers = ?bs,
             bodyBeforeBrokers = [], bodyAfterBrokers = [0, 0, 0, 0]\<rparr>"
    by (intro ParseBody_build) (simp_all add: beforeLen_def broker_ok_def encodeBrokers_def encodeBroker_def
        writeBroker_def MaxMetadataResponseSize_def)
  then show ?thesis
    using Rewrite_frame [of 7 "encodeBrokers 0 ?bs @ [0, 0, 0, 0]" 0 _ "''proxy''" 9093]
    by (auto simp: sample_response_def frame_def brokerArray_def encodeBrokers_def encodeBroker_def writeBroker_def
        MaxMetadataResponseSize_def)
qed

theorem metadata_rewrite_exact_witness:
  "\<exists>out. RewriteMetadataResponse sample_response ''proxy'' 9093 0 = Inr out \<and> sint (Uint32 out) = int (length out) - 4"
  using sample_rewrites metadata_rewrite_exact by metis

theorem metadata_rewrite_idempotent_witness:
  "\<exists>out. RewriteMetadataResponse sample_response ''proxy'' 9093 0 = Inr out
     \<and> RewriteMetadataResponse out ''proxy'' 9093 0 = Inr out"
  using sample_rewrites metadata_rewrite_idempotent by metis

end
