(* ===== verification/Cursor.thy ===== *)
theory Cursor
  imports Go_Prelude
begin

text \<open>
  Skipping over wire data with an offset. The code advances \<open>pos\<close> over a buffer with the idiom
  ``if \<open>pos+n > len(data)\<close> return an error; \<open>pos += n\<close>''. A cursor takes the buffer and the
  offset and returns the next offset or the error; cursors compose in sequence, read length
  prefixes and repeat. \<open>cursor_ok\<close> is the contract: the offset moves forward inside the buffer, and
  the result depends only on the bytes moved over. The rules \<open>cursor_intros\<close> prove it for every
  cursor built from the pieces.
\<close>

type_synonym cursor = "byte list \<Rightarrow> nat \<Rightarrow> error + nat"

definition advance :: "nat \<Rightarrow> error \<Rightarrow> cursor" where
  "advance n e data pos = (if length data < pos + n then Inl e else Inr (pos + n))"

definition stay :: cursor where
  "stay data pos = Inr pos"

definition fail :: "error \<Rightarrow> cursor" where
  "fail e data pos = Inl e"

definition and_then :: "cursor \<Rightarrow> cursor \<Rightarrow> cursor" where
  "and_then f g data pos = (case f data pos of Inl e \<Rightarrow> Inl e | Inr q \<Rightarrow> g data q)"

text \<open>A 16-bit or 32-bit length prefix, read as a signed value, and what follows it.\<close>

definition read16 :: "error \<Rightarrow> (int \<Rightarrow> cursor) \<Rightarrow> cursor" where
  "read16 e k data pos = (if length data < pos + 2 then Inl e else k (sint (Uint16 (drop pos data))) data (pos + 2))"

definition read32 :: "error \<Rightarrow> (int \<Rightarrow> cursor) \<Rightarrow> cursor" where
  "read32 e k data pos = (if length data < pos + 4 then Inl e else k (sint (Uint32 (drop pos data))) data (pos + 4))"

text \<open>A call \<open>bytesRead, err := p(data[pos:])\<close>, its error wrapped, followed by \<open>pos += bytesRead\<close>.\<close>

definition sub_cursor :: "string \<Rightarrow> (byte list \<Rightarrow> error + nat) \<Rightarrow> cursor" where
  "sub_cursor ctx p data pos = (case wrap_err ctx (p (drop pos data)) of Inl e \<Rightarrow> Inl e | Inr n \<Rightarrow> Inr (pos + n))"

primrec repeat_cursor :: "nat \<Rightarrow> cursor \<Rightarrow> cursor" where
  "repeat_cursor 0 f data pos = Inr pos"
| "repeat_cursor (Suc k) f data pos = (case f data pos of Inl e \<Rightarrow> Inl e | Inr q \<Rightarrow> repeat_cursor k f data q)"

definition cursor_ok :: "cursor \<Rightarrow> bool" where
  "cursor_ok f \<longleftrightarrow> (\<forall>data pos q. f data pos = Inr q \<longrightarrow> pos \<le> length data \<longrightarrow>
     pos \<le> q \<and> q \<le> length data \<and> (\<forall>pre r. f (pre @ slice data pos q @ r) (length pre) = Inr (length pre + (q - pos))))"

lemma cursor_okD:
  assumes "cursor_ok f" and "f data pos = Inr q" and "pos \<le> length data"
  shows "pos \<le> q" and "q \<le> length data" and "f (pre @ slice data pos q @ r) (length pre) = Inr (length pre + (q - pos))"
  using assms unfolding cursor_ok_def by blast+

lemma slice_split: "i \<le> j \<Longrightarrow> j \<le> k \<Longrightarrow> slice xs i k = slice xs i j @ slice xs j k"
proof -
  assume "i \<le> j" "j \<le> k"
  then have "take (k - i) (drop i xs) = take (j - i) (drop i xs) @ take (k - j) (drop j xs)"
    using take_add [of "j - i" "k - j" "drop i xs"] by simp
  then show ?thesis by (simp add: slice_def)
qed

named_theorems cursor_intros

lemma cursor_ok_advance [cursor_intros]: "cursor_ok (advance n e)"
  by (auto simp: cursor_ok_def advance_def split: if_splits)

lemma cursor_ok_stay [cursor_intros]: "cursor_ok stay"
  by (auto simp: cursor_ok_def stay_def)

lemma cursor_ok_fail [cursor_intros]: "cursor_ok (fail e)"
  by (auto simp: cursor_ok_def fail_def)

lemma cursor_ok_if [cursor_intros]: "cursor_ok f \<Longrightarrow> cursor_ok g \<Longrightarrow> cursor_ok (if b then f else g)"
  by simp

lemma cursor_ok_and_then [cursor_intros]:
  assumes f: "cursor_ok f" and g: "cursor_ok g"
  shows "cursor_ok (and_then f g)"
  unfolding cursor_ok_def
proof (intro allI impI)
  fix data pos q
  assume a: "and_then f g data pos = Inr q" and p: "pos \<le> length data"
  then obtain m where m: "f data pos = Inr m" "g data m = Inr q" by (auto simp: and_then_def split: sum.splits)
  note f' = cursor_okD [OF f m(1) p] and g' = cursor_okD [OF g m(2) cursor_okD(2) [OF f m(1) p]]
  have "and_then f g (pre @ slice data pos q @ r) (length pre) = Inr (length pre + (q - pos))" for pre r
  proof -
    have s: "slice data pos q = slice data pos m @ slice data m q" using f'(1) g'(1) by (rule slice_split)
    have l: "length (pre @ slice data pos m) = length pre + (m - pos)" using f'(1,2) by simp
    have "f (pre @ slice data pos m @ (slice data m q @ r)) (length pre) = Inr (length pre + (m - pos))" by (rule f'(3))
    moreover have "g ((pre @ slice data pos m) @ slice data m q @ r) (length (pre @ slice data pos m))
        = Inr (length (pre @ slice data pos m) + (q - m))" by (rule g'(3))
    ultimately show ?thesis using f'(1) g'(1) unfolding s l by (simp add: and_then_def)
  qed
  then show "pos \<le> q \<and> q \<le> length data \<and> (\<forall>pre r. and_then f g (pre @ slice data pos q @ r) (length pre) = Inr (length pre + (q - pos)))"
    using f'(1) g'(1,2) by simp
qed

text \<open>Reading a prefix is an advance whose continuation may look at the bytes just passed.\<close>

lemma cursor_ok_look:
  assumes k: "\<And>x. cursor_ok (k x)"
    and loc: "\<And>d d'. n \<le> length d \<Longrightarrow> n \<le> length d' \<Longrightarrow> take n d = take n d' \<Longrightarrow> look d = look d'"
  shows "cursor_ok (\<lambda>data pos. if length data < pos + n then Inl e else k (look (drop pos data)) data (pos + n))"
  unfolding cursor_ok_def
proof (intro allI impI)
  fix data pos q
  assume a: "(if length data < pos + n then Inl e else k (look (drop pos data)) data (pos + n)) = Inr q"
  then have n: "pos + n \<le> length data" and kq: "k (look (drop pos data)) data (pos + n) = Inr q"
    by (auto split: if_splits)
  note k' = cursor_okD [OF k kq n]
  have s: "slice data pos q = slice data pos (pos + n) @ slice data (pos + n) q" using k'(1) by (intro slice_split) simp_all
  have "k (look (drop (length pre) (pre @ slice data pos q @ r))) (pre @ slice data pos q @ r) (length pre + n) = Inr (length pre + (q - pos))" for pre r
  proof -
    have l: "length (slice data pos (pos + n)) = n" using n by simp
    have "look (drop (length pre) (pre @ slice data pos q @ r)) = look (drop pos data)"
      by (rule loc) (use n k'(1) in \<open>auto simp: s slice_def\<close>)
    moreover have "k (look (drop pos data)) ((pre @ slice data pos (pos + n)) @ slice data (pos + n) q @ r)
        (length (pre @ slice data pos (pos + n))) = Inr (length (pre @ slice data pos (pos + n)) + (q - (pos + n)))" by (rule k'(3))
    ultimately show ?thesis using l k'(1) by (simp add: s)
  qed
  moreover have "\<not> length (pre @ slice data pos q @ r) < length pre + n" for pre r using k'(1,2) n by simp
  ultimately show "pos \<le> q \<and> q \<le> length data \<and> (\<forall>pre r. (if length (pre @ slice data pos q @ r) < length pre + n then Inl e
      else k (look (drop (length pre) (pre @ slice data pos q @ r))) (pre @ slice data pos q @ r) (length pre + n)) = Inr (length pre + (q - pos)))"
    using k'(1,2) by simp
qed

lemma cursor_ok_read16 [cursor_intros]:
  assumes "\<And>x. cursor_ok (k x)"
  shows "cursor_ok (read16 e k)"
proof -
  have loc: "sint (Uint16 d) = sint (Uint16 d')" if "2 \<le> length d" "2 \<le> length d'" "take 2 d = take 2 d'" for d d'
    using arg_cong [OF that(3), of Uint16] by simp
  have eq: "read16 e k = (\<lambda>data pos. if length data < pos + 2 then Inl e else k (sint (Uint16 (drop pos data))) data (pos + 2))"
    by (intro ext) (simp add: read16_def)
  show ?thesis unfolding eq
    by (rule cursor_ok_look [where look = "\<lambda>d. sint (Uint16 d)" and n = 2 and e = e and k = k]) (rule assms, rule loc)
qed

lemma cursor_ok_read32 [cursor_intros]:
  assumes "\<And>x. cursor_ok (k x)"
  shows "cursor_ok (read32 e k)"
proof -
  have loc: "sint (Uint32 d) = sint (Uint32 d')" if "4 \<le> length d" "4 \<le> length d'" "take 4 d = take 4 d'" for d d'
    using arg_cong [OF that(3), of Uint32] by simp
  have eq: "read32 e k = (\<lambda>data pos. if length data < pos + 4 then Inl e else k (sint (Uint32 (drop pos data))) data (pos + 4))"
    by (intro ext) (simp add: read32_def)
  show ?thesis unfolding eq
    by (rule cursor_ok_look [where look = "\<lambda>d. sint (Uint32 d)" and n = 4 and e = e and k = k]) (rule assms, rule loc)
qed

lemma cursor_ok_repeat [cursor_intros]:
  assumes "cursor_ok f"
  shows "cursor_ok (repeat_cursor k f)"
proof (induction k)
  case 0
  have "repeat_cursor 0 f = stay" by (simp add: fun_eq_iff stay_def)
  then show ?case by (simp add: cursor_ok_stay)
next
  case (Suc k)
  have "repeat_cursor (Suc k) f = and_then f (repeat_cursor k f)" by (simp add: fun_eq_iff and_then_def)
  then show ?case using assms Suc by (simp add: cursor_ok_and_then)
qed

text \<open>A cursor started at the front of a buffer is a prefix parser for its length, and back.\<close>

lemma cursor_ok_sub [cursor_intros]:
  assumes f: "cursor_ok f"
  shows "cursor_ok (sub_cursor ctx (\<lambda>d. f d 0))"
  unfolding cursor_ok_def
proof (intro allI impI)
  fix data pos q
  assume a: "sub_cursor ctx (\<lambda>d. f d 0) data pos = Inr q" and p: "pos \<le> length data"
  then obtain n where n: "f (drop pos data) 0 = Inr n" "q = pos + n" by (auto simp: sub_cursor_def split: sum.splits)
  have f': "n \<le> length (drop pos data)" "f ([] @ slice (drop pos data) 0 n @ r) (length []) = Inr (length [] + (n - 0))" for r
    using cursor_okD(2) [OF f n(1)] cursor_okD(3) [OF f n(1), of "[]" r] by simp_all
  have "slice (drop pos data) 0 n = slice data pos q" by (simp add: slice_def n(2))
  then have "f (slice data pos q @ r) 0 = Inr n" for r using f'(2) [of r] by simp
  then have "sub_cursor ctx (\<lambda>d. f d 0) (pre @ slice data pos q @ r) (length pre) = Inr (length pre + (q - pos))" for pre r
    by (simp add: sub_cursor_def n(2))
  then show "pos \<le> q \<and> q \<le> length data \<and> (\<forall>pre r. sub_cursor ctx (\<lambda>d. f d 0) (pre @ slice data pos q @ r) (length pre) = Inr (length pre + (q - pos)))"
    using f'(1) n(2) p by auto
qed

end
