(* ===== verification/Synthetic_Metadata.thy ===== *)
theory Synthetic_Metadata
  imports Metadata Cursor
begin

text \<open>
  The synthetic Metadata response of load_balance mode,
  \<^verbatim>\<open>internal/routing/synthetic_metadata.go\<close>: both clusters' responses are parsed down to brokers and
  raw topic entries, merged with the primary preferred, and written as one response. The
  skipping parsers are cursors; an entry's offset arithmetic is the code's.
\<close>

section \<open>Skipping parsers\<close>

text \<open>\<open>skipInt32Array(data[pos:])\<close> at an offset.\<close>

definition int32Array :: cursor where
  "int32Array = read32 (too_short ''missing array length'') (\<lambda>count.
     if count < 0 then fail (Errorf ''negative array length'')
     else advance (4 * nat count) (too_short ''truncated array''))"

definition skipInt32Array :: "byte list \<Rightarrow> error + nat" where
  "skipInt32Array data = int32Array data 0"

definition partitionCursor :: "int16 \<Rightarrow> cursor" where
  "partitionCursor version =
     and_then (advance 2 (too_short ''missing partition ErrorCode''))
     (and_then (advance 4 (too_short ''missing PartitionIndex''))
     (and_then (advance 4 (too_short ''missing LeaderId''))
     (and_then (if 7 \<le> sint version then advance 4 (too_short ''missing LeaderEpoch'') else stay)
     (and_then (sub_cursor ''ReplicaNodes'' (\<lambda>d. int32Array d 0))
     (and_then (sub_cursor ''IsrNodes'' (\<lambda>d. int32Array d 0))
     (if 5 \<le> sint version then sub_cursor ''OfflineReplicas'' (\<lambda>d. int32Array d 0) else stay))))))"

definition skipPartition :: "int16 \<Rightarrow> byte list \<Rightarrow> error + nat" where
  "skipPartition version data = partitionCursor version data 0"

record topicEntry =
  teName :: string
  teRawBytes :: "byte list"

text \<open>A topic entry from after its name on.\<close>

definition topicTail :: "int16 \<Rightarrow> cursor" where
  "topicTail version =
     and_then (if 1 \<le> sint version then advance 1 (too_short ''missing IsInternal'') else stay)
     (and_then (read32 (too_short ''missing partition array length'') (\<lambda>partCount.
        if partCount < 0 then fail (Errorf ''negative partition count'')
        else repeat_cursor (nat partCount) (sub_cursor ''partition'' (\<lambda>d. partitionCursor version d 0))))
     (if 8 \<le> sint version then advance 4 (too_short ''missing TopicAuthorizedOperations'') else stay))"

definition topicCursor :: "int16 \<Rightarrow> cursor" where
  "topicCursor version =
     and_then (advance 2 (too_short ''missing topic ErrorCode''))
     (and_then (read16 (too_short ''missing TopicName length'') (\<lambda>nameLen.
        if nameLen < 0 then fail (Errorf ''invalid TopicName length'')
        else if MaxStringLen < nameLen then fail (Errorf ''TopicName exceeds maximum length'')
        else advance (nat nameLen) (too_short ''truncated TopicName'')))
     (topicTail version))"

text \<open>The name starts after the error code and its length; the raw bytes are those moved over.\<close>

definition parseOneTopic :: "int16 \<Rightarrow> byte list \<Rightarrow> error + topicEntry \<times> nat" where
  "parseOneTopic version data =
     (case topicCursor version data 0 of
        Inl e \<Rightarrow> Inl e
      | Inr pos \<Rightarrow> Inr (\<lparr>teName = btos (slice data 4 (4 + nat (sint (Uint16 (drop 2 data))))),
                        teRawBytes = take pos data\<rparr>, pos))"

definition interBrokerCursor :: "int16 \<Rightarrow> cursor" where
  "interBrokerCursor version =
     and_then (if 2 \<le> sint version then read16 (too_short ''missing ClusterId length'') (\<lambda>clusterIDLen.
          if 0 \<le> clusterIDLen then advance (nat clusterIDLen) (too_short ''truncated ClusterId'') else stay) else stay)
     (and_then (if 1 \<le> sint version then advance 4 (too_short ''missing ControllerId'') else stay)
     (if 8 \<le> sint version then advance 4 (too_short ''missing ClusterAuthorizedOperations'') else stay))"

definition parseTopicArray :: "byte list \<Rightarrow> int16 \<Rightarrow> error + topicEntry list \<times> byte list" where
  "parseTopicArray data version =
     (case interBrokerCursor version data 0 of
        Inl e \<Rightarrow> Inl e
      | Inr pos \<Rightarrow>
          let interBrokerBytes = take pos data in
          if length data < pos + 4 then Inl (too_short ''missing topic array length'')
          else
            let topicCount = sint (Uint32 (drop pos data)); pos = pos + 4 in
            if topicCount < 0 then Inl (Errorf ''negative topic count'')
            else if topicCount = 0 then Inr ([], interBrokerBytes)
            else
              (case parse_many (\<lambda>i. ''topic'') (parseOneTopic version) 0 (nat topicCount) data pos of
                 Inl e \<Rightarrow> Inl e
               | Inr (topics, _) \<Rightarrow> Inr (topics, interBrokerBytes)))"

definition parseResponseFrame :: "byte list \<Rightarrow> int16 \<Rightarrow> error + MetadataResponse \<times> int32" where
  "parseResponseFrame raw version =
     (if MaxMetadataResponseSize < length raw then Inl ErrMetadataResponseTooLarge
      else if length raw < 8 then Inl (too_short ''response frame too short'')
      else
        let frameSize = sint (Uint32 raw); correlationID = Uint32 (drop 4 raw) in
        if frameSize < 4 then Inl (Errorf ''invalid frame size'')
        else
          let expectedLen = 4 + nat frameSize in
          if length raw < expectedLen then Inl (too_short ''frame size'')
          else
            (case ParseMetadataResponseBody (slice raw 8 expectedLen) version of
               Inl e \<Rightarrow> Inl e
             | Inr parsed \<Rightarrow> Inr (parsed\<lparr>mrCorrelationID := correlationID\<rparr>, correlationID)))"

section \<open>Merging\<close>

text \<open>The second loop of both merges: append the elements whose key has not been seen.\<close>

fun appendUnseen :: "('a \<Rightarrow> 'k) \<Rightarrow> 'k set \<Rightarrow> 'a list \<Rightarrow> 'a list" where
  "appendUnseen key seen [] = []"
| "appendUnseen key seen (x # xs) =
     (if key x \<notin> seen then x # appendUnseen key (insert (key x) seen) xs else appendUnseen key seen xs)"

definition mergeBrokers :: "Broker list \<Rightarrow> Broker list \<Rightarrow> Broker list" where
  "mergeBrokers primary secondary = primary @ appendUnseen NodeID (set (map NodeID primary)) secondary"

definition mergeTopics :: "topicEntry list \<Rightarrow> topicEntry list \<Rightarrow> topicEntry list" where
  "mergeTopics primary secondary =
     (if primary = [] \<and> secondary = [] then []
      else primary @ appendUnseen teName (set (map teName primary)) secondary)"

section \<open>The synthetic response\<close>

definition topicArray :: "topicEntry list \<Rightarrow> byte list" where
  "topicArray ts = PutUint32 (word_of_nat (length ts)) @ concat (map teRawBytes ts)"

definition buildSyntheticResponse :: "int32 \<Rightarrow> byte list \<Rightarrow> Broker list \<Rightarrow> Broker list \<Rightarrow> byte list \<Rightarrow>
    topicEntry list \<Rightarrow> topicEntry list \<Rightarrow> string \<Rightarrow> int32 \<Rightarrow> int16 \<Rightarrow> error + byte list" where
  "buildSyntheticResponse correlationID bodyBefore primaryBrokers secondaryBrokers interBrokerBytes
      primaryTopics secondaryTopics proxyHost proxyPort version =
     (let mergedBrokers = mergeBrokers primaryBrokers secondaryBrokers;
          mergedTopics = mergeTopics primaryTopics secondaryTopics;
          brokerBuf = brokerArray proxyHost proxyPort version mergedBrokers;
          topicBuf = topicArray mergedTopics;
          newBodyLen = length bodyBefore + length brokerBuf + length interBrokerBytes + length topicBuf;
          sizeFieldValue = 4 + newBodyLen;
          newFrameLen = 4 + sizeFieldValue
      in if MaxMetadataResponseSize < newFrameLen then Inl ErrMetadataResponseTooLarge
         else
           let result = PutUint32 (word_of_nat sizeFieldValue) @ PutUint32 correlationID
                        @ bodyBefore @ brokerBuf @ interBrokerBytes @ topicBuf
           in if Uint32 result \<noteq> word_of_nat (length result - 4) then Inl (Errorf ''internal error: frame size mismatch'')
              else Inr result)"

text \<open>\<open>None\<close> stands for the nil secondary response.\<close>

definition SynthesizeMetadataResponse :: "byte list \<Rightarrow> byte list option \<Rightarrow> string \<Rightarrow> int32 \<Rightarrow> int16 \<Rightarrow> error + byte list" where
  "SynthesizeMetadataResponse primaryResp secondaryResp proxyHost proxyPort apiVersion =
     (if MaxStringLen < int (length proxyHost) then Inl (Wrap ''proxy host'' ErrBrokerHostTooLong)
      else
        (case wrap_err ''parsing primary metadata response'' (parseResponseFrame primaryResp apiVersion) of
           Inl e \<Rightarrow> Inl e
         | Inr (primaryParsed, primaryCorrID) \<Rightarrow>
             (case wrap_err ''parsing primary topics'' (parseTopicArray (bodyAfterBrokers primaryParsed) apiVersion) of
                Inl e \<Rightarrow> Inl e
              | Inr (primaryTopics, interBrokerBytes) \<Rightarrow>
                  let build = (\<lambda>secondaryBrokers secondaryTopics.
                        buildSyntheticResponse primaryCorrID (bodyBeforeBrokers primaryParsed) (Brokers primaryParsed)
                          secondaryBrokers interBrokerBytes primaryTopics secondaryTopics proxyHost proxyPort apiVersion)
                  in case secondaryResp of
                       None \<Rightarrow> build [] []
                     | Some sr \<Rightarrow>
                         (case parseResponseFrame sr apiVersion of
                            Inl _ \<Rightarrow> build [] []
                          | Inr (secondaryParsed, _) \<Rightarrow>
                              (case parseTopicArray (bodyAfterBrokers secondaryParsed) apiVersion of
                                 Inl _ \<Rightarrow> build [] []
                               | Inr (secondaryTopics, _) \<Rightarrow> build (Brokers secondaryParsed) secondaryTopics)))))"

section \<open>The topic entry codec\<close>

lemma cursors_ok: "cursor_ok int32Array" "cursor_ok (partitionCursor v)" "cursor_ok (topicCursor v)" "cursor_ok (interBrokerCursor v)"
  "cursor_ok (topicTail v)"
proof -
  show i: "cursor_ok int32Array" unfolding int32Array_def by (intro cursor_intros)
  show p: "cursor_ok (partitionCursor v)" unfolding partitionCursor_def by (intro cursor_intros i)
  show t: "cursor_ok (topicTail v)" unfolding topicTail_def by (intro cursor_intros p)
  show "cursor_ok (topicCursor v)" unfolding topicCursor_def by (intro cursor_intros t)
  show "cursor_ok (interBrokerCursor v)" unfolding interBrokerCursor_def by (intro cursor_intros)
qed

lemma and_then_Inr: "and_then f g data pos = Inr q \<longleftrightarrow> (\<exists>m. f data pos = Inr m \<and> g data m = Inr q)"
  by (auto simp: and_then_def split: sum.splits)

lemma topic_front:
  assumes "topicCursor v d 0 = Inr n"
  shows "0 \<le> sint (Uint16 (drop 2 d))" and "4 + nat (sint (Uint16 (drop 2 d))) \<le> n" and "n \<le> length d"
proof -
  obtain m where m: "topicTail v d m = Inr n" "0 \<le> sint (Uint16 (drop 2 d))" "m = 4 + nat (sint (Uint16 (drop 2 d)))" "m \<le> length d"
    using assms unfolding topicCursor_def and_then_Inr
    by (auto simp: advance_def read16_def fail_def numeral_eq_Suc split: if_splits)
  then show "0 \<le> sint (Uint16 (drop 2 d))" "4 + nat (sint (Uint16 (drop 2 d))) \<le> n" "n \<le> length d"
    using cursor_okD(1,2) [OF cursors_ok(5) m(1,4)] by auto
qed

lemma topic_local:
  assumes "parseOneTopic v d = Inr (t, n)"
  shows "4 \<le> n" and "n \<le> length d" and "teRawBytes t = take n d" and "parseOneTopic v (take n d @ r) = Inr (t, n)"
proof -
  have c: "topicCursor v d 0 = Inr n" and t: "t = \<lparr>teName = btos (slice d 4 (4 + nat (sint (Uint16 (drop 2 d))))), teRawBytes = take n d\<rparr>"
    using assms by (auto simp: parseOneTopic_def split: sum.splits)
  note f = topic_front [OF c]
  show "4 \<le> n" "n \<le> length d" "teRawBytes t = take n d" using f t by auto
  have "topicCursor v (take n d @ r) 0 = Inr n"
    using cursor_okD(3) [OF cursors_ok(3) c, of "[]" r] by (simp add: slice_def)
  moreover have u: "Uint16 (drop 2 (take n d @ r)) = Uint16 (drop 2 d)"
  proof -
    have "drop 2 (take n d @ r) = take (n - 2) (drop 2 d) @ r" using f by (simp add: drop_take)
    then show ?thesis using f by (simp add: Uint16_append)
  qed
  moreover have "slice (take n d @ r) 4 (4 + k) = slice d 4 (4 + k)" if "4 + k \<le> n" for k
  proof -
    have "drop 4 (take n d @ r) = take (n - 4) (drop 4 d) @ r" using f by (simp add: drop_take)
    moreover have "k \<le> length (take (n - 4) (drop 4 d))" using that f(3) by simp
    ultimately have "take k (drop 4 (take n d @ r)) = take k (take (n - 4) (drop 4 d))" by (simp only: take_append) simp
    then show ?thesis using that by (simp add: slice_def)
  qed
  ultimately show "parseOneTopic v (take n d @ r) = Inr (t, n)" using f by (simp add: parseOneTopic_def t)
qed

definition topic_ok :: "int16 \<Rightarrow> topicEntry \<Rightarrow> bool" where
  "topic_ok v t = (parseOneTopic v (teRawBytes t) = Inr (t, length (teRawBytes t)))"

interpretation tp: prefix_codec "parseOneTopic v" teRawBytes "topic_ok v" for v
proof unfold_locales
  show "n \<le> length d" if "parseOneTopic v d = Inr (x, n)" for d x n using topic_local(2) [OF that] .
  show "parseOneTopic v (take n d @ r) = Inr (x, n)" if "parseOneTopic v d = Inr (x, n)" for d x n r using topic_local(4) [OF that] .
  show "parseOneTopic v (teRawBytes x @ r) = Inr (x, length (teRawBytes x))" if "topic_ok v x" for x r
    using topic_local(4) [OF that [unfolded topic_ok_def], of r] by simp
qed

lemma many_topics_ok:
  "parse_many ctx (parseOneTopic v) i k data pos = Inr (ts, q) \<Longrightarrow> list_all (topic_ok v) ts"
proof (induction k arbitrary: i pos ts)
  case 0
  then show ?case by simp
next
  case (Suc k)
  from Suc.prems obtain x n ys where *: "parseOneTopic v (drop pos data) = Inr (x, n)"
    "parse_many ctx (parseOneTopic v) (Suc i) k data (pos + n) = Inr (ys, q)" "ts = x # ys"
    by (rule parse_many_Suc_Inr)
  have "topic_ok v x" using topic_local(2,3) [OF *(1)] topic_local(4) [OF *(1), of "[]"] by (simp add: topic_ok_def)
  then show ?case using Suc.IH [OF *(2)] *(3) by simp
qed

lemma topic_ok_size: "list_all (topic_ok v) ts \<Longrightarrow> 4 * length ts \<le> length (concat (map teRawBytes ts))"
proof (induction ts)
  case Nil
  then show ?case by simp
next
  case (Cons t ts)
  then have "4 \<le> length (teRawBytes t)" using topic_local(1) [of v "teRawBytes t" t "length (teRawBytes t)"]
    by (simp add: topic_ok_def)
  then show ?case using Cons by simp
qed

lemma parseTopicArray_Inr:
  assumes "parseTopicArray data v = Inr (ts, ib)"
  shows "list_all (topic_ok v) ts" and "interBrokerCursor v ib 0 = Inr (length ib)"
proof -
  obtain pos where pos: "interBrokerCursor v data 0 = Inr pos" "ib = take pos data"
    using assms by (auto simp: parseTopicArray_def Let_def split: sum.splits if_splits)
  have "pos \<le> length data" using cursor_okD(2) [OF cursors_ok(4) pos(1)] by simp
  then show "interBrokerCursor v ib 0 = Inr (length ib)"
    using cursor_okD(3) [OF cursors_ok(4) pos(1), of "[]" "[]"] by (simp add: pos(2) slice_def)
  show "list_all (topic_ok v) ts"
    using assms many_topics_ok by (auto simp: parseTopicArray_def Let_def split: sum.splits if_splits)
qed

lemma parseTopicArray_build:
  assumes "list_all (topic_ok v) ts" and "interBrokerCursor v ib 0 = Inr (length ib)"
    and "length (ib @ topicArray ts) \<le> MaxMetadataResponseSize"
  shows "parseTopicArray (ib @ topicArray ts) v = Inr (ts, ib)"
proof -
  let ?d = "ib @ topicArray ts"
  have "4 * length ts \<le> MaxMetadataResponseSize"
    using topic_ok_size [OF assms(1)] assms(3) by (simp add: topicArray_def)
  then have n: "sint (word_of_nat (length ts) :: int32) = int (length ts)"
    by (intro sint_int32_nonneg) (simp add: MaxMetadataResponseSize_def)
  have c: "interBrokerCursor v ?d 0 = Inr (length ib)"
    using cursor_okD(3) [OF cursors_ok(4) assms(2), of "[]" "topicArray ts"] by (simp add: slice_def)
  have u: "sint (Uint32 (drop (length ib) ?d)) = int (length ts)" by (simp add: topicArray_def n)
  have m: "parse_many (\<lambda>i. ''topic'') (parseOneTopic v) 0 (length ts) ?d (length ib + 4)
      = Inr (ts, length ib + 4 + length (concat (map teRawBytes ts)))"
    using tp.many_enc [OF assms(1), of "\<lambda>i. ''topic''" 0 "ib @ PutUint32 (word_of_nat (length ts))" "[]"]
    by (simp add: topicArray_def)
  have "\<not> length ?d < length ib + 4" by (simp add: topicArray_def)
  then show ?thesis unfolding parseTopicArray_def c Let_def sum.case u using m by (cases "ts = []") simp_all
qed

section \<open>Merging and building\<close>

lemma appendUnseen_keys: "key ` set (appendUnseen key seen xs) = key ` set xs - seen"
  by (induction xs arbitrary: seen) auto

lemma appendUnseen_set: "set (appendUnseen key seen xs) \<subseteq> set xs"
  by (induction xs arbitrary: seen) auto

lemma appendUnseen_distinct: "distinct (map key (appendUnseen key seen xs))"
proof (induction xs arbitrary: seen)
  case Nil
  then show ?case by simp
next
  case (Cons x xs)
  have "key x \<notin> key ` set (appendUnseen key (insert (key x) seen) xs)" by (simp add: appendUnseen_keys)
  then show ?case using Cons by simp
qed

lemma appendUnseen_all: "list_all P xs \<Longrightarrow> list_all P (appendUnseen key seen xs)"
  using appendUnseen_set [of key seen xs] by (auto simp: list_all_iff)

lemma mergeTopics_eq: "mergeTopics p s = p @ appendUnseen teName (set (map teName p)) s"
  by (simp add: mergeTopics_def)

lemma encode_size: "10 * length bs \<le> length (concat (map (encodeBroker v) bs))"
  by (induction bs) (auto simp: encodeBroker_def writeBroker_def)

lemma parseResponseFrame_frame:
  assumes "length (frame corr body) \<le> MaxMetadataResponseSize" and "ParseMetadataResponseBody body v = Inr resp"
  shows "parseResponseFrame (frame corr body) v = Inr (resp\<lparr>mrCorrelationID := corr\<rparr>, corr)"
proof -
  have lb: "length body \<le> MaxMetadataResponseSize" using assms(1) by (simp add: frame_def)
  note f = frame_fields [OF lb, of corr]
  have n: "4 + nat (int (4 + length body)) = 8 + length body" by simp
  have g: "\<not> MaxMetadataResponseSize < length (frame corr body)" "\<not> length (frame corr body) < 8"
    "\<not> int (4 + length body) < 4" "\<not> length (frame corr body) < 8 + length body"
    using assms(1) f(1) by auto
  show ?thesis unfolding parseResponseFrame_def Let_def f(2,3) n f(4) assms(2) using g by simp
qed

lemma parseResponseFrame_Inr:
  assumes "parseResponseFrame raw v = Inr (resp, corr)"
  shows "length (bodyBeforeBrokers resp) = beforeLen v" and "list_all (broker_ok v) (Brokers resp)"
proof -
  obtain r body where "ParseMetadataResponseBody body v = Inr r" "resp = r\<lparr>mrCorrelationID := corr\<rparr>"
    using assms by (auto simp: parseResponseFrame_def Let_def split: if_splits sum.splits)
  then show "length (bodyBeforeBrokers resp) = beforeLen v" "list_all (broker_ok v) (Brokers resp)"
    using ParseBody_Inr(2,3) by auto
qed

lemma build_parses:
  assumes b: "buildSyntheticResponse corr before pb sb ib pt st h p v = Inr out"
    and ok: "length before = beforeLen v" "list_all (broker_ok v) pb" "list_all (broker_ok v) sb" "length h \<le> 32767"
    and tok: "list_all (topic_ok v) pt" "list_all (topic_ok v) st" "interBrokerCursor v ib 0 = Inr (length ib)"
  shows "parseResponseFrame out v = Inr (\<lparr>mrCorrelationID = corr, ThrottleTimeMs = throttle_of v before,
      Brokers = map (\<lambda>b. b\<lparr>Host := h, BrokerPort := p\<rparr>) (mergeBrokers pb sb),
      bodyBeforeBrokers = before, bodyAfterBrokers = ib @ topicArray (mergeTopics pt st)\<rparr>, corr)"
    and "parseTopicArray (ib @ topicArray (mergeTopics pt st)) v = Inr (mergeTopics pt st, ib)"
proof -
  let ?bs = "map (\<lambda>b. b\<lparr>Host := h, BrokerPort := p\<rparr>) (mergeBrokers pb sb)" and ?ts = "mergeTopics pt st"
  let ?body = "before @ encodeBrokers v ?bs @ (ib @ topicArray ?ts)"
  have out: "out = frame corr ?body" and size: "length (frame corr ?body) \<le> MaxMetadataResponseSize"
    using b unfolding buildSyntheticResponse_def Let_def broker_array_encode
    by (auto simp: frame_def algebra_simps split: if_splits)
  have len: "length ?body \<le> MaxMetadataResponseSize" using size by (simp add: frame_def)
  have "list_all (broker_ok v) (mergeBrokers pb sb)"
    using ok(2) appendUnseen_all [OF ok(3)] by (simp add: mergeBrokers_def)
  then have bok: "list_all (broker_ok v) ?bs" using ok(4) by (rule brokers_ok_rewritten)
  have "10 * length ?bs \<le> MaxMetadataResponseSize"
    using encode_size [of ?bs v] len by (simp add: encodeBrokers_def)
  then have "length ?bs < 2 ^ 32" by (simp add: MaxMetadataResponseSize_def)
  from ParseBody_build [OF ok(1) bok this len]
  show "parseResponseFrame out v = Inr (\<lparr>mrCorrelationID = corr, ThrottleTimeMs = throttle_of v before,
      Brokers = ?bs, bodyBeforeBrokers = before, bodyAfterBrokers = ib @ topicArray ?ts\<rparr>, corr)"
    unfolding out using parseResponseFrame_frame [OF size] by simp
  have "list_all (topic_ok v) ?ts" using tok(1) appendUnseen_all [OF tok(2)] by (simp add: mergeTopics_eq)
  then show "parseTopicArray (ib @ topicArray ?ts) v = Inr (?ts, ib)"
    using tok(3) len by (intro parseTopicArray_build) simp_all
qed

text \<open>What the secondary response contributes: nothing when it is missing or does not parse.\<close>

definition secondaryPart :: "byte list option \<Rightarrow> int16 \<Rightarrow> Broker list \<times> topicEntry list" where
  "secondaryPart sr v =
     (case sr of None \<Rightarrow> ([], [])
      | Some raw \<Rightarrow>
          (case parseResponseFrame raw v of
             Inl _ \<Rightarrow> ([], [])
           | Inr (resp, _) \<Rightarrow>
               (case parseTopicArray (bodyAfterBrokers resp) v of
                  Inl _ \<Rightarrow> ([], []) | Inr (ts, _) \<Rightarrow> (Brokers resp, ts))))"

lemma secondaryPart_ok:
  assumes "secondaryPart sr v = (bs, ts)"
  shows "list_all (broker_ok v) bs \<and> list_all (topic_ok v) ts"
  using assms parseResponseFrame_Inr(2) parseTopicArray_Inr(1)
  by (auto simp: secondaryPart_def split: option.splits sum.splits)

lemma Synthesize_Inr:
  assumes "SynthesizeMetadataResponse pr sr h p v = Inr out"
  obtains resp corr ts ib where "parseResponseFrame pr v = Inr (resp, corr)"
    "parseTopicArray (bodyAfterBrokers resp) v = Inr (ts, ib)" "length h \<le> 32767"
    "buildSyntheticResponse corr (bodyBeforeBrokers resp) (Brokers resp) (fst (secondaryPart sr v)) ib ts
       (snd (secondaryPart sr v)) h p v = Inr out"
proof -
  have h: "length h \<le> 32767" using assms by (auto simp: SynthesizeMetadataResponse_def MaxStringLen_def split: if_splits)
  obtain resp corr where r: "parseResponseFrame pr v = Inr (resp, corr)"
    using assms by (auto simp: SynthesizeMetadataResponse_def split: if_splits sum.splits)
  obtain ts ib where t: "parseTopicArray (bodyAfterBrokers resp) v = Inr (ts, ib)"
    using assms r by (auto simp: SynthesizeMetadataResponse_def split: if_splits sum.splits)
  have "buildSyntheticResponse corr (bodyBeforeBrokers resp) (Brokers resp) (fst (secondaryPart sr v)) ib ts
       (snd (secondaryPart sr v)) h p v = Inr out"
    using assms r t
    by (auto simp: SynthesizeMetadataResponse_def secondaryPart_def split: if_splits option.splits sum.splits)
  with r t h show thesis by (rule that)
qed

section \<open>Properties\<close>

text \<open>
  C21. What a merge of two clusters' metadata contains. The primary's brokers and topics come
  first, unchanged and in order; after them come entries of the secondary only, each with a node
  id or topic name the primary does not have, none repeated; and no node id or topic name of
  either cluster is missing.
\<close>
theorem merge_prefers_primary:
  "\<exists>bx tx. mergeBrokers pb sb = pb @ bx \<and> mergeTopics pt st = pt @ tx
     \<and> set bx \<subseteq> set sb \<and> set tx \<subseteq> set st
     \<and> distinct (map NodeID bx) \<and> distinct (map teName tx)
     \<and> NodeID ` set bx \<inter> NodeID ` set pb = {} \<and> teName ` set tx \<inter> teName ` set pt = {}
     \<and> NodeID ` set (mergeBrokers pb sb) = NodeID ` set pb \<union> NodeID ` set sb
     \<and> teName ` set (mergeTopics pt st) = teName ` set pt \<union> teName ` set st"
proof -
  let ?bx = "appendUnseen NodeID (set (map NodeID pb)) sb" and ?tx = "appendUnseen teName (set (map teName pt)) st"
  have k: "NodeID ` set ?bx = NodeID ` set sb - NodeID ` set pb" "teName ` set ?tx = teName ` set st - teName ` set pt"
    by (simp_all add: appendUnseen_keys)
  have m: "mergeBrokers pb sb = pb @ ?bx" "mergeTopics pt st = pt @ ?tx" by (simp_all add: mergeBrokers_def mergeTopics_eq)
  show ?thesis
    by (intro exI [of _ ?bx] exI [of _ ?tx] conjI m appendUnseen_set appendUnseen_distinct)
      (use k in \<open>auto simp: m image_Un\<close>)
qed

text \<open>
  C20. The synthetic response is well formed and says what it should. When it is built, the
  primary response parses, and the result parses again: same correlation id, the primary's bytes
  before the brokers, the merged brokers with every host and port replaced by the proxy's, and,
  after the primary's inter-broker bytes, the merged topics with their raw entries. A secondary
  response that is missing or does not parse contributes nothing.
\<close>
theorem synthetic_response_parses:
  assumes "SynthesizeMetadataResponse pr sr h p v = Inr out"
  shows "\<exists>resp corr ts ib resp'. parseResponseFrame pr v = Inr (resp, corr)
    \<and> parseTopicArray (bodyAfterBrokers resp) v = Inr (ts, ib)
    \<and> parseResponseFrame out v = Inr (resp', corr)
    \<and> bodyBeforeBrokers resp' = bodyBeforeBrokers resp
    \<and> Brokers resp' = map (\<lambda>b. b\<lparr>Host := h, BrokerPort := p\<rparr>) (mergeBrokers (Brokers resp) (fst (secondaryPart sr v)))
    \<and> parseTopicArray (bodyAfterBrokers resp') v = Inr (mergeTopics ts (snd (secondaryPart sr v)), ib)"
proof -
  obtain resp corr ts ib where r: "parseResponseFrame pr v = Inr (resp, corr)"
    and t: "parseTopicArray (bodyAfterBrokers resp) v = Inr (ts, ib)" and h: "length h \<le> 32767"
    and b: "buildSyntheticResponse corr (bodyBeforeBrokers resp) (Brokers resp) (fst (secondaryPart sr v)) ib ts
       (snd (secondaryPart sr v)) h p v = Inr out"
    using Synthesize_Inr [OF assms] .
  note s = secondaryPart_ok [where sr = sr and v = v, OF surjective_pairing]
  note parts = build_parses [OF b parseResponseFrame_Inr [OF r] conjunct1 [OF s] h parseTopicArray_Inr(1) [OF t]
      conjunct2 [OF s] parseTopicArray_Inr(2) [OF t]]
  show ?thesis
    by (rule exI [of _ resp], rule exI [of _ corr], rule exI [of _ ts], rule exI [of _ ib], rule exI)
      (use r t parts in \<open>auto intro!: conjI\<close>)
qed

lemma sample_synthesizes: "\<exists>out. SynthesizeMetadataResponse sample_response None ''proxy'' 9093 0 = Inr out"
proof -
  let ?bs = "[\<lparr>NodeID = 1, Host = ''kafka-1'', BrokerPort = 9092, Rack = '''', RackIsSet = False\<rparr>]"
  have p: "ParseMetadataResponseBody ([] @ encodeBrokers 0 ?bs @ [0, 0, 0, 0]) 0
      = Inr \<lparr>mrCorrelationID = 0, ThrottleTimeMs = throttle_of 0 [], Brokers = ?bs,
             bodyBeforeBrokers = [], bodyAfterBrokers = [0, 0, 0, 0]\<rparr>"
    by (intro ParseBody_build) (simp_all add: beforeLen_def broker_ok_def encodeBrokers_def encodeBroker_def
        writeBroker_def MaxMetadataResponseSize_def)
  have f: "parseResponseFrame sample_response 0 = Inr (\<lparr>mrCorrelationID = 7, ThrottleTimeMs = throttle_of 0 [],
      Brokers = ?bs, bodyBeforeBrokers = [], bodyAfterBrokers = [0, 0, 0, 0]\<rparr>, 7)"
    unfolding sample_response_def
    by (subst parseResponseFrame_frame [OF _ p [unfolded append_Nil]])
      (simp_all add: frame_def encodeBrokers_def encodeBroker_def writeBroker_def MaxMetadataResponseSize_def)
  have t: "parseTopicArray [0, 0, 0, 0] 0 = Inr ([], [])"
    by (simp add: parseTopicArray_def interBrokerCursor_def and_then_def stay_def Uint32_def be_nat_def)
  have "buildSyntheticResponse 7 [] ?bs [] [] [] [] ''proxy'' 9093 0 = Inr out \<Longrightarrow> ?thesis" for out
    by (simp add: SynthesizeMetadataResponse_def MaxStringLen_def f t)
  moreover have "\<exists>out. buildSyntheticResponse 7 [] ?bs [] [] [] [] ''proxy'' 9093 0 = Inr out"
    by (simp add: buildSyntheticResponse_def mergeBrokers_def mergeTopics_def brokerArray_def writeBroker_def
        topicArray_def MaxMetadataResponseSize_def)
  ultimately show ?thesis by blast
qed

theorem synthetic_response_parses_witness:
  "\<exists>out resp' corr. SynthesizeMetadataResponse sample_response None ''proxy'' 9093 0 = Inr out
     \<and> parseResponseFrame out 0 = Inr (resp', corr)"
  using sample_synthesizes synthetic_response_parses by metis

end
