(* ===== verification/Sasl.thy ===== *)
theory Sasl
  imports Protocol Net "HOL-Library.Sublist"
begin

text \<open>
  SASL passthrough, \<^verbatim>\<open>internal/routing/sasl.go\<close>: the handler's authentication flag, the
  single-frame passthrough and the exchange loop that relays SASL Handshake and Authenticate
  frames between the client and the upstream until another request arrives. Every round of the
  loop reads at least six bytes from the client, which is why it ends.
\<close>

section \<open>Frame inspection\<close>

definition IsSASLAuthenticateRequest :: "byte list \<Rightarrow> bool" where
  "IsSASLAuthenticateRequest frame = (6 \<le> length frame \<and> Uint16 (drop 4 frame) = APIKeySaslAuthenticate)"

definition IsSASLRequest :: "byte list \<Rightarrow> bool" where
  "IsSASLRequest header = (6 \<le> length header
     \<and> (Uint16 (drop 4 header) = APIKeySaslHandshake \<or> Uint16 (drop 4 header) = APIKeySaslAuthenticate))"

text \<open>The handler is its \<open>authenticated\<close> flag.\<close>

definition PassthroughRequest :: "byte list \<Rightarrow> byte list" where
  "PassthroughRequest frame = frame"

definition PassthroughResponse :: "byte list \<Rightarrow> bool \<Rightarrow> byte list \<times> bool" where
  "PassthroughResponse frame authenticated =
     (frame, authenticated \<or> (10 \<le> length frame \<and> Uint16 (drop 8 frame) = 0))"

section \<open>Single-frame passthrough\<close>

text \<open>
  \<open>HandleSASLPassthrough\<close> returns its two results and both connections; a panic is an error of
  the panic kind. The buffer for the response body is allocated from the announced size without
  a check.
\<close>

definition HandleSASLPassthrough :: "conn \<Rightarrow> conn \<Rightarrow> bool \<times> error option \<times> conn \<times> conn" where
  "HandleSASLPassthrough client up =
     (case ReadFull 6 client of
        (Inl e, client) \<Rightarrow> (False, Some e, client, up)
      | (Inr header, client) \<Rightarrow>
          if Uint16 (drop 4 header) \<noteq> APIKeySaslAuthenticate then (False, None, client, up)
          else
            let remaining = sint (Uint32 header) - 2 in
            if remaining < 0 then (False, None, client, up)
            else
              (case ReadFull (nat remaining) client of
                 (Inl e, client) \<Rightarrow> (False, Some e, client, up)
               | (Inr payload, client) \<Rightarrow>
                   (case conn_Write (header @ payload) up of
                      (Some e, up) \<Rightarrow> (True, Some e, client, up)
                    | (None, up) \<Rightarrow>
                        (case ReadFull 8 up of
                           (Inl e, up) \<Rightarrow> (True, Some e, client, up)
                         | (Inr respHeader, up) \<Rightarrow>
                             (case make_bytes (sint (Uint32 respHeader) - 4) of
                                Inl p \<Rightarrow> (True, Some p, client, up)
                              | Inr n \<Rightarrow>
                                  (case ReadFull n up of
                                     (Inl e, up) \<Rightarrow> (True, Some e, client, up)
                                   | (Inr respBody, up) \<Rightarrow>
                                       (case conn_Write (respHeader @ respBody) client of
                                          (Some e, client) \<Rightarrow> (True, Some e, client, up)
                                        | (None, client) \<Rightarrow> (True, None, client, up))))))))"

section \<open>The exchange loop\<close>

record SASLExchangeResult =
  seHeader :: "byte list"
  seCorrelationID :: int32
  seClientID :: string

text \<open>The branch for a non-SASL frame: the rest of its header.\<close>

definition readPlainHeader :: "byte list \<Rightarrow> conn \<Rightarrow> (error + SASLExchangeResult) \<times> conn" where
  "readPlainHeader peek client =
     (case ReadFull 8 client of
        (Inl e, client) \<Rightarrow> (Inl (Wrap ''reading non-SASL frame fixed header'' e), client)
      | (Inr fixedRest, client) \<Rightarrow>
          let correlationID = Uint32 (drop 2 fixedRest); clientIDLen = sint (Uint16 (drop 6 fixedRest)) in
          if 0 < clientIDLen then
            (case ReadFull (nat clientIDLen) client of
               (Inl e, client) \<Rightarrow> (Inl (Wrap ''reading client_id from non-SASL frame'' e), client)
             | (Inr clientIDBytes, client) \<Rightarrow>
                 (Inr \<lparr>seHeader = peek @ fixedRest @ clientIDBytes, seCorrelationID = correlationID,
                       seClientID = btos clientIDBytes\<rparr>, client))
          else (Inr \<lparr>seHeader = peek @ fixedRest, seCorrelationID = correlationID, seClientID = ''''\<rparr>, client))"

text \<open>One relayed request and response: the error, the flag, both connections.\<close>

definition relaySASL :: "byte list \<Rightarrow> bool \<Rightarrow> conn \<Rightarrow> conn \<Rightarrow> error option \<times> bool \<times> conn \<times> conn" where
  "relaySASL peek auth client up =
     (let apiKey = Uint16 (drop 4 peek); remaining = sint (Uint32 peek) - 2 in
      if remaining < 0 then (Some (Errorf ''malformed SASL frame''), auth, client, up)
      else
        (case ReadFull (nat remaining) client of
           (Inl e, client) \<Rightarrow> (Some (Wrap ''reading SASL frame payload'' e), auth, client, up)
         | (Inr payload, client) \<Rightarrow>
             (case conn_Write (peek @ payload) up of
                (Some e, up) \<Rightarrow> (Some (Wrap ''forwarding SASL to upstream'' e), auth, client, up)
              | (None, up) \<Rightarrow>
                  (case ReadFull 8 up of
                     (Inl e, up) \<Rightarrow> (Some (Wrap ''reading SASL response header'' e), auth, client, up)
                   | (Inr respHeader, up) \<Rightarrow>
                       let respSize = sint (Uint32 respHeader) in
                       if respSize < 4 then (Some (Errorf ''invalid SASL response size''), auth, client, up)
                       else
                         (case ReadFull (nat (respSize - 4)) up of
                            (Inl e, up) \<Rightarrow> (Some (Wrap ''reading SASL response body'' e), auth, client, up)
                          | (Inr respBody, up) \<Rightarrow>
                              let fullResponse = respHeader @ respBody;
                                  auth = (if apiKey = APIKeySaslAuthenticate
                                          then snd (PassthroughResponse fullResponse auth) else auth)
                              in case conn_Write fullResponse client of
                                   (Some e, client) \<Rightarrow> (Some (Wrap ''forwarding SASL response to client'' e), auth, client, up)
                                 | (None, client) \<Rightarrow> (None, auth, client, up))))))"

lemma relaySASL_cin: "relaySASL peek auth client up = (r, auth', client', up') \<Longrightarrow> length (cin client') \<le> length (cin client)"
  by (auto simp: relaySASL_def ReadFull_def conn_Write_def Let_def split: if_splits)

function HandleSASLExchange :: "bool \<Rightarrow> conn \<Rightarrow> conn \<Rightarrow> (error + SASLExchangeResult) \<times> bool \<times> conn \<times> conn" where
  "HandleSASLExchange auth client up =
     (case ReadFull 6 client of
        (Inl e, client1) \<Rightarrow> (Inl (Wrap ''reading SASL frame header'' e), auth, client1, up)
      | (Inr peek, client1) \<Rightarrow>
          if Uint16 (drop 4 peek) \<noteq> APIKeySaslHandshake \<and> Uint16 (drop 4 peek) \<noteq> APIKeySaslAuthenticate
          then (case readPlainHeader peek client1 of (r, client2) \<Rightarrow> (r, auth, client2, up))
          else
            (case relaySASL peek auth client1 up of
               (Some e, auth2, client2, up2) \<Rightarrow> (Inl e, auth2, client2, up2)
             | (None, auth2, client2, up2) \<Rightarrow> HandleSASLExchange auth2 client2 up2))"
  by pat_completeness auto

termination
  by (relation "measure (\<lambda>(auth, client, up). length (cin client))")
    (auto simp: ReadFull_def split: if_splits dest!: relaySASL_cin [OF sym])

declare HandleSASLExchange.simps [simp del]

section \<open>What a relay moves\<close>

text \<open>A request the loop relays, a response, and what an exchange of them authenticates.\<close>

definition sasl_request :: "byte list \<Rightarrow> bool" where
  "sasl_request q \<longleftrightarrow> IsSASLRequest q \<and> int (length q) = 4 + sint (Uint32 q)"

definition sasl_response :: "byte list \<Rightarrow> bool" where
  "sasl_response r \<longleftrightarrow> 8 \<le> length r \<and> int (length r) = 4 + sint (Uint32 r)"

definition authenticates :: "byte list \<times> byte list \<Rightarrow> bool" where
  "authenticates = (\<lambda>(q, r). IsSASLAuthenticateRequest q \<and> 10 \<le> length r \<and> Uint16 (drop 8 r) = 0)"

lemma relaySASL_None:
  assumes "relaySASL peek auth c u = (None, auth', c', u')" and "length peek = 6"
    and "Uint16 (drop 4 peek) = APIKeySaslHandshake \<or> Uint16 (drop 4 peek) = APIKeySaslAuthenticate"
  shows "\<exists>q r. sasl_request q \<and> sasl_response r \<and> (\<exists>p. q = peek @ p \<and> cin c = p @ cin c') \<and> cin u = r @ cin u'
    \<and> cout u' = cout u @ q \<and> cout c' = cout c @ r \<and> (auth' \<longleftrightarrow> auth \<or> authenticates (q, r))"
proof -
  let ?n = "nat (sint (Uint32 peek) - 2)"
  let ?p = "take ?n (cin c)" and ?h = "take 8 (cin u)"
  let ?m = "nat (sint (Uint32 ?h) - 4)"
  let ?b = "take ?m (drop 8 (cin u))"
  have a: "0 \<le> sint (Uint32 peek) - 2" "?n \<le> length (cin c)" "8 \<le> length (cin u)" "4 \<le> sint (Uint32 ?h)"
    "8 + ?m \<le> length (cin u)" "cin c' = drop ?n (cin c)" "cin u' = drop (8 + ?m) (cin u)"
    "cout u' = cout u @ peek @ ?p" "cout c' = cout c @ ?h @ ?b"
    "auth' = (if Uint16 (drop 4 peek) = APIKeySaslAuthenticate then snd (PassthroughResponse (?h @ ?b) auth) else auth)"
    using assms(1) by (auto simp: relaySASL_def conn_io Let_def ReadFull_def conn_Write_def add.commute split: if_splits)
  let ?q = "peek @ ?p" and ?r = "?h @ ?b"
  have u16: "Uint16 (drop 4 ?q) = Uint16 (drop 4 peek)" using assms(2) by (simp add: Uint16_append)
  have u32: "Uint32 ?q = Uint32 peek" using assms(2) by (simp add: Uint32_append)
  have "Uint32 ?r = Uint32 ?h" using a(3) by (subst Uint32_append) simp_all
  then have "sasl_response ?r" using a(3,4,5) by (simp add: sasl_response_def)
  moreover have "sasl_request ?q" using assms(2,3) a(1,2) u16 u32 by (simp add: sasl_request_def IsSASLRequest_def)
  moreover have "auth' \<longleftrightarrow> auth \<or> authenticates (?q, ?r)"
    using a(10) u16 assms(2) by (simp add: authenticates_def PassthroughResponse_def IsSASLAuthenticateRequest_def)
  moreover have "cin u = ?r @ cin u'" using a(7) by (metis append.assoc append_take_drop_id drop_drop add.commute)
  ultimately show ?thesis using a(6,8,9) by (intro exI [of _ ?q] exI [of _ ?r]) auto
qed

lemma prefix_take2: "prefix (take n xs @ take (n - length xs) ys) (xs @ ys)"
  using take_is_prefix [of n "xs @ ys"] by simp

lemma prefix_take8: "prefix (take (min n 8) xs @ take (n - 8) (drop 8 xs)) xs"
proof -
  have "take (min n 8) xs @ take (n - 8) (drop 8 xs) = take n xs"
    by (cases "n \<le> 8") (use take_add [of 8 "n - 8" xs] in auto)
  then show ?thesis by (metis take_is_prefix)
qed

text \<open>On failure the upstream has at most been sent the client's bytes, and the client the upstream's.\<close>

lemma relaySASL_error:
  assumes "relaySASL peek auth c u = (Some e, auth', c', u')"
  shows "\<not> is_panic e \<and> (\<exists>x. cout u' = cout u @ x \<and> prefix x (peek @ cin c))
    \<and> (\<exists>y. cout c' = cout c @ y \<and> prefix y (cin u))"
  using assms
  by (auto simp: relaySASL_def Let_def ReadFull_def conn_Write_def take_is_prefix prefix_take2 prefix_take8
      split: if_splits intro: exI [of _ "[]"])

lemma readPlainHeader_Inr:
  assumes "readPlainHeader peek c = (Inr res, c')" and "length peek = 6"
  shows "\<exists>p. seHeader res = peek @ p \<and> cin c = p @ cin c' \<and> cout c' = cout c"
    and "ParseRequestHeader (seHeader res) = Inr \<lparr>rhSize = Uint32 peek, rhAPIKey = Uint16 (drop 4 peek),
      rhAPIVersion = Uint16 (drop 6 (seHeader res)), rhCorrelationID = seCorrelationID res, rhClientID = seClientID res\<rparr>"
proof -
  define f where "f = take 8 (cin c)"
  define l where "l = sint (Uint16 (drop 6 f))"
  define p where "p = (if 0 < l then take (nat l) (drop 8 (cin c)) else [])"
  have l8: "length f = 8" using assms(1) by (auto simp: f_def readPlainHeader_def ReadFull_def split: if_splits)
  have r: "res = \<lparr>seHeader = peek @ f @ p, seCorrelationID = Uint32 (drop 2 f), seClientID = btos p\<rparr>"
    "cin c' = drop (length p) (drop 8 (cin c))" "cout c' = cout c" "length p = nat l"
    using assms(1)
    by (auto simp: readPlainHeader_def ReadFull_def Let_def f_def [symmetric] l_def [symmetric] p_def split: if_splits)
  have "drop 8 (cin c) = p @ cin c'" unfolding r(2,4) by (cases "0 < l") (simp_all add: p_def del: drop_drop)
  then have "cin c = (f @ p) @ cin c'" unfolding f_def by (metis append.assoc append_take_drop_id)
  then show "\<exists>p. seHeader res = peek @ p \<and> cin c = p @ cin c' \<and> cout c' = cout c" using r by auto
  define d where "d = peek @ f @ p"
  have len: "length d = 14 + nat l" using assms(2) l8 r(4) by (simp add: d_def)
  have u: "Uint32 (slice d 0 4) = Uint32 peek" "Uint16 (slice d 4 6) = Uint16 (drop 4 peek)"
    "Uint16 (slice d 6 8) = Uint16 (drop 6 d)" "Uint32 (slice d 8 12) = Uint32 (drop 2 f)"
    "Uint16 (slice d 12 14) = Uint16 (drop 6 f)" "0 < l \<Longrightarrow> slice d 14 (14 + nat l) = p"
    using assms(2) l8 r(4) by (simp_all add: slice_def d_def Uint16_append Uint32_append)
  have "ParseRequestHeader d = Inr \<lparr>rhSize = Uint32 peek, rhAPIKey = Uint16 (drop 4 peek),
      rhAPIVersion = Uint16 (drop 6 d), rhCorrelationID = Uint32 (drop 2 f), rhClientID = btos p\<rparr>"
    using u(6) len unfolding ParseRequestHeader_def u(1-5) fixedHeaderLen_def Let_def l_def [symmetric]
    by (cases "0 < l") (simp_all add: p_def)
  then show "ParseRequestHeader (seHeader res) = Inr \<lparr>rhSize = Uint32 peek, rhAPIKey = Uint16 (drop 4 peek),
      rhAPIVersion = Uint16 (drop 6 (seHeader res)), rhCorrelationID = seCorrelationID res, rhClientID = seClientID res\<rparr>"
    by (simp add: r(1) d_def)
qed

lemma readPlainHeader_Inl: "readPlainHeader peek c = (Inl e, c') \<Longrightarrow> \<not> is_panic e \<and> cout c' = cout c"
  by (auto simp: readPlainHeader_def ReadFull_def Let_def split: if_splits)

section \<open>Properties\<close>

lemma exchange_success:
  "HandleSASLExchange auth c u = (Inr res, auth', c', u') \<Longrightarrow>
   \<exists>ps. list_all (\<lambda>(q, r). sasl_request q \<and> sasl_response r) ps
     \<and> cin c = concat (map fst ps) @ seHeader res @ cin c' \<and> cout u' = cout u @ concat (map fst ps)
     \<and> cin u = concat (map snd ps) @ cin u' \<and> cout c' = cout c @ concat (map snd ps)
     \<and> (auth' \<longleftrightarrow> auth \<or> list_ex authenticates ps)
     \<and> \<not> IsSASLRequest (seHeader res)
     \<and> (\<exists>h. ParseRequestHeader (seHeader res) = Inr h \<and> rhCorrelationID h = seCorrelationID res \<and> rhClientID h = seClientID res)"
proof (induction auth c u rule: HandleSASLExchange.induct)
  case (1 auth c u)
  obtain peek c1 where p: "ReadFull 6 c = (Inr peek, c1)"
    using "1.prems" by (cases "ReadFull 6 c"; cases "fst (ReadFull 6 c)") (auto simp: HandleSASLExchange.simps [of auth c u])
  then have peek: "length peek = 6" "cin c = peek @ cin c1" "cout c1 = cout c" by (auto simp: ReadFull_Inr)
  show ?case
  proof (cases "Uint16 (drop 4 peek) \<noteq> APIKeySaslHandshake \<and> Uint16 (drop 4 peek) \<noteq> APIKeySaslAuthenticate")
    case True
    then have r: "readPlainHeader peek c1 = (Inr res, c')" "auth' = auth" "u' = u"
      using "1.prems" p by (auto simp: HandleSASLExchange.simps [of auth c u] split: prod.splits)
    note h = readPlainHeader_Inr [OF r(1) peek(1)]
    obtain q where q: "seHeader res = peek @ q" "cin c1 = q @ cin c'" "cout c' = cout c1" using h(1) by blast
    have "\<not> IsSASLRequest (seHeader res)" using True peek(1) by (simp add: q(1) IsSASLRequest_def Uint16_append)
    then show ?thesis using q r peek h(2) by (intro exI [of _ "[]"]) simp
  next
    case False
    then obtain auth2 c2 u2 where r: "relaySASL peek auth c1 u = (None, auth2, c2, u2)"
        "HandleSASLExchange auth2 c2 u2 = (Inr res, auth', c', u')"
      using "1.prems" p by (auto simp: HandleSASLExchange.simps [of auth c u] split: prod.splits option.splits)
    have key: "Uint16 (drop 4 peek) = APIKeySaslHandshake \<or> Uint16 (drop 4 peek) = APIKeySaslAuthenticate" using False by auto
    obtain q rr pl where x: "sasl_request q" "sasl_response rr" "q = peek @ pl" "cin c1 = pl @ cin c2" "cin u = rr @ cin u2"
        "cout u2 = cout u @ q" "cout c2 = cout c1 @ rr" "auth2 \<longleftrightarrow> auth \<or> authenticates (q, rr)"
      using relaySASL_None [OF r(1) peek(1) key] by blast
    from "1.IH" [OF p [symmetric] refl False r(1) [symmetric] refl refl refl r(2)]
    obtain ps where "list_all (\<lambda>(q, r). sasl_request q \<and> sasl_response r) ps"
      "cin c2 = concat (map fst ps) @ seHeader res @ cin c'" "cout u' = cout u2 @ concat (map fst ps)"
      "cin u2 = concat (map snd ps) @ cin u'" "cout c' = cout c2 @ concat (map snd ps)"
      "auth' \<longleftrightarrow> auth2 \<or> list_ex authenticates ps" "\<not> IsSASLRequest (seHeader res)"
      "\<exists>h. ParseRequestHeader (seHeader res) = Inr h \<and> rhCorrelationID h = seCorrelationID res \<and> rhClientID h = seClientID res"
      by blast
    then show ?thesis using x peek by (intro exI [of _ "(q, rr) # ps"]) auto
  qed
qed

lemma exchange_failure:
  "HandleSASLExchange auth c u = (Inl e, auth', c', u') \<Longrightarrow>
   \<not> is_panic e \<and> (\<exists>x y. cout u' = cout u @ x \<and> prefix x (cin c) \<and> cout c' = cout c @ y \<and> prefix y (cin u))"
proof (induction auth c u rule: HandleSASLExchange.induct)
  case (1 auth c u)
  show ?case
  proof (cases "ReadFull 6 c")
    case (Pair r c1)
    show ?thesis
    proof (cases r)
      case (Inl e')
      then show ?thesis using "1.prems" Pair
        by (auto simp: HandleSASLExchange.simps [of auth c u] ReadFull_Inl)
    next
      case (Inr peek)
      have p: "ReadFull 6 c = (Inr peek, c1)" using Pair Inr by simp
      then have peek: "length peek = 6" "cin c = peek @ cin c1" "cout c1 = cout c" by (auto simp: ReadFull_Inr)
      show ?thesis
      proof (cases "Uint16 (drop 4 peek) \<noteq> APIKeySaslHandshake \<and> Uint16 (drop 4 peek) \<noteq> APIKeySaslAuthenticate")
        case True
        then have r: "readPlainHeader peek c1 = (Inl e, c')" "u' = u"
          using "1.prems" p by (auto simp: HandleSASLExchange.simps [of auth c u] split: prod.splits)
        then show ?thesis using readPlainHeader_Inl [OF r(1)] peek by auto
      next
        case False
        then have key: "Uint16 (drop 4 peek) = APIKeySaslHandshake \<or> Uint16 (drop 4 peek) = APIKeySaslAuthenticate" by auto
        obtain eo auth2 c2 u2 where r: "relaySASL peek auth c1 u = (eo, auth2, c2, u2)" by (metis prod_cases4)
        show ?thesis
        proof (cases eo)
          case (Some e')
          then have e: "e' = e" "c2 = c'" "u2 = u'"
            using "1.prems" p False r by (auto simp: HandleSASLExchange.simps [of auth c u] split: if_splits)
          then show ?thesis using relaySASL_error [of peek auth c1 u e auth2 c' u'] r Some peek by auto
        next
          case None
          then have rr: "relaySASL peek auth c1 u = (None, auth2, c2, u2)"
              "HandleSASLExchange auth2 c2 u2 = (Inl e, auth', c', u')"
            using "1.prems" p False r by (auto simp: HandleSASLExchange.simps [of auth c u] split: if_splits)
          obtain q r' pl where x: "q = peek @ pl" "cin c1 = pl @ cin c2" "cin u = r' @ cin u2"
              "cout u2 = cout u @ q" "cout c2 = cout c1 @ r'"
            using relaySASL_None [OF rr(1) peek(1) key] by blast
          from "1.IH" [OF p [symmetric] refl False rr(1) [symmetric] refl refl refl rr(2)]
          obtain v w where "\<not> is_panic e" "cout u' = cout u2 @ v" "prefix v (cin c2)" "cout c' = cout c2 @ w" "prefix w (cin u2)"
            by blast
          then show ?thesis using x peek by (intro conjI exI [of _ "q @ v"] exI [of _ "r' @ w"]) auto
        qed
      qed
    qed
  qed
qed

text \<open>
  C22. The SASL exchange is transparent. When the loop hands over to the caller, the client's
  input was a sequence of SASL requests followed by the returned header of the first other
  request, and the upstream's input a sequence of responses: exactly the requests were written
  to the upstream and exactly the responses to the client, byte for byte and in order, each one
  a complete frame. The connection is then authenticated exactly if it was before or one of the
  Authenticate requests was answered with error code 0, and the returned header parses as a
  request with the reported correlation id and client id.
\<close>
theorem sasl_exchange_transparent:
  assumes "HandleSASLExchange auth client up = (Inr res, auth', client', up')"
  shows "\<exists>ps. list_all (\<lambda>(q, r). sasl_request q \<and> sasl_response r) ps
    \<and> cin client = concat (map fst ps) @ seHeader res @ cin client'
    \<and> cout up' = cout up @ concat (map fst ps)
    \<and> cin up = concat (map snd ps) @ cin up'
    \<and> cout client' = cout client @ concat (map snd ps)
    \<and> (auth' \<longleftrightarrow> auth \<or> (\<exists>(q, r) \<in> set ps. IsSASLAuthenticateRequest q \<and> 10 \<le> length r \<and> Uint16 (drop 8 r) = 0))
    \<and> \<not> IsSASLRequest (seHeader res)
    \<and> (\<exists>h. ParseRequestHeader (seHeader res) = Inr h \<and> rhCorrelationID h = seCorrelationID res
         \<and> rhClientID h = seClientID res)"
  using exchange_success [OF assms] unfolding list_ex_iff authenticates_def case_prod_unfold by simp

text \<open>
  C23. The SASL exchange never injects, reorders or alters bytes and never panics, also when it
  fails: whatever goes wrong, with any bytes from both sides and connections that may break at
  any write, the upstream was sent a prefix of the client's bytes, the client a prefix of the
  upstream's, and the error is an ordinary one.
\<close>
theorem sasl_exchange_safe:
  assumes "HandleSASLExchange auth client up = (Inl e, auth', client', up')"
  shows "\<not> is_panic e \<and> (\<exists>x. cout up' = cout up @ x \<and> prefix x (cin client))
    \<and> (\<exists>y. cout client' = cout client @ y \<and> prefix y (cin up))"
  using exchange_failure [OF assms] by blast

text \<open>A concrete exchange: one Authenticate request, answered with error code 0, then ApiVersions.\<close>

abbreviation sasl_demo_client :: conn where
  "sasl_demo_client \<equiv> \<lparr>cin = [0,0,0,10, 0,36, 0,0, 0,0,0,7, 0,0] @ [0,0,0,11, 0,18, 0,0, 0,0,0,8, 0,1,107],
    cout = [], cwok = 99\<rparr>"

abbreviation sasl_demo_upstream :: conn where
  "sasl_demo_upstream \<equiv> \<lparr>cin = [0,0,0,8, 0,0,0,7, 0,0, 0,0], cout = [], cwok = 99\<rparr>"

lemmas sasl_run = HandleSASLExchange.simps relaySASL_def readPlainHeader_def PassthroughResponse_def ReadFull_def
  conn_Write_def Let_def

lemma sasl_demo:
  "fst (HandleSASLExchange False sasl_demo_client sasl_demo_upstream)
     = Inr \<lparr>seHeader = [0,0,0,11, 0,18, 0,0, 0,0,0,8, 0,1,107], seCorrelationID = 8, seClientID = ''k''\<rparr>"
  "fst (snd (HandleSASLExchange False sasl_demo_client sasl_demo_upstream))"
  by (code_simp, code_simp)

theorem sasl_exchange_transparent_witness:
  "\<exists>res auth' client' up'. HandleSASLExchange False sasl_demo_client sasl_demo_upstream = (Inr res, auth', client', up')
     \<and> auth' \<and> (\<exists>ps :: (byte list \<times> byte list) list. cin sasl_demo_client = concat (map fst ps) @ seHeader res @ cin client')"
proof -
  obtain res a c u where r: "HandleSASLExchange False sasl_demo_client sasl_demo_upstream = (Inr res, a, c, u)"
    using sasl_demo(1) by (metis prod.collapse)
  then have a: "a" using sasl_demo(2) by simp
  obtain ps :: "(byte list \<times> byte list) list" where "cin sasl_demo_client = concat (map fst ps) @ seHeader res @ cin c"
    using sasl_exchange_transparent [OF r] by (elim exE conjE) (rule that)
  then show ?thesis
    by (intro exI [of _ res] exI [of _ a] exI [of _ c] exI [of _ u] exI [of _ ps] conjI r a)
qed

theorem sasl_exchange_safe_witness:
  "\<exists>e auth' client' up'. HandleSASLExchange False sasl_demo_client \<lparr>cin = [0,0,0,2, 0,0,0,7], cout = [], cwok = 99\<rparr>
     = (Inl e, auth', client', up') \<and> \<not> is_panic e"
proof -
  have f: "fst (HandleSASLExchange False sasl_demo_client \<lparr>cin = [0,0,0,2, 0,0,0,7], cout = [], cwok = 99\<rparr>)
    = Inl (Errorf ''invalid SASL response size'')" by code_simp
  then obtain a c u where "HandleSASLExchange False sasl_demo_client \<lparr>cin = [0,0,0,2, 0,0,0,7], cout = [], cwok = 99\<rparr>
    = (Inl (Errorf ''invalid SASL response size''), a, c, u)" by (metis prod.collapse)
  from sasl_exchange_safe [OF this] show ?thesis using f by (metis prod.collapse is_panic.simps)
qed

text \<open>
Both SASL paths meet a response header that announces fewer than its own four bytes
  differently. For any complete Authenticate request of the client and a reachable upstream, the
  single-frame passthrough panics exactly if the announced size is below 4, and there the
  exchange loop returns an ordinary error instead and forwards nothing to the client.
\<close>
theorem sasl_short_response:
  assumes "sasl_request q" and "IsSASLAuthenticateRequest q" and "cin c = q @ w" and "length q \<le> cwok u"
    and "cin u = h @ rest" and "length h = 8"
  shows "((\<exists>p. fst (snd (HandleSASLPassthrough c u)) = Some p \<and> is_panic p) \<longleftrightarrow> sint (Uint32 h) < 4)
    \<and> (sint (Uint32 h) < 4 \<longrightarrow> (\<exists>c' u'. HandleSASLExchange auth c u
          = (Inl (Errorf ''invalid SASL response size''), auth, c', u') \<and> cout c' = cout c \<and> cout u' = cout u @ q))"
proof -
  obtain pk p where q: "q = pk @ p" "length pk = 6"
    using assms(2) by (intro that [of "take 6 q" "drop 6 q"]) (simp_all add: IsSASLAuthenticateRequest_def)
  have k: "Uint16 (drop 4 pk) = APIKeySaslAuthenticate" "sint (Uint32 pk) = 2 + int (length p)"
    using assms(1,2) q by (simp_all add: sasl_request_def IsSASLAuthenticateRequest_def Uint16_append Uint32_append)
  let ?c1 = "c\<lparr>cin := p @ w\<rparr>" and ?c2 = "c\<lparr>cin := w\<rparr>"
  let ?u1 = "u\<lparr>cout := cout u @ q, cwok := cwok u - length q\<rparr>"
  have io: "ReadFull 6 c = (Inr pk, ?c1)" "ReadFull (length p) ?c1 = (Inr p, ?c2)" "conn_Write (pk @ p) u = (None, ?u1)"
    "ReadFull 8 ?u1 = (Inr h, ?u1\<lparr>cin := rest\<rparr>)"
    using assms(3-6) q by (simp_all add: conn_io)
  have pass: "fst (snd (HandleSASLPassthrough c u)) =
    (case make_bytes (sint (Uint32 h) - 4) of Inl p \<Rightarrow> Some p
     | Inr n \<Rightarrow> (case ReadFull n (?u1\<lparr>cin := rest\<rparr>) of (Inl e, up) \<Rightarrow> Some e
        | (Inr respBody, up) \<Rightarrow> fst (conn_Write (h @ respBody) ?c2)))"
    unfolding HandleSASLPassthrough_def io(1) using k io(2-4)
    by (auto simp: make_bytes_def split: prod.splits sum.splits option.splits)
  have "(\<exists>p. fst (snd (HandleSASLPassthrough c u)) = Some p \<and> is_panic p) \<longleftrightarrow> sint (Uint32 h) < 4"
    unfolding pass by (auto simp: make_bytes_def ReadFull_def conn_Write_def)
  moreover have "HandleSASLExchange auth c u = (Inl (Errorf ''invalid SASL response size''), auth, ?c2, ?u1\<lparr>cin := rest\<rparr>)"
    if "sint (Uint32 h) < 4"
  proof -
    have "relaySASL pk auth ?c1 u = (Some (Errorf ''invalid SASL response size''), auth, ?c2, ?u1\<lparr>cin := rest\<rparr>)"
      using k io(2-4) that by (simp add: relaySASL_def Let_def)
    then show ?thesis by (subst HandleSASLExchange.simps) (simp add: io(1) k(1))
  qed
  ultimately show ?thesis by auto
qed

theorem sasl_short_response_witness:
  "\<exists>p. fst (snd (HandleSASLPassthrough sasl_demo_client \<lparr>cin = [0,0,0,2, 0,0,0,7], cout = [], cwok = 99\<rparr>)) = Some p
     \<and> is_panic p"
proof -
  have "sasl_request [0,0,0,10, 0,36, 0,0, 0,0,0,7, 0,0]" "IsSASLAuthenticateRequest [0,0,0,10, 0,36, 0,0, 0,0,0,7, 0,0]"
    "sint (Uint32 [0,0,0,2, 0,0,0,7]) = 2" by code_simp+
  then show ?thesis
    using sasl_short_response [where q = "[0,0,0,10, 0,36, 0,0, 0,0,0,7, 0,0]" and c = sasl_demo_client and u = "\<lparr>cin = [0,0,0,2, 0,0,0,7], cout = [], cwok = 99\<rparr>"
        and w = "[0,0,0,11, 0,18, 0,0, 0,0,0,8, 0,1,107]" and h = "[0,0,0,2, 0,0,0,7]" and rest = "[]"]
    by simp
qed

end
