(* ===== verification/Leader_Cache.thy ===== *)
theory Leader_Cache
  imports Config Health "HOL-Library.Sublist"
begin

text \<open>
  The partition leader caches. The routing package states the cache as the Go interface
  \<^verbatim>\<open>PartitionLeaderCache\<close> (\<^verbatim>\<open>internal/routing/cache.go\<close>); it is the locale \<open>leader_cache\<close> here, with
  the two implementations as its interpretations: the flat string-keyed map of the routing package
  and the nested map of \<^verbatim>\<open>internal/pool/leader_cache.go\<close>. The second half is the latter's metadata
  refresh: request encoder, response reader, version 0 response parser, SASL credentials, and the
  life cycle of the background refreshers.
\<close>

section \<open>The interface\<close>

datatype cache_op = SetLeaderOp string string int32 string | InvalidateOp string

fun apply_op :: "('s \<Rightarrow> string \<Rightarrow> string \<Rightarrow> int32 \<Rightarrow> string \<Rightarrow> 's) \<Rightarrow> ('s \<Rightarrow> string \<Rightarrow> 's) \<Rightarrow> cache_op \<Rightarrow> 's \<Rightarrow> 's" where
  "apply_op setl inval (SetLeaderOp c t p a) s = setl s c t p a"
| "apply_op setl inval (InvalidateOp c) s = inval s c"

fun op_ok :: "(string \<Rightarrow> bool) \<Rightarrow> cache_op \<Rightarrow> bool" where
  "op_ok name_ok (SetLeaderOp c t p a) = (name_ok c \<and> name_ok t)"
| "op_ok name_ok (InvalidateOp c) = name_ok c"

text \<open>The abstract cache is a map from cluster, topic and partition to an address.\<close>

fun spec_op :: "cache_op \<Rightarrow> (string \<times> string \<times> int32 \<rightharpoonup> string) \<Rightarrow> (string \<times> string \<times> int32 \<rightharpoonup> string)" where
  "spec_op (SetLeaderOp c t p a) m = m((c, t, p) \<mapsto> a)"
| "spec_op (InvalidateOp c) m = (\<lambda>(c', t, p). if c' = c then None else m (c', t, p))"

locale leader_cache =
  fixes get :: "'s \<Rightarrow> string \<Rightarrow> string \<Rightarrow> int32 \<Rightarrow> string option"
    and setl :: "'s \<Rightarrow> string \<Rightarrow> string \<Rightarrow> int32 \<Rightarrow> string \<Rightarrow> 's"
    and inval :: "'s \<Rightarrow> string \<Rightarrow> 's"
    and name_ok :: "string \<Rightarrow> bool"
  assumes get_set: "name_ok c \<Longrightarrow> name_ok t \<Longrightarrow> name_ok c' \<Longrightarrow> name_ok t' \<Longrightarrow>
      get (setl s c t p a) c' t' p' = (if c' = c \<and> t' = t \<and> p' = p then Some a else get s c' t' p')"
    and get_invalidate: "name_ok c \<Longrightarrow> name_ok c' \<Longrightarrow>
      get (inval s c) c' t p = (if c' = c then None else get s c' t p)"
begin

lemma run_refines:
  "list_all (op_ok name_ok) ops \<Longrightarrow> name_ok c \<Longrightarrow> name_ok t \<Longrightarrow> (\<And>c t p. name_ok c \<Longrightarrow> name_ok t \<Longrightarrow> get s c t p = m (c, t, p)) \<Longrightarrow>
   get (fold (apply_op setl inval) ops s) c t p = fold spec_op ops m (c, t, p)"
proof (induction ops arbitrary: s m)
  case Nil
  then show ?case by simp
next
  case (Cons x xs)
  show ?case
  proof (cases x)
    case (SetLeaderOp c1 t1 p1 a)
    then have "get (setl s c1 t1 p1 a) c' t' p' = (m((c1, t1, p1) \<mapsto> a)) (c', t', p')" if "name_ok c'" "name_ok t'" for c' t' p'
      using Cons.prems that by (simp add: get_set)
    then show ?thesis using Cons.prems Cons.IH SetLeaderOp by simp
  next
    case (InvalidateOp c1)
    then have "get (inval s c1) c' t' p' = (\<lambda>(c', t, p). if c' = c1 then None else m (c', t, p)) (c', t', p')"
      if "name_ok c'" "name_ok t'" for c' t' p'
      using Cons.prems that by (simp add: get_invalidate)
    then show ?thesis using Cons.prems Cons.IH InvalidateOp by simp
  qed
qed

end

section \<open>The flat implementation\<close>

type_synonym MapPartitionLeaderCache = "string \<rightharpoonup> string"

definition NewMapPartitionLeaderCache :: MapPartitionLeaderCache where
  "NewMapPartitionLeaderCache = Map.empty"

definition key :: "string \<Rightarrow> string \<Rightarrow> int32 \<Rightarrow> string" where
  "key cluster topic prt = cluster @ ''/'' @ topic @ ''/'' @ show_int (sint prt)"

definition map_GetLeader :: "MapPartitionLeaderCache \<Rightarrow> string \<Rightarrow> string \<Rightarrow> int32 \<Rightarrow> string option" where
  "map_GetLeader data cluster topic prt = data (key cluster topic prt)"

definition map_SetLeader :: "MapPartitionLeaderCache \<Rightarrow> string \<Rightarrow> string \<Rightarrow> int32 \<Rightarrow> string \<Rightarrow> MapPartitionLeaderCache" where
  "map_SetLeader data cluster topic prt brokerAddr = data(key cluster topic prt \<mapsto> brokerAddr)"

definition map_Invalidate :: "MapPartitionLeaderCache \<Rightarrow> string \<Rightarrow> MapPartitionLeaderCache" where
  "map_Invalidate data cluster =
     (let pre = cluster @ ''/'' in
      (\<lambda>k. if length pre \<le> length k \<and> take (length pre) k = pre then None else data k))"

definition map_RefreshMetadata :: "MapPartitionLeaderCache \<Rightarrow> string \<Rightarrow> error option \<times> MapPartitionLeaderCache" where
  "map_RefreshMetadata data cluster = (Some (Errorf ''metadata refresh not yet implemented''), data)"

definition no_slash :: "string \<Rightarrow> bool" where
  "no_slash s \<longleftrightarrow> CHR ''/'' \<notin> set s"

lemma sint_int32_eq: "sint (a :: int32) = sint b \<longleftrightarrow> a = b"
  by (auto intro: signed_word_eqI)

lemma sep_inject:
  "c \<notin> set xs \<Longrightarrow> c \<notin> set xs' \<Longrightarrow> xs @ c # ys = xs' @ c # ys' \<longleftrightarrow> xs = xs' \<and> ys = ys'"
proof (induction xs arbitrary: xs')
  case Nil
  then show ?case by (cases xs') auto
next
  case (Cons x xs)
  then show ?case by (cases xs') auto
qed

lemma key_inject:
  assumes "no_slash c" "no_slash t" "no_slash c'" "no_slash t'"
  shows "key c t p = key c' t' p' \<longleftrightarrow> c = c' \<and> t = t' \<and> p = p'"
  using assms show_int_no_slash [of "sint p"] show_int_no_slash [of "sint p'"]
  by (auto simp: key_def no_slash_def sep_inject show_int_inject sint_int32_eq)

lemma key_prefix:
  assumes "no_slash c" "no_slash c'"
  shows "take (length (c @ ''/'')) (key c' t p) = c @ ''/'' \<longleftrightarrow> c' = c"
proof
  assume "take (length (c @ ''/'')) (key c' t p) = c @ ''/''"
  then obtain r where "key c' t p = (c @ ''/'') @ r" by (metis append_take_drop_id)
  then show "c' = c" using assms by (auto simp: key_def no_slash_def sep_inject)
qed (simp add: key_def)

interpretation mc: leader_cache map_GetLeader map_SetLeader map_Invalidate no_slash
proof unfold_locales
  fix c t c' t' p p' a and s :: MapPartitionLeaderCache
  assume "no_slash c" "no_slash t" "no_slash c'" "no_slash t'"
  then show "map_GetLeader (map_SetLeader s c t p a) c' t' p'
      = (if c' = c \<and> t' = t \<and> p' = p then Some a else map_GetLeader s c' t' p')"
    by (auto simp: map_GetLeader_def map_SetLeader_def key_inject)
next
  fix c c' t p and s :: MapPartitionLeaderCache
  assume a: "no_slash c" "no_slash c'"
  have "length (c' @ ''/'') \<le> length (key c' t p)" by (simp add: key_def)
  then show "map_GetLeader (map_Invalidate s c) c' t p = (if c' = c then None else map_GetLeader s c' t p)"
    using key_prefix [OF a, of t p] by (auto simp: map_GetLeader_def map_Invalidate_def Let_def)
qed

section \<open>The nested implementation\<close>

record saslCred =
  credUser :: string
  credPass :: string

type_synonym leader_map = "string \<rightharpoonup> (int32 \<rightharpoonup> string)"

record PartitionLeaderCache =
  plcLeaders :: "string \<rightharpoonup> leader_map"
  plcBootstrapCreds :: "string \<rightharpoonup> saslCred"

definition NewPartitionLeaderCache :: PartitionLeaderCache where
  "NewPartitionLeaderCache = \<lparr>plcLeaders = Map.empty, plcBootstrapCreds = Map.empty\<rparr>"

definition GetLeader :: "PartitionLeaderCache \<Rightarrow> string \<Rightarrow> string \<Rightarrow> int32 \<Rightarrow> string option" where
  "GetLeader c cluster topic prt =
     (case plcLeaders c cluster of None \<Rightarrow> None
      | Some topics \<Rightarrow> (case topics topic of None \<Rightarrow> None | Some prts \<Rightarrow> prts prt))"

definition SetLeader :: "PartitionLeaderCache \<Rightarrow> string \<Rightarrow> string \<Rightarrow> int32 \<Rightarrow> string \<Rightarrow> PartitionLeaderCache" where
  "SetLeader c cluster topic prt brokerAddr =
     (let topics = (case plcLeaders c cluster of None \<Rightarrow> Map.empty | Some ts \<Rightarrow> ts);
          prts = (case topics topic of None \<Rightarrow> Map.empty | Some ps \<Rightarrow> ps)
      in c\<lparr>plcLeaders := (plcLeaders c)(cluster \<mapsto> topics(topic \<mapsto> prts(prt \<mapsto> brokerAddr)))\<rparr>)"

definition Invalidate :: "PartitionLeaderCache \<Rightarrow> string \<Rightarrow> PartitionLeaderCache" where
  "Invalidate c cluster = c\<lparr>plcLeaders := (plcLeaders c)(cluster := None)\<rparr>"

interpretation pc: leader_cache GetLeader SetLeader Invalidate "\<lambda>_. True"
  by unfold_locales
    (auto simp: GetLeader_def SetLeader_def Invalidate_def Let_def split: option.splits)

section \<open>The metadata request and its version 0 response\<close>

definition pool_MaxMetadataResponseSize :: nat where
  "pool_MaxMetadataResponseSize = 10 * 2 ^ 20"

definition metadataClientID :: string where
  "metadataClientID = ''kafkaproxy-metadata''"

definition encodeMetadataRequestV0 :: "byte list" where
  "encodeMetadataRequestV0 =
     (let totalSize = 2 + 2 + 4 + 2 + length metadataClientID + 4;
          topicsOffset = 14 + length metadataClientID;
          buf = replicate (4 + totalSize) 0;
          buf = copy_at buf 0 (PutUint32 (word_of_nat totalSize));
          buf = copy_at buf 4 (PutUint16 3);
          buf = copy_at buf 6 (PutUint16 0);
          buf = copy_at buf 8 (PutUint32 1);
          buf = copy_at buf 12 (PutUint16 (word_of_nat (length metadataClientID)));
          buf = copy_at buf 14 (stob metadataClientID)
      in copy_at buf topicsOffset (PutUint32 0xFFFFFFFF))"

definition readKafkaResponse :: "nat \<Rightarrow> conn \<Rightarrow> (error + byte list) \<times> conn" where
  "readKafkaResponse maxSize conn =
     (case ReadFull 4 conn of
        (Inl e, conn) \<Rightarrow> (Inl (Wrap ''read size prefix'' e), conn)
      | (Inr sizeBuf, conn) \<Rightarrow>
          let bodySize = unat (Uint32 sizeBuf) in
          if maxSize < bodySize then (Inl (Errorf ''response body size out of range''), conn)
          else (case ReadFull bodySize conn of
                  (Inl e, conn) \<Rightarrow> (Inl (Wrap ''read response body'' e), conn)
                | (Inr body, conn) \<Rightarrow> (Inr body, conn)))"

text \<open>
  The element parsers take the bytes from the current offset on and return the value with the
  number of bytes consumed; the offset checks \<open>pos+n > len(body)\<close> become checks of the remaining
  length. Counts are read unsigned, as \<open>int(Uint32)\<close> does on a 64-bit platform.
\<close>

definition parseBrokerV0 :: "byte list \<Rightarrow> error + (int32 \<times> string) \<times> nat" where
  "parseBrokerV0 d =
     (if length d < 10 then Inl (Errorf ''truncated at broker'')
      else let nodeID = Uint32 (slice d 0 4); hostLen = unat (Uint16 (slice d 4 6)) in
        if length d < 6 + hostLen then Inl (Errorf ''truncated at broker host'')
        else if length d < 6 + hostLen + 4 then Inl (Errorf ''truncated at broker port'')
        else let host = btos (slice d 6 (6 + hostLen));
                 port = unat (Uint32 (slice d (6 + hostLen) (6 + hostLen + 4)))
             in Inr ((nodeID, host @ '':'' @ show_nat port), 6 + hostLen + 4))"

definition parsePartitionV0 :: "(int32 \<rightharpoonup> string) \<Rightarrow> byte list \<Rightarrow> error + (int32 \<times> string) \<times> nat" where
  "parsePartitionV0 brokerMap d =
     (if length d < 2 then Inl (Errorf ''truncated at error code'')
      else if length d < 6 then Inl (Errorf ''truncated at partition index'')
      else if length d < 10 then Inl (Errorf ''truncated at leader id'')
      else if length d < 14 then Inl (Errorf ''truncated at replica count'')
      else
        let partErr = Uint16 (slice d 0 2); partIdx = Uint32 (slice d 2 6); leaderID = Uint32 (slice d 6 10);
            pos = 14 + unat (Uint32 (slice d 10 14)) * 4 in
        if length d < pos then Inl (Errorf ''truncated at replica list'')
        else if length d < pos + 4 then Inl (Errorf ''truncated at isr count'')
        else
          let consumed = pos + 4 + unat (Uint32 (slice d pos (pos + 4))) * 4 in
          if length d < consumed then Inl (Errorf ''truncated at isr list'')
          else if partErr \<noteq> 0 then Inr ((partIdx, ''''), consumed)
          else (case brokerMap leaderID of
                  None \<Rightarrow> Inl (Errorf ''references unknown leader broker ID'')
                | Some addr \<Rightarrow> Inr ((partIdx, addr), consumed)))"

text \<open>The skipping parser checks neither array's end: it may move past the end of the body.\<close>

definition skipPartitionV0 :: "byte list \<Rightarrow> error + unit \<times> nat" where
  "skipPartitionV0 d =
     (if length d < 10 then Inl (Errorf ''truncated at skip partition start'')
      else if length d < 14 then Inl (Errorf ''truncated at skip replica count'')
      else
        let pos = 14 + unat (Uint32 (slice d 10 14)) * 4 in
        if length d < pos + 4 then Inl (Errorf ''truncated at skip isr count'')
        else Inr ((), pos + 4 + unat (Uint32 (slice d pos (pos + 4))) * 4))"

text \<open>One round of the topic loop: \<open>None\<close> is a topic with an error code, which is left out.\<close>

definition parseTopicV0 :: "(int32 \<rightharpoonup> string) \<Rightarrow> byte list \<Rightarrow> error + (string \<times> (int32 \<rightharpoonup> string)) option \<times> nat" where
  "parseTopicV0 brokerMap d =
     (if length d < 2 then Inl (Errorf ''truncated at topic error code'')
      else if length d < 4 then Inl (Errorf ''truncated at topic name length'')
      else
        let topicErr = Uint16 (slice d 0 2); nameLen = unat (Uint16 (slice d 2 4)) in
        if length d < 4 + nameLen then Inl (Errorf ''truncated at topic name'')
        else if length d < 4 + nameLen + 4 then Inl (Errorf ''truncated at topic partition count'')
        else
          let topicName = btos (slice d 4 (4 + nameLen));
              pos = 4 + nameLen + 4;
              partCount = unat (Uint32 (slice d (4 + nameLen) pos)) in
          if topicErr \<noteq> 0 then
            (case parse_many (\<lambda>j. ''skipping partition'') skipPartitionV0 0 partCount d pos of
               Inl e \<Rightarrow> Inl e
             | Inr (_, q) \<Rightarrow> Inr (None, q))
          else
            (case parse_many (\<lambda>j. ''parsing partition'') (parsePartitionV0 brokerMap) 0 partCount d pos of
               Inl e \<Rightarrow> Inl e
             | Inr (ps, q) \<Rightarrow>
                 Inr (Some (topicName, foldl (\<lambda>m (i, a). if a \<noteq> '''' then m(i \<mapsto> a) else m) Map.empty ps), q)))"

definition parseMetadataResponseV0 :: "byte list \<Rightarrow> error + leader_map" where
  "parseMetadataResponseV0 body =
     (if length body < 4 then Inl (Errorf ''response body too short'')
      else if length body < 8 then Inl (Errorf ''truncated at broker count'')
      else
        (case parse_many (\<lambda>i. ''broker'') parseBrokerV0 0 (unat (Uint32 (slice body 4 8))) body 8 of
           Inl e \<Rightarrow> Inl e
         | Inr (brokers, pos) \<Rightarrow>
             let brokerMap = foldl (\<lambda>m (i, a). m(i \<mapsto> a)) Map.empty brokers in
             if length body < pos + 4 then Inl (Errorf ''truncated at topic count'')
             else
               (case parse_many (\<lambda>i. ''topic'') (parseTopicV0 brokerMap) 0
                       (unat (Uint32 (slice body pos (pos + 4)))) body (pos + 4) of
                  Inl e \<Rightarrow> Inl e
                | Inr (topics, _) \<Rightarrow>
                    Inr (foldl (\<lambda>m t. case t of None \<Rightarrow> m | Some (n, ps) \<Rightarrow> m(n \<mapsto> ps)) Map.empty topics))))"

section \<open>Refreshing from a bootstrap\<close>

text \<open>Dialling is outside the model: its result is an argument. \<open>saslAuth\<close> is that of the health package.\<close>

definition cache_saslAuth :: "PartitionLeaderCache \<Rightarrow> string \<Rightarrow> conn \<Rightarrow> error option \<times> conn" where
  "cache_saslAuth c bootstrap conn =
     (case plcBootstrapCreds c bootstrap of
        None \<Rightarrow> (None, conn)
      | Some cred \<Rightarrow>
          if credUser cred = '''' then (None, conn)
          else (case saslAuth (credUser cred) (credPass cred) conn of
                  (Inl e, conn) \<Rightarrow> (Some e, conn) | (Inr _, conn) \<Rightarrow> (None, conn)))"

definition fetchMetadata :: "PartitionLeaderCache \<Rightarrow> string \<Rightarrow> error + conn \<Rightarrow> (error + leader_map) \<times> conn option" where
  "fetchMetadata c bootstrap dialed =
     (case dialed of
        Inl e \<Rightarrow> (Inl (Wrap ''dial'' e), None)
      | Inr conn \<Rightarrow>
          (case cache_saslAuth c bootstrap conn of
             (Some e, conn) \<Rightarrow> (Inl (Wrap ''sasl auth'' e), Some conn)
           | (None, conn) \<Rightarrow>
               (case conn_Write encodeMetadataRequestV0 conn of
                  (Some e, conn) \<Rightarrow> (Inl (Wrap ''write request'' e), Some conn)
                | (None, conn) \<Rightarrow>
                    (case readKafkaResponse pool_MaxMetadataResponseSize conn of
                       (Inl e, conn) \<Rightarrow> (Inl (Wrap ''read response'' e), Some conn)
                     | (Inr resp, conn) \<Rightarrow> (parseMetadataResponseV0 resp, Some conn)))))"

definition Refresh :: "PartitionLeaderCache \<Rightarrow> string \<Rightarrow> error + conn \<Rightarrow> error option \<times> PartitionLeaderCache \<times> conn option" where
  "Refresh c bootstrap dialed =
     (case fetchMetadata c bootstrap dialed of
        (Inl e, conn) \<Rightarrow> (Some (Wrap ''refresh'' e), c, conn)
      | (Inr leaders, conn) \<Rightarrow> (None, c\<lparr>plcLeaders := (plcLeaders c)(bootstrap \<mapsto> leaders)\<rparr>, conn))"

definition RefreshMetadata :: "PartitionLeaderCache \<Rightarrow> string \<Rightarrow> error + conn \<Rightarrow> error option \<times> PartitionLeaderCache \<times> conn option" where
  "RefreshMetadata c cluster dialed = Refresh c cluster dialed"

section \<open>Credentials and bootstraps from the configuration\<close>

definition clusterBootstraps :: "ClusterConfig \<Rightarrow> string list" where
  "clusterBootstraps cfg =
     (if Mode cfg = ModeLoadBalance \<or> Mode cfg = ModeActivePassive then
        (if Bootstrap (Primary cfg) \<noteq> '''' then [Bootstrap (Primary cfg)] else [])
        @ (if Bootstrap (Secondary cfg) \<noteq> '''' then [Bootstrap (Secondary cfg)] else [])
      else if Mode cfg = ModeSingle then
        (if Bootstrap (Primary cfg) \<noteq> '''' then [Bootstrap (Primary cfg)] else [])
      else [])"

definition ConfigureSASL :: "Config \<Rightarrow> PartitionLeaderCache \<Rightarrow> PartitionLeaderCache" where
  "ConfigureSASL cfg c =
     (let creds = fold (\<lambda>(_, cluster) creds.
        let user = SaslUsername (HealthCheck cluster); pass = SaslPassword (HealthCheck cluster) in
        if user = '''' then creds
        else fold (\<lambda>b creds. if b \<noteq> '''' then creds(b \<mapsto> \<lparr>credUser = user, credPass = pass\<rparr>) else creds)
               (clusterBootstraps cluster) creds) (Clusters cfg) Map.empty
      in c\<lparr>plcBootstrapCreds := creds\<rparr>)"

section \<open>Background refreshers\<close>

text \<open>
  A refresher is its bootstrap, its trigger channel (capacity 1) and its stop channel; the
  refreshers map points to the refresher started last for a bootstrap. Refresher objects are named
  by numbers in the order of their creation; \<open>rfLive\<close> says that the goroutine of a refresher has
  not returned yet. Closing a closed channel is a panic.
\<close>

record clusterRefresher =
  rfBootstrap :: string
  rfTrigger :: bool
  rfStop :: bool
  rfLive :: bool

record refreshers =
  rsMap :: "string \<rightharpoonup> nat"
  rsAll :: "clusterRefresher list"

definition StartBackgroundRefresh :: "string \<Rightarrow> refreshers \<Rightarrow> refreshers" where
  "StartBackgroundRefresh b s =
     (case rsMap s b of
        Some _ \<Rightarrow> s
      | None \<Rightarrow> s\<lparr>rsMap := (rsMap s)(b \<mapsto> length (rsAll s)),
                 rsAll := rsAll s @ [\<lparr>rfBootstrap = b, rfTrigger = False, rfStop = False, rfLive = True\<rparr>]\<rparr>)"

definition close_stop :: "nat \<Rightarrow> clusterRefresher list \<Rightarrow> error + clusterRefresher list" where
  "close_stop i rs = (if rfStop (rs ! i) then Inl (Panic ''close of closed channel'') else Inr (rs[i := (rs ! i)\<lparr>rfStop := True\<rparr>]))"

definition StopBackgroundRefresh :: "string \<Rightarrow> refreshers \<Rightarrow> error + refreshers" where
  "StopBackgroundRefresh b s =
     (case rsMap s b of
        None \<Rightarrow> Inr s
      | Some i \<Rightarrow> (case close_stop i (rsAll s) of
                    Inl e \<Rightarrow> Inl e
                  | Inr rs \<Rightarrow> Inr (s\<lparr>rsMap := (rsMap s)(b := None), rsAll := rs\<rparr>)))"

text \<open>\<open>order\<close> is the order in which the loop visits the refreshers map.\<close>

fun StopAllBackgroundRefreshes :: "string list \<Rightarrow> refreshers \<Rightarrow> error + refreshers" where
  "StopAllBackgroundRefreshes [] s = Inr s"
| "StopAllBackgroundRefreshes (b # order) s =
     (case StopBackgroundRefresh b s of Inl e \<Rightarrow> Inl e | Inr s \<Rightarrow> StopAllBackgroundRefreshes order s)"

definition TriggerRefresh :: "string \<Rightarrow> refreshers \<Rightarrow> refreshers" where
  "TriggerRefresh b s =
     (case rsMap s b of None \<Rightarrow> s
      | Some i \<Rightarrow> s\<lparr>rsAll := (rsAll s)[i := (rsAll s ! i)\<lparr>rfTrigger := True\<rparr>]\<rparr>)"

definition ActiveClusters :: "refreshers \<Rightarrow> string set" where
  "ActiveClusters s = dom (rsMap s)"

text \<open>
  The loop of a refresher: a tick or a received trigger refreshes, a closed stop channel ends it.
  When several cases of the select are ready any may be taken.
\<close>

datatype loop_event = LoopTick | LoopTrigger | LoopStop

definition refreshLoop :: "nat \<Rightarrow> loop_event \<Rightarrow> error + conn \<Rightarrow> PartitionLeaderCache \<times> refreshers \<Rightarrow>
    (PartitionLeaderCache \<times> refreshers) option" where
  "refreshLoop i ev dialed = (\<lambda>(c, s).
     (if length (rsAll s) \<le> i \<or> \<not> rfLive (rsAll s ! i) then None
      else let r = rsAll s ! i in
        case ev of
          LoopTick \<Rightarrow> Some (fst (snd (Refresh c (rfBootstrap r) dialed)), s)
        | LoopTrigger \<Rightarrow>
            if rfTrigger r
            then Some (fst (snd (Refresh c (rfBootstrap r) dialed)), s\<lparr>rsAll := (rsAll s)[i := r\<lparr>rfTrigger := False\<rparr>]\<rparr>)
            else None
        | LoopStop \<Rightarrow> if rfStop r then Some (c, s\<lparr>rsAll := (rsAll s)[i := r\<lparr>rfLive := False\<rparr>]\<rparr>) else None))"

section \<open>The wire layout of a version 0 response\<close>

record BrokerV0 =
  bvId :: int32
  bvHost :: string
  bvPort :: int32

record PartV0 =
  pvErr :: int16
  pvIndex :: int32
  pvLeader :: int32
  pvReplicas :: "int32 list"
  pvIsr :: "int32 list"

record TopicV0 =
  tvErr :: int16
  tvName :: string
  tvParts :: "PartV0 list"

definition enc_len :: "nat \<Rightarrow> byte list" where
  "enc_len n = PutUint32 (word_of_nat n)"

definition enc_brokerV0 :: "BrokerV0 \<Rightarrow> byte list" where
  "enc_brokerV0 b = PutUint32 (bvId b) @ PutUint16 (word_of_nat (length (bvHost b))) @ stob (bvHost b) @ PutUint32 (bvPort b)"

definition enc_partV0 :: "PartV0 \<Rightarrow> byte list" where
  "enc_partV0 p = PutUint16 (pvErr p) @ PutUint32 (pvIndex p) @ PutUint32 (pvLeader p)
     @ enc_len (length (pvReplicas p)) @ concat (map PutUint32 (pvReplicas p))
     @ enc_len (length (pvIsr p)) @ concat (map PutUint32 (pvIsr p))"

definition enc_topicV0 :: "TopicV0 \<Rightarrow> byte list" where
  "enc_topicV0 t = PutUint16 (tvErr t) @ PutUint16 (word_of_nat (length (tvName t))) @ stob (tvName t)
     @ enc_len (length (tvParts t)) @ concat (map enc_partV0 (tvParts t))"

definition enc_responseV0 :: "int32 \<Rightarrow> BrokerV0 list \<Rightarrow> TopicV0 list \<Rightarrow> byte list" where
  "enc_responseV0 corr bs ts = PutUint32 corr @ enc_len (length bs) @ concat (map enc_brokerV0 bs)
     @ enc_len (length ts) @ concat (map enc_topicV0 ts)"

text \<open>The lengths fit their prefixes.\<close>

definition brokerV0_ok :: "BrokerV0 \<Rightarrow> bool" where
  "brokerV0_ok b \<longleftrightarrow> length (bvHost b) < 2 ^ 16"

definition partV0_ok :: "PartV0 \<Rightarrow> bool" where
  "partV0_ok p \<longleftrightarrow> length (pvReplicas p) < 2 ^ 32 \<and> length (pvIsr p) < 2 ^ 32"

definition topicV0_ok :: "TopicV0 \<Rightarrow> bool" where
  "topicV0_ok t \<longleftrightarrow> length (tvName t) < 2 ^ 16 \<and> length (tvParts t) < 2 ^ 32 \<and> list_all partV0_ok (tvParts t)"

definition broker_addr :: "BrokerV0 \<Rightarrow> string" where
  "broker_addr b = bvHost b @ '':'' @ show_nat (unat (bvPort b))"

lemma unat_int16_of_nat: "n < 2 ^ 16 \<Longrightarrow> unat (word_of_nat n :: int16) = n"
  by (simp add: unat_of_nat)

lemma unat_enc_len [simp]: "n < 2 ^ 32 \<Longrightarrow> unat (Uint32 (enc_len n @ r)) = n"
  by (simp add: enc_len_def unat_int32_of_nat)

lemma length_enc_len [simp]: "length (enc_len n) = 4"
  by (simp add: enc_len_def)

lemma length_concat_PutUint32 [simp]: "length (concat (map PutUint32 xs)) = 4 * length xs"
  by (induction xs) simp_all

text \<open>Reading the segment that starts after a prefix of known length.\<close>

lemma slice_mid: "i = length pre \<Longrightarrow> j = i + length s \<Longrightarrow> slice (pre @ s @ r) i j = s"
  by (simp add: slice_def)

lemma slice_front: "j = length s \<Longrightarrow> slice (s @ r) 0 j = s"
  by (simp add: slice_def)

lemma parseBrokerV0_enc:
  assumes "brokerV0_ok b"
  shows "parseBrokerV0 (enc_brokerV0 b @ r) = Inr ((bvId b, broker_addr b), length (enc_brokerV0 b))"
proof -
  let ?h = "length (bvHost b)"
  let ?d = "enc_brokerV0 b @ r"
  have u: "slice ?d 0 4 = PutUint32 (bvId b)" "slice ?d 4 6 = PutUint16 (word_of_nat ?h)"
    "slice ?d 6 (6 + ?h) = stob (bvHost b)" "slice ?d (6 + ?h) (6 + ?h + 4) = PutUint32 (bvPort b)"
    by (simp_all add: enc_brokerV0_def slice_def)
  have l: "unat (word_of_nat ?h :: int16) = ?h" using assms by (simp add: brokerV0_ok_def unat_int16_of_nat)
  have len: "length ?d = 10 + ?h + length r" by (simp add: enc_brokerV0_def)
  show ?thesis unfolding parseBrokerV0_def Let_def u Uint16_PutUint16_alone Uint32_PutUint32_alone l len
    by (simp add: broker_addr_def enc_brokerV0_def)
qed

lemma part_slices:
  fixes p r
  defines "d \<equiv> enc_partV0 p @ r" and "nr \<equiv> length (pvReplicas p)"
  shows "slice d 0 2 = PutUint16 (pvErr p)" "slice d 2 6 = PutUint32 (pvIndex p)" "slice d 6 10 = PutUint32 (pvLeader p)"
    "slice d 10 14 = enc_len nr" "slice d (14 + nr * 4) (14 + nr * 4 + 4) = enc_len (length (pvIsr p))"
    "length d = 18 + nr * 4 + length (pvIsr p) * 4 + length r"
    "length (enc_partV0 p) = 18 + nr * 4 + length (pvIsr p) * 4"
  by (simp_all add: d_def nr_def enc_partV0_def slice_def)

lemma unat_enc_len_alone: "n < 2 ^ 32 \<Longrightarrow> unat (Uint32 (enc_len n)) = n"
  using unat_enc_len [of n "[]"] by simp

lemma parsePartitionV0_enc:
  assumes "partV0_ok p" and "pvErr p = 0 \<Longrightarrow> m (pvLeader p) = Some a"
  shows "parsePartitionV0 m (enc_partV0 p @ r)
    = Inr ((pvIndex p, if pvErr p = 0 then a else ''''), length (enc_partV0 p))"
proof -
  have l: "unat (Uint32 (enc_len (length (pvReplicas p)))) = length (pvReplicas p)"
    "unat (Uint32 (enc_len (length (pvIsr p)))) = length (pvIsr p)"
    using assms(1) by (simp_all add: partV0_ok_def unat_enc_len_alone)
  show ?thesis
    unfolding parsePartitionV0_def Let_def part_slices(1-4) l part_slices(5,6) Uint16_PutUint16_alone Uint32_PutUint32_alone
    using assms(2) by (simp add: part_slices(7))
qed

lemma skipPartitionV0_enc:
  assumes "partV0_ok p"
  shows "skipPartitionV0 (enc_partV0 p @ r) = Inr ((), length (enc_partV0 p))"
proof -
  have l: "unat (Uint32 (enc_len (length (pvReplicas p)))) = length (pvReplicas p)"
    "unat (Uint32 (enc_len (length (pvIsr p)))) = length (pvIsr p)"
    using assms(1) by (simp_all add: partV0_ok_def unat_enc_len_alone)
  show ?thesis
    unfolding skipPartitionV0_def Let_def part_slices(4) l part_slices(5,6) l
    by (simp add: part_slices(7))
qed

interpretation bv: value_codec parseBrokerV0 enc_brokerV0 "\<lambda>b. (bvId b, broker_addr b)" brokerV0_ok
  by unfold_locales (rule parseBrokerV0_enc)

interpretation sv: value_codec skipPartitionV0 enc_partV0 "\<lambda>_. ()" partV0_ok
  by unfold_locales (rule skipPartitionV0_enc)

text \<open>A partition with its leader among the brokers, and the address it is read as.\<close>

definition led :: "(int32 \<rightharpoonup> string) \<Rightarrow> PartV0 \<Rightarrow> bool" where
  "led m p \<longleftrightarrow> partV0_ok p \<and> (pvErr p = 0 \<longrightarrow> pvLeader p \<in> dom m)"

definition part_val :: "(int32 \<rightharpoonup> string) \<Rightarrow> PartV0 \<Rightarrow> int32 \<times> string" where
  "part_val m p = (pvIndex p, if pvErr p = 0 then the (m (pvLeader p)) else '''')"

interpretation pv: value_codec "parsePartitionV0 m" enc_partV0 "part_val m" "led m" for m
  by unfold_locales (auto simp: led_def part_val_def parsePartitionV0_enc dest: domD)

definition topic_led :: "(int32 \<rightharpoonup> string) \<Rightarrow> TopicV0 \<Rightarrow> bool" where
  "topic_led m t \<longleftrightarrow> topicV0_ok t \<and> (tvErr t = 0 \<longrightarrow> list_all (led m) (tvParts t))"

definition topic_val :: "(int32 \<rightharpoonup> string) \<Rightarrow> TopicV0 \<Rightarrow> (string \<times> (int32 \<rightharpoonup> string)) option" where
  "topic_val m t = (if tvErr t = 0
     then Some (tvName t, foldl (\<lambda>f (i, a). if a \<noteq> '''' then f(i \<mapsto> a) else f) Map.empty (map (part_val m) (tvParts t)))
     else None)"

lemma parseTopicV0_enc:
  assumes "topic_led m t"
  shows "parseTopicV0 m (enc_topicV0 t @ r) = Inr (topic_val m t, length (enc_topicV0 t))"
proof -
  define n where "n = length (tvName t)"
  define pre where "pre = PutUint16 (tvErr t) @ PutUint16 (word_of_nat n) @ stob (tvName t) @ enc_len (length (tvParts t))"
  define b where "b = concat (map enc_partV0 (tvParts t))"
  have d: "enc_topicV0 t @ r = pre @ b @ r" by (simp add: enc_topicV0_def pre_def b_def n_def)
  have lp: "length pre = 4 + n + 4" by (simp add: pre_def n_def)
  have ok: "n < 2 ^ 16" "length (tvParts t) < 2 ^ 32" "list_all partV0_ok (tvParts t)"
    using assms by (simp_all add: topic_led_def topicV0_ok_def n_def)
  have u: "slice (pre @ b @ r) 0 2 = PutUint16 (tvErr t)" "slice (pre @ b @ r) 2 4 = PutUint16 (word_of_nat n)"
    "slice (pre @ b @ r) 4 (4 + n) = stob (tvName t)" "slice (pre @ b @ r) (4 + n) (4 + n + 4) = enc_len (length (tvParts t))"
    by (simp_all add: pre_def slice_def n_def)
  have l: "unat (word_of_nat n :: int16) = n" "unat (Uint32 (enc_len (length (tvParts t)))) = length (tvParts t)"
    using ok by (simp_all add: unat_int16_of_nat unat_enc_len_alone)
  have len: "length (pre @ b @ r) = 4 + n + 4 + length b + length r" by (simp add: lp)
  have skip: "parse_many (\<lambda>j. ''skipping partition'') skipPartitionV0 0 (length (tvParts t)) (pre @ b @ r) (4 + n + 4)
      = Inr (map (\<lambda>_. ()) (tvParts t), 4 + n + 4 + length b)"
    using sv.many_val [OF ok(3), of "\<lambda>j. ''skipping partition''" 0 pre r] by (simp add: lp b_def)
  have parse: "parse_many (\<lambda>j. ''parsing partition'') (parsePartitionV0 m) 0 (length (tvParts t)) (pre @ b @ r) (4 + n + 4)
      = Inr (map (part_val m) (tvParts t), 4 + n + 4 + length b)" if "tvErr t = 0"
    using pv.many_val [of m "tvParts t" "\<lambda>j. ''parsing partition''" 0 pre r] assms that
    by (simp add: lp b_def topic_led_def)
  have total: "length (enc_topicV0 t) = 4 + n + 4 + length b" using lp d by (simp add: enc_topicV0_def b_def n_def)
  show ?thesis
    unfolding d parseTopicV0_def Let_def u Uint16_PutUint16_alone l len total
    using skip parse by (simp add: topic_val_def)
qed

interpretation tv: value_codec "parseTopicV0 m" enc_topicV0 "topic_val m" "topic_led m" for m
  by unfold_locales (rule parseTopicV0_enc)

section \<open>What a parsed response holds\<close>

text \<open>The three maps are built by updates along a list; without conflicts the order is irrelevant.\<close>

lemma foldl_partial_map:
  assumes "\<And>x y k v w. x \<in> set xs \<Longrightarrow> y \<in> set xs \<Longrightarrow> f x = Some (k, v) \<Longrightarrow> f y = Some (k, w) \<Longrightarrow> v = w"
  shows "foldl (\<lambda>m x. case f x of None \<Rightarrow> m | Some (k, v) \<Rightarrow> m(k \<mapsto> v)) Map.empty xs k = Some v
    \<longleftrightarrow> (\<exists>x\<in>set xs. f x = Some (k, v))"
  using assms
proof (induction xs arbitrary: k v rule: rev_induct)
  case Nil
  then show ?case by simp
next
  case (snoc x xs)
  have IH: "foldl (\<lambda>m x. case f x of None \<Rightarrow> m | Some (k, v) \<Rightarrow> m(k \<mapsto> v)) Map.empty xs k' = Some v'
      \<longleftrightarrow> (\<exists>x\<in>set xs. f x = Some (k', v'))" for k' v'
    using snoc.prems by (intro snoc.IH) (metis Un_iff set_append)
  show ?case
  proof (cases "f x")
    case None
    then show ?thesis by (simp add: IH)
  next
    case (Some kv)
    obtain k1 v1 where kv: "f x = Some (k1, v1)" using Some by (cases kv) simp
    have "v' = v1" if "y \<in> set xs" "f y = Some (k1, v')" for y v'
      using snoc.prems [of y x k1 v' v1] that kv by simp
    then show ?thesis using IH kv by auto
  qed
qed

lemma inj_on_map_eq: "distinct (map g xs) \<Longrightarrow> x \<in> set xs \<Longrightarrow> y \<in> set xs \<Longrightarrow> g x = g y \<Longrightarrow> x = y"
  by (auto simp: distinct_map inj_on_def)

definition brokerMapV0 :: "BrokerV0 list \<Rightarrow> (int32 \<rightharpoonup> string)" where
  "brokerMapV0 bs = foldl (\<lambda>m (i, a). m(i \<mapsto> a)) Map.empty (map (\<lambda>b. (bvId b, broker_addr b)) bs)"

lemma brokerMapV0_iff:
  assumes "distinct (map bvId bs)"
  shows "brokerMapV0 bs i = Some a \<longleftrightarrow> (\<exists>b\<in>set bs. bvId b = i \<and> a = broker_addr b)"
proof -
  have "brokerMapV0 bs = foldl (\<lambda>m x. case Some (bvId x, broker_addr x) of None \<Rightarrow> m | Some (k, v) \<Rightarrow> m(k \<mapsto> v)) Map.empty bs"
    by (simp add: brokerMapV0_def foldl_map)
  moreover have "foldl (\<lambda>m x. case Some (bvId x, broker_addr x) of None \<Rightarrow> m | Some (k, v) \<Rightarrow> m(k \<mapsto> v)) Map.empty bs i = Some a
      \<longleftrightarrow> (\<exists>b\<in>set bs. Some (bvId b, broker_addr b) = Some (i, a))"
    by (rule foldl_partial_map) (metis Pair_inject inj_on_map_eq [OF assms] option.inject)
  ultimately show ?thesis by auto
qed

lemma brokerMapV0_dom: "distinct (map bvId bs) \<Longrightarrow> i \<in> dom (brokerMapV0 bs) \<longleftrightarrow> i \<in> bvId ` set bs"
  using brokerMapV0_iff [of bs i] by (auto simp: domIff) 

lemma topic_val_iff:
  assumes "topic_led m t" and "distinct (map pvIndex (tvParts t))" and "\<And>l a. m l = Some a \<Longrightarrow> a \<noteq> ''''"
  shows "(\<exists>ps. topic_val m t = Some (n, ps) \<and> ps i = Some a)
    \<longleftrightarrow> tvErr t = 0 \<and> n = tvName t \<and> (\<exists>p\<in>set (tvParts t). pvErr p = 0 \<and> pvIndex p = i \<and> m (pvLeader p) = Some a)"
proof (cases "tvErr t = 0")
  case True
  define f :: "PartV0 \<Rightarrow> (int32 \<times> string) option" where "f = (\<lambda>p. if pvErr p = 0 then Some (pvIndex p, the (m (pvLeader p))) else None)"
  have led: "p \<in> set (tvParts t) \<Longrightarrow> pvErr p = 0 \<Longrightarrow> \<exists>a. m (pvLeader p) = Some a" for p
    using assms(1) True by (auto simp: topic_led_def led_def list_all_iff)
  have "foldl (\<lambda>h (i, a). if a \<noteq> '''' then h(i \<mapsto> a) else h) Map.empty (map (part_val m) (tvParts t))
      = foldl (\<lambda>h x. case f x of None \<Rightarrow> h | Some (k, v) \<Rightarrow> h(k \<mapsto> v)) Map.empty (tvParts t)"
    unfolding foldl_map
  proof (rule foldl_cong [OF refl refl])
    fix h p assume p: "p \<in> set (tvParts t)"
    show "(case part_val m p of (i, a) \<Rightarrow> if a \<noteq> '''' then h(i \<mapsto> a) else h)
        = (case f p of None \<Rightarrow> h | Some (k, v) \<Rightarrow> h(k \<mapsto> v))"
      using led [OF p] assms(3) by (auto simp: part_val_def f_def)
  qed
  then have "topic_val m t = Some (tvName t, foldl (\<lambda>h x. case f x of None \<Rightarrow> h | Some (k, v) \<Rightarrow> h(k \<mapsto> v)) Map.empty (tvParts t))"
    using True by (simp add: topic_val_def)
  moreover have "foldl (\<lambda>h x. case f x of None \<Rightarrow> h | Some (k, v) \<Rightarrow> h(k \<mapsto> v)) Map.empty (tvParts t) i = Some a
      \<longleftrightarrow> (\<exists>p\<in>set (tvParts t). f p = Some (i, a))"
    by (rule foldl_partial_map) (use inj_on_map_eq [OF assms(2)] in \<open>force simp: f_def split: if_splits\<close>)
  moreover have "(\<exists>p\<in>set (tvParts t). f p = Some (i, a))
      \<longleftrightarrow> (\<exists>p\<in>set (tvParts t). pvErr p = 0 \<and> pvIndex p = i \<and> m (pvLeader p) = Some a)"
    using led by (force simp: f_def split: if_splits)
  ultimately show ?thesis using True by auto
next
  case False
  then show ?thesis by (simp add: topic_val_def)
qed

lemma parse_enc_responseV0:
  fixes bs ts
  defines "m \<equiv> brokerMapV0 bs"
  assumes "list_all brokerV0_ok bs" and "length bs < 2 ^ 32" and "list_all (topic_led m) ts" and "length ts < 2 ^ 32"
  shows "parseMetadataResponseV0 (enc_responseV0 corr bs ts)
    = Inr (foldl (\<lambda>f t. case t of None \<Rightarrow> f | Some (n, ps) \<Rightarrow> f(n \<mapsto> ps)) Map.empty (map (topic_val m) ts))"
proof -
  define hd where "hd = PutUint32 corr @ enc_len (length bs)"
  define b where "b = concat (map enc_brokerV0 bs)"
  define tl where "tl = enc_len (length ts) @ concat (map enc_topicV0 ts)"
  have e: "enc_responseV0 corr bs ts = hd @ b @ tl" by (simp add: enc_responseV0_def hd_def b_def tl_def)
  have h: "length hd = 8" "slice (hd @ b @ tl) 4 8 = enc_len (length bs)" by (simp_all add: hd_def slice_def)
  have p1: "parse_many (\<lambda>i. ''broker'') parseBrokerV0 0 (length bs) (hd @ b @ tl) 8
      = Inr (map (\<lambda>b. (bvId b, broker_addr b)) bs, 8 + length b)"
    using bv.many_val [OF assms(2), of "\<lambda>i. ''broker''" 0 hd tl] h(1) by (simp add: b_def)
  have tlc: "slice (hd @ b @ tl) (8 + length b) (8 + length b + 4) = enc_len (length ts)"
    using h(1) by (simp add: slice_def tl_def)
  have p2: "parse_many (\<lambda>i. ''topic'') (parseTopicV0 m) 0 (length ts) (hd @ b @ tl) (8 + length b + 4)
      = Inr (map (topic_val m) ts, 8 + length b + 4 + length (concat (map enc_topicV0 ts)))"
    using tv.many_val [OF assms(4), of "\<lambda>i. ''topic''" 0 "hd @ b @ enc_len (length ts)" "[]"] h(1) by (simp add: tl_def)
  have len: "\<not> length (hd @ b @ tl) < 4" "\<not> length (hd @ b @ tl) < 8" "\<not> length (hd @ b @ tl) < 8 + length b + 4"
    using h(1) by (simp_all add: tl_def)
  have m: "foldl (\<lambda>m (i, a). m(i \<mapsto> a)) Map.empty (map (\<lambda>b. (bvId b, broker_addr b)) bs) = m"
    by (simp add: m_def brokerMapV0_def)
  show ?thesis
    unfolding e parseMetadataResponseV0_def h(2) unat_enc_len_alone [OF assms(3)] p1
    using len p2 tlc unat_enc_len_alone [OF assms(5)] m by (simp add: Let_def del: length_append)
qed

section \<open>Properties\<close>

text \<open>
  C30. Both leader caches implement the same map. After any sequence of \<open>SetLeader\<close> and
  \<open>Invalidate\<close> calls on fresh caches, with names that contain no slash (which Kafka topic names and
  bootstrap addresses do not), the nested cache of the pool package and the string-keyed cache of
  the routing package answer every lookup alike, and as the abstract map from cluster, topic and
  partition to addresses does.
\<close>
theorem caches_agree:
  assumes "list_all (op_ok no_slash) ops" and "no_slash c" and "no_slash t"
  shows "GetLeader (fold (apply_op SetLeader Invalidate) ops NewPartitionLeaderCache) c t p
      = map_GetLeader (fold (apply_op map_SetLeader map_Invalidate) ops NewMapPartitionLeaderCache) c t p
    \<and> GetLeader (fold (apply_op SetLeader Invalidate) ops NewPartitionLeaderCache) c t p
      = fold spec_op ops Map.empty (c, t, p)"
proof -
  have "op_ok (\<lambda>_. True) op" for op by (cases op) simp_all
  then have "GetLeader (fold (apply_op SetLeader Invalidate) ops NewPartitionLeaderCache) c t p = fold spec_op ops Map.empty (c, t, p)"
    by (intro pc.run_refines) (simp_all add: list_all_iff GetLeader_def NewPartitionLeaderCache_def)
  moreover have "map_GetLeader (fold (apply_op map_SetLeader map_Invalidate) ops NewMapPartitionLeaderCache) c t p
      = fold spec_op ops Map.empty (c, t, p)"
    by (rule mc.run_refines [OF assms]) (simp add: map_GetLeader_def NewMapPartitionLeaderCache_def)
  ultimately show ?thesis by simp
qed

theorem caches_agree_witness:
  "map_GetLeader (fold (apply_op map_SetLeader map_Invalidate)
     [SetLeaderOp ''a:1'' ''t'' 0 ''x:9'', SetLeaderOp ''b:1'' ''t'' 0 ''y:9'', InvalidateOp ''a:1''] NewMapPartitionLeaderCache)
     ''b:1'' ''t'' 0 = Some ''y:9''"
  using caches_agree [of "[SetLeaderOp ''a:1'' ''t'' 0 ''x:9'', SetLeaderOp ''b:1'' ''t'' 0 ''y:9'', InvalidateOp ''a:1'']" "''b:1''" "''t''" 0]
  by (auto simp: no_slash_def)

lemma copy_at_replicate:
  "off = length pre \<Longrightarrow> length src \<le> n \<Longrightarrow> copy_at (pre @ replicate n x) off src = (pre @ src) @ replicate (n - length src) x"
  by (simp add: copy_at_def)

lemma copy_at_replicate_0: "length src \<le> n \<Longrightarrow> copy_at (replicate n x) 0 src = src @ replicate (n - length src) x"
  by (simp add: copy_at_def)

lemma encodeMetadataRequestV0_eq:
  "encodeMetadataRequestV0 = PutUint32 33 @ encode_header 3 0 1 metadataClientID @ PutUint32 0xFFFFFFFF"
proof -
  have l: "length metadataClientID = 19" by (simp add: metadataClientID_def)
  have "encodeMetadataRequestV0 = (((((PutUint32 33 @ PutUint16 3) @ PutUint16 0) @ PutUint32 1)
      @ PutUint16 19) @ stob metadataClientID) @ PutUint32 0xFFFFFFFF"
    unfolding encodeMetadataRequestV0_def Let_def l
    by (simp add: copy_at_replicate copy_at_replicate_0 l del: append_assoc)
  then show ?thesis by (simp add: encode_header_def l)
qed

lemma encodeMetadataRequestV0_parse:
  "ParseRequestHeader encodeMetadataRequestV0 = Inr \<lparr>rhSize = 33, rhAPIKey = 3, rhAPIVersion = 0, rhCorrelationID = 1,
     rhClientID = metadataClientID\<rparr>"
  using ParseRequestHeader_encoded [of metadataClientID 33 3 0 1 "PutUint32 0xFFFFFFFF"]
  by (simp add: encodeMetadataRequestV0_eq metadataClientID_def)

lemma readKafkaResponse_frame:
  assumes "cin k = enc_len (length body) @ body @ w" and "length body \<le> n" and "n < 2 ^ 32"
  shows "readKafkaResponse n k = (Inr body, k\<lparr>cin := w\<rparr>)"
  using assms by (simp add: readKafkaResponse_def ReadFull_def unat_enc_len_alone)

text \<open>
  C31. A refresh installs exactly the leaders the cluster reported. When a bootstrap for which no SASL
  credentials are configured answers the
  metadata request with a version 0 response in Kafka's layout (within the size limit, without
  repeated ids, names or indices, every error-free partition led by a listed broker), \<open>Refresh\<close>
  sends one well-formed Metadata request and succeeds, and afterwards \<open>GetLeader\<close> for that
  bootstrap answers with the address of a partition's leader for the error-free partitions of
  error-free topics and has no answer for anything else, stale entries included; the other
  clusters' entries are untouched.
\<close>
theorem refresh_installs_leaders:
  fixes c :: PartitionLeaderCache and k :: conn and bs :: "BrokerV0 list" and ts :: "TopicV0 list"
  assumes "plcBootstrapCreds c boot = None" and "length encodeMetadataRequestV0 \<le> cwok k"
    and "cin k = enc_len (length (enc_responseV0 corr bs ts)) @ enc_responseV0 corr bs ts @ r"
    and "length (enc_responseV0 corr bs ts) \<le> pool_MaxMetadataResponseSize"
    and "list_all brokerV0_ok bs" and "length bs < 2 ^ 32" and "length ts < 2 ^ 32"
    and "distinct (map bvId bs)" and "distinct (map tvName ts)"
    and "\<forall>t\<in>set ts. topicV0_ok t \<and> distinct (map pvIndex (tvParts t))
      \<and> (tvErr t = 0 \<longrightarrow> (\<forall>p\<in>set (tvParts t). pvErr p = 0 \<longrightarrow> pvLeader p \<in> bvId ` set bs))"
  shows "\<exists>c' k'. Refresh c boot (Inr k) = (None, c', Some k') \<and> cout k' = cout k @ encodeMetadataRequestV0
    \<and> ParseRequestHeader encodeMetadataRequestV0
        = Inr \<lparr>rhSize = 33, rhAPIKey = 3, rhAPIVersion = 0, rhCorrelationID = 1, rhClientID = metadataClientID\<rparr>
    \<and> (\<forall>t i a. GetLeader c' boot t i = Some a \<longleftrightarrow>
         (\<exists>tv\<in>set ts. \<exists>p\<in>set (tvParts tv). \<exists>b\<in>set bs. tvErr tv = 0 \<and> tvName tv = t \<and> pvErr p = 0
            \<and> pvIndex p = i \<and> bvId b = pvLeader p \<and> a = broker_addr b))
    \<and> (\<forall>cl t i. cl \<noteq> boot \<longrightarrow> GetLeader c' cl t i = GetLeader c cl t i)"
proof -
  let ?m = "brokerMapV0 bs"
  let ?k = "k\<lparr>cout := cout k @ encodeMetadataRequestV0, cwok := cwok k - length encodeMetadataRequestV0\<rparr>"
  define L where "L = foldl (\<lambda>f t. case t of None \<Rightarrow> f | Some (n, ps) \<Rightarrow> f(n \<mapsto> ps)) Map.empty (map (topic_val ?m) ts)"
  have led: "list_all (topic_led ?m) ts"
    using assms(10) brokerMapV0_dom [OF assms(8)]
    by (auto simp: list_all_iff topic_led_def led_def topicV0_ok_def)
  have "readKafkaResponse pool_MaxMetadataResponseSize ?k = (Inr (enc_responseV0 corr bs ts), ?k\<lparr>cin := r\<rparr>)"
    by (rule readKafkaResponse_frame) (use assms(3,4) in \<open>simp_all add: pool_MaxMetadataResponseSize_def\<close>)
  then have "fetchMetadata c boot (Inr k) = (Inr L, Some (?k\<lparr>cin := r\<rparr>))"
    using assms(1,2) parse_enc_responseV0 [OF assms(5,6) led assms(7)]
    by (simp add: fetchMetadata_def cache_saslAuth_def conn_Write_def L_def)
  then have R: "Refresh c boot (Inr k) = (None, c\<lparr>plcLeaders := (plcLeaders c)(boot \<mapsto> L)\<rparr>, Some (?k\<lparr>cin := r\<rparr>))"
    by (simp add: Refresh_def)
  have tops: "L t = Some ps \<longleftrightarrow> (\<exists>tv\<in>set ts. topic_val ?m tv = Some (t, ps))" for t ps
    unfolding L_def foldl_map
    by (rule foldl_partial_map) (use inj_on_map_eq [OF assms(9)] in \<open>fastforce simp: topic_val_def split: if_splits\<close>)
  have addr: "?m l = Some a \<Longrightarrow> a \<noteq> ''''" for l a using brokerMapV0_iff [OF assms(8)] by (auto simp: broker_addr_def)
  have get: "GetLeader (c\<lparr>plcLeaders := (plcLeaders c)(boot \<mapsto> L)\<rparr>) boot t i = Some a \<longleftrightarrow>
         (\<exists>tv\<in>set ts. \<exists>p\<in>set (tvParts tv). \<exists>b\<in>set bs. tvErr tv = 0 \<and> tvName tv = t \<and> pvErr p = 0
            \<and> pvIndex p = i \<and> bvId b = pvLeader p \<and> a = broker_addr b)" for t i a
  proof -
    have "GetLeader (c\<lparr>plcLeaders := (plcLeaders c)(boot \<mapsto> L)\<rparr>) boot t i = Some a \<longleftrightarrow> (\<exists>ps. L t = Some ps \<and> ps i = Some a)"
      by (auto simp: GetLeader_def split: option.splits)
    also have "\<dots> \<longleftrightarrow> (\<exists>tv\<in>set ts. \<exists>ps. topic_val ?m tv = Some (t, ps) \<and> ps i = Some a)"
      using tops by blast
    also have "\<dots> \<longleftrightarrow> (\<exists>tv\<in>set ts. tvErr tv = 0 \<and> t = tvName tv
        \<and> (\<exists>p\<in>set (tvParts tv). pvErr p = 0 \<and> pvIndex p = i \<and> ?m (pvLeader p) = Some a))"
    proof (rule bex_cong [OF refl])
      fix tv assume "tv \<in> set ts"
      then have "topic_led ?m tv" "distinct (map pvIndex (tvParts tv))" using led assms(10) by (auto simp: list_all_iff)
      from topic_val_iff [OF this addr]
      show "(\<exists>ps. topic_val ?m tv = Some (t, ps) \<and> ps i = Some a) \<longleftrightarrow> tvErr tv = 0 \<and> t = tvName tv
        \<and> (\<exists>p\<in>set (tvParts tv). pvErr p = 0 \<and> pvIndex p = i \<and> ?m (pvLeader p) = Some a)" .
    qed
    finally show ?thesis unfolding brokerMapV0_iff [OF assms(8)] by blast
  qed
  moreover have "cl \<noteq> boot \<Longrightarrow> GetLeader (c\<lparr>plcLeaders := (plcLeaders c)(boot \<mapsto> L)\<rparr>) cl t i = GetLeader c cl t i" for cl t i
    by (simp add: GetLeader_def)
  ultimately show ?thesis using R encodeMetadataRequestV0_parse get
    by (intro exI [of _ "c\<lparr>plcLeaders := (plcLeaders c)(boot \<mapsto> L)\<rparr>"] exI [of _ "?k\<lparr>cin := r\<rparr>"]) simp
qed

abbreviation demo_brokers :: "BrokerV0 list" where
  "demo_brokers \<equiv> [\<lparr>bvId = 1, bvHost = ''b'', bvPort = 9092\<rparr>]"

abbreviation demo_topics :: "TopicV0 list" where
  "demo_topics \<equiv> [\<lparr>tvErr = 0, tvName = ''t'', tvParts = [\<lparr>pvErr = 0, pvIndex = 0, pvLeader = 1, pvReplicas = [1], pvIsr = []\<rparr>]\<rparr>]"

theorem refresh_installs_leaders_witness:
  "\<exists>c' k'. Refresh (SetLeader NewPartitionLeaderCache ''boot:1'' ''old'' 0 ''gone:1'') ''boot:1''
     (Inr \<lparr>cin = enc_len (length (enc_responseV0 1 demo_brokers demo_topics)) @ enc_responseV0 1 demo_brokers demo_topics,
           cout = [], cwok = 100\<rparr>) = (None, c', k')
     \<and> GetLeader c' ''boot:1'' ''t'' 0 = Some (broker_addr (hd demo_brokers)) \<and> GetLeader c' ''boot:1'' ''old'' 0 = None"
proof -
  let ?c = "SetLeader NewPartitionLeaderCache ''boot:1'' ''old'' 0 ''gone:1''"
  let ?k = "\<lparr>cin = enc_len (length (enc_responseV0 1 demo_brokers demo_topics)) @ enc_responseV0 1 demo_brokers demo_topics,
           cout = [], cwok = 100\<rparr>"
  have "\<exists>c' k'. Refresh ?c ''boot:1'' (Inr ?k) = (None, c', Some k') \<and> cout k' = cout ?k @ encodeMetadataRequestV0
    \<and> ParseRequestHeader encodeMetadataRequestV0
        = Inr \<lparr>rhSize = 33, rhAPIKey = 3, rhAPIVersion = 0, rhCorrelationID = 1, rhClientID = metadataClientID\<rparr>
    \<and> (\<forall>t i a. GetLeader c' ''boot:1'' t i = Some a \<longleftrightarrow>
         (\<exists>tv\<in>set demo_topics. \<exists>p\<in>set (tvParts tv). \<exists>b\<in>set demo_brokers. tvErr tv = 0 \<and> tvName tv = t \<and> pvErr p = 0
            \<and> pvIndex p = i \<and> bvId b = pvLeader p \<and> a = broker_addr b))
    \<and> (\<forall>cl t i. cl \<noteq> ''boot:1'' \<longrightarrow> GetLeader c' cl t i = GetLeader ?c cl t i)"
    by (rule refresh_installs_leaders [where r = "[]"])
      (simp_all add: SetLeader_def NewPartitionLeaderCache_def encodeMetadataRequestV0_eq metadataClientID_def
        enc_responseV0_def enc_brokerV0_def enc_topicV0_def enc_partV0_def pool_MaxMetadataResponseSize_def brokerV0_ok_def
        topicV0_ok_def partV0_ok_def)
  then obtain c' k' where R: "Refresh ?c ''boot:1'' (Inr ?k) = (None, c', Some k')"
    and g: "\<And>t i a. GetLeader c' ''boot:1'' t i = Some a \<longleftrightarrow>
         (\<exists>tv\<in>set demo_topics. \<exists>p\<in>set (tvParts tv). \<exists>b\<in>set demo_brokers. tvErr tv = 0 \<and> tvName tv = t \<and> pvErr p = 0
            \<and> pvIndex p = i \<and> bvId b = pvLeader p \<and> a = broker_addr b)" by blast
  have "GetLeader c' ''boot:1'' ''t'' 0 = Some (broker_addr (hd demo_brokers))" using g by simp
  moreover have "GetLeader c' ''boot:1'' ''old'' 0 = None"
    using g [of "''old''" 0] by (cases "GetLeader c' ''boot:1'' ''old'' 0") auto
  ultimately show ?thesis using R by blast
qed

text \<open>The refreshers under any interleaving of the cache's calls and the loops.\<close>

inductive rf_reach :: "refreshers \<Rightarrow> bool" where
  rf_init: "rf_reach \<lparr>rsMap = Map.empty, rsAll = []\<rparr>"
| rf_start: "rf_reach s \<Longrightarrow> rf_reach (StartBackgroundRefresh b s)"
| rf_stop: "rf_reach s \<Longrightarrow> StopBackgroundRefresh b s = Inr s' \<Longrightarrow> rf_reach s'"
| rf_stop_all: "rf_reach s \<Longrightarrow> enumerates order (rsMap s) \<Longrightarrow> StopAllBackgroundRefreshes order s = Inr s' \<Longrightarrow> rf_reach s'"
| rf_trigger: "rf_reach s \<Longrightarrow> rf_reach (TriggerRefresh b s)"
| rf_loop: "rf_reach s \<Longrightarrow> refreshLoop i ev dialed (c, s) = Some (c', s') \<Longrightarrow> rf_reach s'"

definition rf_inv :: "refreshers \<Rightarrow> bool" where
  "rf_inv s \<longleftrightarrow> (\<forall>b i. rsMap s b = Some i \<longleftrightarrow>
     i < length (rsAll s) \<and> rfBootstrap (rsAll s ! i) = b \<and> rfLive (rsAll s ! i) \<and> \<not> rfStop (rsAll s ! i))
   \<and> (\<forall>i<length (rsAll s). \<not> rfLive (rsAll s ! i) \<longrightarrow> rfStop (rsAll s ! i))"

lemma rf_inv_start: "rf_inv s \<Longrightarrow> rf_inv (StartBackgroundRefresh b s)"
  unfolding rf_inv_def StartBackgroundRefresh_def
  by (auto simp: nth_append less_Suc_eq split: option.splits if_splits) (metis option.distinct(1))

lemma rf_inv_stop: "rf_inv s \<Longrightarrow> StopBackgroundRefresh b s = Inr s' \<Longrightarrow> rf_inv s'"
  unfolding rf_inv_def StopBackgroundRefresh_def close_stop_def
  by (auto simp: nth_list_update split: option.splits if_splits) (metis option.inject)

lemma rf_inv_trigger: "rf_inv s \<Longrightarrow> rf_inv (TriggerRefresh b s)"
  unfolding rf_inv_def TriggerRefresh_def by (auto simp: nth_list_update split: option.splits)

lemma rf_inv_loop: "rf_inv s \<Longrightarrow> refreshLoop i ev dialed (c, s) = Some (c', s') \<Longrightarrow> rf_inv s'"
  unfolding rf_inv_def refreshLoop_def
  by (auto simp: nth_list_update Let_def split: if_splits loop_event.splits)

lemma rf_inv_open: "rf_inv s \<Longrightarrow> rsMap s b = Some i \<Longrightarrow> \<not> rfStop (rsAll s ! i)"
  unfolding rf_inv_def by blast

lemma stop_no_panic: "rf_inv s \<Longrightarrow> \<exists>s'. StopBackgroundRefresh b s = Inr s'"
  by (cases "rsMap s b") (auto simp: StopBackgroundRefresh_def close_stop_def dest: rf_inv_open)

lemma stop_all_inv:
  "rf_inv s \<Longrightarrow> \<exists>s'. StopAllBackgroundRefreshes order s = Inr s' \<and> rf_inv s'"
proof (induction order arbitrary: s)
  case (Cons b order)
  obtain s1 where "StopBackgroundRefresh b s = Inr s1" using stop_no_panic [OF Cons.prems] by blast
  then show ?case using Cons.IH [OF rf_inv_stop [OF Cons.prems]] by simp
qed simp

lemma rf_reach_inv: "rf_reach s \<Longrightarrow> rf_inv s"
proof (induction rule: rf_reach.induct)
  case rf_init
  show ?case by (simp add: rf_inv_def)
next
  case (rf_stop_all s order s')
  then show ?case using stop_all_inv [of s order] by auto
qed (auto intro: rf_inv_start rf_inv_stop rf_inv_trigger rf_inv_loop)

text \<open>
  C32. Background refreshers stay one per bootstrap. Under any interleaving of starts, stops,
  triggers and loop rounds, a bootstrap is registered exactly if a refresher of it is running that
  nobody told to stop, two such refreshers of one bootstrap are the same, the stop channels are
  never closed twice (no stop panics), and a refresher that left the map has its stop channel
  closed, so that its loop can end.
\<close>
theorem one_refresher:
  assumes "rf_reach s"
  shows "(\<forall>b. b \<in> ActiveClusters s \<longleftrightarrow>
       (\<exists>r\<in>set (rsAll s). rfBootstrap r = b \<and> rfLive r \<and> \<not> rfStop r))
    \<and> (\<forall>i j. i < length (rsAll s) \<and> j < length (rsAll s) \<and> rfLive (rsAll s ! i) \<and> \<not> rfStop (rsAll s ! i)
        \<and> rfLive (rsAll s ! j) \<and> \<not> rfStop (rsAll s ! j) \<and> rfBootstrap (rsAll s ! i) = rfBootstrap (rsAll s ! j) \<longrightarrow> i = j)
    \<and> (\<forall>b. \<exists>s'. StopBackgroundRefresh b s = Inr s' \<and> b \<notin> ActiveClusters s')
    \<and> (\<forall>i<length (rsAll s). rfLive (rsAll s ! i) \<and> rsMap s (rfBootstrap (rsAll s ! i)) \<noteq> Some i
        \<longrightarrow> (\<forall>c dialed. \<exists>s'. refreshLoop i LoopStop dialed (c, s) = Some (c, s')))"
proof -
  have inv: "rf_inv s" using assms by (rule rf_reach_inv)
  then have reg: "rsMap s b = Some i \<longleftrightarrow> i < length (rsAll s) \<and> rfBootstrap (rsAll s ! i) = b \<and> rfLive (rsAll s ! i)
      \<and> \<not> rfStop (rsAll s ! i)" for b i by (simp add: rf_inv_def)
  have "b \<in> ActiveClusters s \<longleftrightarrow> (\<exists>r\<in>set (rsAll s). rfBootstrap r = b \<and> rfLive r \<and> \<not> rfStop r)" for b
    unfolding ActiveClusters_def dom_def mem_Collect_eq not_None_eq reg by (metis in_set_conv_nth)
  moreover have "\<exists>s'. StopBackgroundRefresh b s = Inr s' \<and> b \<notin> ActiveClusters s'" for b
    by (cases "rsMap s b") (auto simp: StopBackgroundRefresh_def close_stop_def ActiveClusters_def dest: rf_inv_open [OF inv])
  moreover have "\<exists>s'. refreshLoop i LoopStop dialed (c, s) = Some (c, s')"
    if "i < length (rsAll s)" "rfLive (rsAll s ! i)" "rsMap s (rfBootstrap (rsAll s ! i)) \<noteq> Some i" for i c dialed
    using that by (simp add: reg refreshLoop_def)
  moreover have "i = j" if "i < length (rsAll s)" "j < length (rsAll s)" "rfLive (rsAll s ! i)" "\<not> rfStop (rsAll s ! i)"
    "rfLive (rsAll s ! j)" "\<not> rfStop (rsAll s ! j)" "rfBootstrap (rsAll s ! i) = rfBootstrap (rsAll s ! j)" for i j
    using that reg [of "rfBootstrap (rsAll s ! i)" i] reg [of "rfBootstrap (rsAll s ! i)" j] by simp
  ultimately show ?thesis by blast
qed

theorem one_refresher_witness:
  "\<exists>s'. StopBackgroundRefresh ''a:1'' (StartBackgroundRefresh ''a:1'' (StartBackgroundRefresh ''a:1''
     \<lparr>rsMap = Map.empty, rsAll = []\<rparr>)) = Inr s' \<and> ''a:1'' \<notin> ActiveClusters s'"
  using one_refresher [OF rf_start [OF rf_start [OF rf_init, of "''a:1''"], of "''a:1''"]] by blast

end
