(* ===== verification/Conn_Pool.thy ===== *)
theory Conn_Pool
  imports Config Net Protocol
begin

text \<open>
  The per-broker connection pool, \<^verbatim>\<open>internal/pool/pool.go\<close>. A broker pool is its two channels: the
  idle connections in order of their return, and the number of taken semaphore slots. The channel
  operations of one call are one step, except that a \<open>Get\<close> that finds the pool at capacity waits:
  it is resumed by \<open>Get_resume\<close>, whose only way on is an idle connection. Dialling is an argument.
\<close>

section \<open>State\<close>

record pooledConn =
  pcConn :: "conn option"
  pcLastUsed :: Time

record brokerPool =
  bpIdle :: "pooledConn list"
  bpSem :: nat
  bpMaxSize :: nat
  bpAddr :: string

record connectionPool =
  cpPools :: "string \<rightharpoonup> brokerPool"
  cpCfg :: ConnectionPoolConfig

definition defaultMaxConnections :: nat where "defaultMaxConnections = 50"
definition defaultIdleTimeout :: Duration where "defaultIdleTimeout = 30 * second"
definition defaultKeepAlive :: Duration where "defaultKeepAlive = 30 * second"

definition pool_New :: "ConnectionPoolConfig \<Rightarrow> connectionPool" where
  "pool_New cfg = \<lparr>cpPools = Map.empty, cpCfg = cfg\<rparr>"

definition isAlive :: "Time \<Rightarrow> Duration \<Rightarrow> pooledConn \<Rightarrow> bool" where
  "isAlive now timeout pc =
     (if pcConn pc = None then False
      else if 0 < timeout \<and> timeout < Since now (pcLastUsed pc) then False else True)"

definition pooledConn_close :: "pooledConn \<Rightarrow> pooledConn \<times> conn option" where
  "pooledConn_close pc = (pc\<lparr>pcConn := None\<rparr>, map_option conn_Close (pcConn pc))"

definition pool_idleTimeout :: "connectionPool \<Rightarrow> Duration" where
  "pool_idleTimeout cp = (if IdleTimeout (cpCfg cp) \<le> 0 then defaultIdleTimeout else IdleTimeout (cpCfg cp))"

definition pool_keepAliveInterval :: "connectionPool \<Rightarrow> Duration" where
  "pool_keepAliveInterval cp = (if KeepAliveInterval (cpCfg cp) \<le> 0 then defaultKeepAlive else KeepAliveInterval (cpCfg cp))"

definition getOrCreatePool :: "string \<Rightarrow> connectionPool \<Rightarrow> brokerPool \<times> connectionPool" where
  "getOrCreatePool addr cp =
     (case cpPools cp addr of
        Some bp \<Rightarrow> (bp, cp)
      | None \<Rightarrow>
          let maxSize = (if MaxConnectionsPerBroker (cpCfg cp) \<le> 0 then defaultMaxConnections
                         else nat (MaxConnectionsPerBroker (cpCfg cp)));
              bp = \<lparr>bpIdle = [], bpSem = 0, bpMaxSize = maxSize, bpAddr = addr\<rparr>
          in (bp, cp\<lparr>cpPools := (cpPools cp)(addr \<mapsto> bp)\<rparr>))"

section \<open>Get and Put\<close>

text \<open>
  A dial is the TCP dial's result and, with a TLS configuration, the handshake.
\<close>

definition dialTLS :: "error + conn \<Rightarrow> (conn \<Rightarrow> error + conn) option \<Rightarrow> error + conn" where
  "dialTLS raw handshake =
     (case raw of Inl e \<Rightarrow> Inl e
      | Inr rawConn \<Rightarrow> (case handshake of None \<Rightarrow> Inr rawConn
          | Some h \<Rightarrow> wrap_err ''TLS handshake'' (h rawConn)))"

text \<open>\<open>GetStuck\<close> is a receive from the empty semaphore after closing a dead connection.\<close>

datatype get_result = GetConn conn | GetErr error | GetBlocked | GetStuck

fun get_loop :: "Time \<Rightarrow> Duration \<Rightarrow> error + conn \<Rightarrow> nat \<Rightarrow> pooledConn list \<Rightarrow> nat \<Rightarrow> get_result \<times> pooledConn list \<times> nat" where
  "get_loop now timeout dialed maxSize [] sem =
     (if sem < maxSize
      then (case dialed of
              Inl e \<Rightarrow> (GetErr (Wrap ''dial broker'' e), [], sem)
            | Inr c \<Rightarrow> (GetConn c, [], Suc sem))
      else (GetBlocked, [], sem))"
| "get_loop now timeout dialed maxSize (pc # idle) sem =
     (if isAlive now timeout pc then (GetConn (the (pcConn pc)), idle, sem)
      else if sem = 0 then (GetStuck, idle, sem)
      else get_loop now timeout dialed maxSize idle (sem - 1))"

definition run_get :: "Time \<Rightarrow> error + conn \<Rightarrow> string \<Rightarrow> brokerPool \<Rightarrow> connectionPool \<Rightarrow> get_result \<times> connectionPool" where
  "run_get now dialed addr bp cp =
     (case get_loop now (pool_idleTimeout cp) dialed (bpMaxSize bp) (bpIdle bp) (bpSem bp) of
        (r, idle, sem) \<Rightarrow> (r, cp\<lparr>cpPools := (cpPools cp)(addr \<mapsto> bp\<lparr>bpIdle := idle, bpSem := sem\<rparr>)\<rparr>))"

definition pool_Get :: "Time \<Rightarrow> error + conn \<Rightarrow> string \<Rightarrow> connectionPool \<Rightarrow> get_result \<times> connectionPool" where
  "pool_Get now dialed addr cp = (case getOrCreatePool addr cp of (bp, cp) \<Rightarrow> run_get now dialed addr bp cp)"

text \<open>A waiting \<open>Get\<close> receives an idle connection and, if it is dead, starts over.\<close>

definition Get_resume :: "Time \<Rightarrow> error + conn \<Rightarrow> string \<Rightarrow> connectionPool \<Rightarrow> get_result \<times> connectionPool" where
  "Get_resume now dialed addr cp =
     (case cpPools cp addr of
        None \<Rightarrow> (GetBlocked, cp)
      | Some bp \<Rightarrow> if bpIdle bp = [] then (GetBlocked, cp) else run_get now dialed addr bp cp)"

text \<open>The flag says that the send on the idle channel did not block.\<close>

definition pool_Put :: "Time \<Rightarrow> string \<Rightarrow> conn \<Rightarrow> connectionPool \<Rightarrow> bool \<times> connectionPool" where
  "pool_Put now addr c cp =
     (case cpPools cp addr of
        None \<Rightarrow> (True, cp)
      | Some bp \<Rightarrow>
          if length (bpIdle bp) < bpMaxSize bp
          then (True, cp\<lparr>cpPools := (cpPools cp)(addr \<mapsto>
                  bp\<lparr>bpIdle := bpIdle bp @ [\<lparr>pcConn = Some c, pcLastUsed = now\<rparr>]\<rparr>)\<rparr>)
          else (False, cp))"

definition releaseSem :: "string \<Rightarrow> connectionPool \<Rightarrow> connectionPool" where
  "releaseSem addr cp =
     (case cpPools cp addr of
        None \<Rightarrow> cp
      | Some bp \<Rightarrow> if 0 < bpSem bp then cp\<lparr>cpPools := (cpPools cp)(addr \<mapsto> bp\<lparr>bpSem := bpSem bp - 1\<rparr>)\<rparr> else cp)"

section \<open>Background work\<close>

text \<open>Draining the idle channel, then closing or returning each connection.\<close>

definition cleanupBrokerPool :: "Time \<Rightarrow> Duration \<Rightarrow> brokerPool \<Rightarrow> brokerPool" where
  "cleanupBrokerPool now timeout bp =
     foldl (\<lambda>bp pc. if timeout < Since now (pcLastUsed pc)
                    then bp\<lparr>bpSem := bpSem bp - 1\<rparr>
                    else bp\<lparr>bpIdle := bpIdle bp @ [pc]\<rparr>)
       (bp\<lparr>bpIdle := []\<rparr>) (bpIdle bp)"

definition cleanupIdleConns :: "Time \<Rightarrow> connectionPool \<Rightarrow> connectionPool" where
  "cleanupIdleConns now cp =
     cp\<lparr>cpPools := (\<lambda>addr. map_option (cleanupBrokerPool now (pool_idleTimeout cp)) (cpPools cp addr))\<rparr>"

definition pool_metadataRequest :: "byte list \<Rightarrow> byte list" where
  "pool_metadataRequest pooled =
     (let clientID = ''kafkaproxy-health'';
          header = PutUint16 3 @ PutUint16 0 @ PutUint32 0 @ PutUint16 (word_of_nat (length clientID)) @ stob clientID
      in WriteFrame pooled header (PutUint32 0))"

definition pool_writeMetadataRequest :: "byte list \<Rightarrow> conn \<Rightarrow> error option \<times> conn" where
  "pool_writeMetadataRequest pooled c = conn_Write (pool_metadataRequest pooled) c"

definition pool_readMetadataResponse :: "conn \<Rightarrow> (error + unit) \<times> conn" where
  "pool_readMetadataResponse c =
     (case ReadFull 4 c of
        (Inl e, c) \<Rightarrow> (Inl (Wrap ''read response size'' e), c)
      | (Inr sizeBuf, c) \<Rightarrow>
          (case ReadFull (unat (Uint32 sizeBuf)) c of
             (Inl e, c) \<Rightarrow> (Inl (Wrap ''read response body'' e), c)
           | (Inr respBuf, c) \<Rightarrow>
               if length respBuf < 4 then (Inl (Errorf ''response too short''), c) else (Inr (), c)))"

text \<open>One address of \<open>runHealthChecks\<close>; a check that blocks in \<open>Get\<close> is left where it waits.\<close>

definition checkBroker :: "Time \<Rightarrow> byte list \<Rightarrow> error + conn \<Rightarrow> string \<Rightarrow> connectionPool \<Rightarrow> connectionPool" where
  "checkBroker now pooled dialed addr cp =
     (case pool_Get now dialed addr cp of
        (GetConn c, cp) \<Rightarrow>
          (case pool_writeMetadataRequest pooled c of
             (Some _, c) \<Rightarrow> releaseSem addr cp
           | (None, c) \<Rightarrow>
               (case pool_readMetadataResponse c of
                  (Inl _, c) \<Rightarrow> releaseSem addr cp
                | (Inr _, c) \<Rightarrow> snd (pool_Put now addr c cp)))
      | (_, cp) \<Rightarrow> cp)"

definition runHealthChecks :: "Time \<Rightarrow> byte list \<Rightarrow> (string \<Rightarrow> error + conn) \<Rightarrow> string list \<Rightarrow> connectionPool \<Rightarrow> connectionPool" where
  "runHealthChecks now pooled dial addrs cp = fold (\<lambda>addr. checkBroker now pooled (dial addr) addr) addrs cp"

section \<open>Reachable pools\<close>

text \<open>
  Any interleaving of the callers and the background work, with the connections callers hold
  (\<open>out\<close>) and those the clean-up has drained and not yet closed or returned (\<open>held\<close>) counted per
  address. Callers return or release only what they got. Besides running in one step, the clean-up
  may drain, return and close one connection at a time.
\<close>

definition got :: "get_result \<Rightarrow> nat" where
  "got r = (case r of GetConn _ \<Rightarrow> 1 | _ \<Rightarrow> 0)"

definition set_pool :: "string \<Rightarrow> brokerPool \<Rightarrow> connectionPool \<Rightarrow> connectionPool" where
  "set_pool addr bp cp = cp\<lparr>cpPools := (cpPools cp)(addr \<mapsto> bp)\<rparr>"

inductive pool_reach :: "connectionPool \<Rightarrow> (string \<Rightarrow> nat) \<Rightarrow> (string \<Rightarrow> nat) \<Rightarrow> bool" where
  p_new: "pool_reach (pool_New cfg) (\<lambda>_. 0) (\<lambda>_. 0)"
| p_get: "pool_reach cp out held \<Longrightarrow> pool_Get now d addr cp = (r, cp') \<Longrightarrow>
    pool_reach cp' (out(addr := out addr + got r)) held"
| p_resume: "pool_reach cp out held \<Longrightarrow> Get_resume now d addr cp = (r, cp') \<Longrightarrow>
    pool_reach cp' (out(addr := out addr + got r)) held"
| p_put: "pool_reach cp out held \<Longrightarrow> 0 < out addr \<Longrightarrow> pool_Put now addr c cp = (done, cp') \<Longrightarrow>
    pool_reach cp' (out(addr := out addr - 1)) held"
| p_release: "pool_reach cp out held \<Longrightarrow> 0 < out addr \<Longrightarrow> pool_reach (releaseSem addr cp) (out(addr := out addr - 1)) held"
| p_cleanup: "pool_reach cp out held \<Longrightarrow> pool_reach (cleanupIdleConns now cp) out held"
| p_drain: "pool_reach cp out held \<Longrightarrow> cpPools cp addr = Some bp \<Longrightarrow> bpIdle bp = pc # rest \<Longrightarrow>
    pool_reach (set_pool addr (bp\<lparr>bpIdle := rest\<rparr>) cp) out (held(addr := held addr + 1))"
| p_return: "pool_reach cp out held \<Longrightarrow> cpPools cp addr = Some bp \<Longrightarrow> 0 < held addr \<Longrightarrow> pcConn pc \<noteq> None \<Longrightarrow>
    pool_reach (set_pool addr (bp\<lparr>bpIdle := bpIdle bp @ [pc]\<rparr>) cp) out (held(addr := held addr - 1))"
| p_expire: "pool_reach cp out held \<Longrightarrow> cpPools cp addr = Some bp \<Longrightarrow> 0 < held addr \<Longrightarrow>
    pool_reach (set_pool addr (bp\<lparr>bpSem := bpSem bp - 1\<rparr>) cp) out (held(addr := held addr - 1))"

definition bp_inv :: "nat \<Rightarrow> brokerPool \<Rightarrow> bool" where
  "bp_inv n bp \<longleftrightarrow> bpSem bp = length (bpIdle bp) + n \<and> bpSem bp \<le> bpMaxSize bp \<and> 0 < bpMaxSize bp
     \<and> (\<forall>pc\<in>set (bpIdle bp). pcConn pc \<noteq> None)"

definition pool_inv :: "connectionPool \<Rightarrow> (string \<Rightarrow> nat) \<Rightarrow> (string \<Rightarrow> nat) \<Rightarrow> bool" where
  "pool_inv cp out held \<longleftrightarrow> (\<forall>addr. case cpPools cp addr of
       None \<Rightarrow> out addr = 0 \<and> held addr = 0
     | Some bp \<Rightarrow> bp_inv (out addr + held addr) bp)"

lemma pool_invD: "pool_inv cp out held \<Longrightarrow> cpPools cp addr = Some bp \<Longrightarrow> bp_inv (out addr + held addr) bp"
  unfolding pool_inv_def by (metis option.simps(5))

lemma pool_inv_None: "pool_inv cp out held \<Longrightarrow> cpPools cp addr = None \<Longrightarrow> out addr = 0 \<and> held addr = 0"
  unfolding pool_inv_def by (metis option.simps(4))

lemma pool_inv_Some: "pool_inv cp out held \<Longrightarrow> 0 < out addr \<Longrightarrow> \<exists>bp. cpPools cp addr = Some bp"
  using pool_inv_None [of cp out held addr] by (cases "cpPools cp addr") auto

lemma pool_inv_upd:
  assumes "pool_inv cp out held" and "bp_inv (out' addr + held' addr) bp"
    and "\<And>a. a \<noteq> addr \<Longrightarrow> out' a = out a \<and> held' a = held a"
  shows "pool_inv (cp\<lparr>cpPools := (cpPools cp)(addr \<mapsto> bp)\<rparr>) out' held'"
  unfolding pool_inv_def
proof
  fix a
  show "case cpPools (cp\<lparr>cpPools := (cpPools cp)(addr \<mapsto> bp)\<rparr>) a of None \<Rightarrow> out' a = 0 \<and> held' a = 0
      | Some bp \<Rightarrow> bp_inv (out' a + held' a) bp"
    using assms pool_inv_None [OF assms(1), of a] pool_invD [OF assms(1), of a]
    by (cases "a = addr") (auto split: option.splits)
qed

lemma pool_inv_getOrCreate:
  assumes "pool_inv cp out held" and "getOrCreatePool addr cp = (bp, cp')"
  shows "pool_inv cp' out held \<and> bp_inv (out addr + held addr) bp \<and> cpPools cp' addr = Some bp \<and> cpCfg cp' = cpCfg cp"
proof (cases "cpPools cp addr")
  case (Some bp')
  then show ?thesis using assms pool_invD [OF assms(1) Some] by (simp add: getOrCreatePool_def)
next
  case None
  then have "out addr = 0" "held addr = 0" using pool_inv_None [OF assms(1)] by auto
  then have "bp_inv (out addr + held addr) bp" "cp' = cp\<lparr>cpPools := (cpPools cp)(addr \<mapsto> bp)\<rparr>"
    using assms(2) None by (auto simp: getOrCreatePool_def bp_inv_def Let_def defaultMaxConnections_def split: if_splits)
  then show ?thesis using pool_inv_upd [OF assms(1)] by simp
qed

lemma get_loop_inv:
  "get_loop now timeout d maxSize idle sem = (r, idle', sem') \<Longrightarrow> sem = length idle + n \<Longrightarrow> sem \<le> maxSize \<Longrightarrow>
   r \<noteq> GetStuck \<and> sem' = length idle' + (n + got r) \<and> sem' \<le> maxSize \<and> set idle' \<subseteq> set idle
   \<and> (r = GetBlocked \<longrightarrow> n = maxSize \<and> idle' = [])"
proof (induction now timeout d maxSize idle sem rule: get_loop.induct)
  case (1 now timeout dialed maxSize sem)
  then show ?case by (auto simp: got_def split: if_splits sum.splits)
next
  case (2 now timeout dialed maxSize pc idle sem)
  show ?case
  proof (cases "isAlive now timeout pc")
    case True
    then show ?thesis using "2.prems" by (auto simp: got_def)
  next
    case False
    have "get_loop now timeout dialed maxSize idle (sem - 1) = (r, idle', sem')" using "2.prems" False by simp
    then show ?thesis using "2.IH" [OF False] "2.prems" by fastforce
  qed
qed

lemma run_get_inv:
  assumes "pool_inv cp out held" and "bp_inv (out addr + held addr) bp" and "run_get now d addr bp cp = (r, cp')"
  shows "pool_inv cp' (out(addr := out addr + got r)) held \<and> r \<noteq> GetStuck
    \<and> (r = GetBlocked \<longrightarrow> out addr + held addr = bpMaxSize bp \<and> cpPools cp' addr = Some (bp\<lparr>bpIdle := [], bpSem := bpMaxSize bp\<rparr>))"
proof -
  obtain idle' sem' where g: "get_loop now (pool_idleTimeout cp) d (bpMaxSize bp) (bpIdle bp) (bpSem bp) = (r, idle', sem')"
      "cp' = cp\<lparr>cpPools := (cpPools cp)(addr \<mapsto> bp\<lparr>bpIdle := idle', bpSem := sem'\<rparr>)\<rparr>"
    using assms(3) by (auto simp: run_get_def split: prod.splits)
  have l: "r \<noteq> GetStuck" "sem' = length idle' + (out addr + held addr + got r)" "sem' \<le> bpMaxSize bp" "set idle' \<subseteq> set (bpIdle bp)"
    "r = GetBlocked \<longrightarrow> out addr + held addr = bpMaxSize bp \<and> idle' = []"
    using get_loop_inv [OF g(1), of "out addr + held addr"] assms(2) by (auto simp: bp_inv_def)
  have "bp_inv ((out(addr := out addr + got r)) addr + held addr) (bp\<lparr>bpIdle := idle', bpSem := sem'\<rparr>)"
    using l(2-4) assms(2) by (auto simp: bp_inv_def)
  from pool_inv_upd [where out' = "out(addr := out addr + got r)" and held' = held, OF assms(1) this] show ?thesis using l(1,2,5) g(2) by (auto simp: got_def)
qed

lemma cleanup_inv:
  "bp_inv (length pcs + n) bp \<Longrightarrow> \<forall>pc\<in>set pcs. pcConn pc \<noteq> None \<Longrightarrow>
   bp_inv n (foldl (\<lambda>bp pc. if timeout < Since now (pcLastUsed pc) then bp\<lparr>bpSem := bpSem bp - 1\<rparr>
                            else bp\<lparr>bpIdle := bpIdle bp @ [pc]\<rparr>) bp pcs)"
proof (induction pcs arbitrary: bp)
  case Nil
  then show ?case by simp
next
  case (Cons pc pcs)
  have "bp_inv (length pcs + n) (if timeout < Since now (pcLastUsed pc) then bp\<lparr>bpSem := bpSem bp - 1\<rparr>
      else bp\<lparr>bpIdle := bpIdle bp @ [pc]\<rparr>)"
    using Cons.prems by (auto simp: bp_inv_def)
  from Cons.IH [OF this] show ?case using Cons.prems by simp
qed

lemma cleanupBrokerPool_inv: "bp_inv n bp \<Longrightarrow> bp_inv n (cleanupBrokerPool now timeout bp)"
  unfolding cleanupBrokerPool_def by (rule cleanup_inv) (auto simp: bp_inv_def)

lemma pool_reach_inv: "pool_reach cp out held \<Longrightarrow> pool_inv cp out held"
proof (induction rule: pool_reach.induct)
  case (p_new cfg)
  show ?case by (simp add: pool_inv_def pool_New_def)
next
  case (p_get cp out held now d addr r cp')
  obtain bp cp1 where g: "getOrCreatePool addr cp = (bp, cp1)" by fastforce
  then have "run_get now d addr bp cp1 = (r, cp')" using p_get.hyps(2) by (simp add: pool_Get_def)
  then show ?case using pool_inv_getOrCreate [OF p_get.IH g] run_get_inv by blast
next
  case (p_resume cp out held now d addr r cp')
  show ?case
  proof (cases "r = GetBlocked \<and> cp' = cp")
    case True
    then show ?thesis using p_resume.IH by (simp add: got_def)
  next
    case False
    then obtain bp where "cpPools cp addr = Some bp" "run_get now d addr bp cp = (r, cp')"
      using p_resume.hyps(2) by (auto simp: Get_resume_def split: option.splits if_splits)
    then show ?thesis using run_get_inv [OF p_resume.IH pool_invD [OF p_resume.IH]] by blast
  qed
next
  case (p_put cp out held addr now c don cp')
  then obtain bp where bp: "cpPools cp addr = Some bp" using pool_inv_Some by blast
  have i: "bp_inv (out addr + held addr) bp" using p_put.IH bp by (rule pool_invD)
  then have cp': "cp' = cp\<lparr>cpPools := (cpPools cp)(addr \<mapsto> bp\<lparr>bpIdle := bpIdle bp @ [\<lparr>pcConn = Some c, pcLastUsed = now\<rparr>]\<rparr>)\<rparr>"
    using p_put.hyps(2,3) bp by (auto simp: pool_Put_def bp_inv_def)
  show ?case unfolding cp'
    by (rule pool_inv_upd [OF p_put.IH]) (use i p_put.hyps(2) in \<open>auto simp: bp_inv_def\<close>)
next
  case (p_release cp out held addr)
  then obtain bp where bp: "cpPools cp addr = Some bp" using pool_inv_Some by blast
  have i: "bp_inv (out addr + held addr) bp" using p_release.IH bp by (rule pool_invD)
  then have r: "releaseSem addr cp = cp\<lparr>cpPools := (cpPools cp)(addr \<mapsto> bp\<lparr>bpSem := bpSem bp - 1\<rparr>)\<rparr>"
    using p_release.hyps(2) bp by (simp add: releaseSem_def bp_inv_def)
  show ?case unfolding r
    by (rule pool_inv_upd [OF p_release.IH]) (use i p_release.hyps(2) in \<open>auto simp: bp_inv_def\<close>)
next
  case (p_cleanup cp out held now)
  show ?case
    unfolding pool_inv_def
  proof
    fix a
    show "case cpPools (cleanupIdleConns now cp) a of None \<Rightarrow> out a = 0 \<and> held a = 0
        | Some bp \<Rightarrow> bp_inv (out a + held a) bp"
      using pool_inv_None [OF p_cleanup.IH, of a] pool_invD [OF p_cleanup.IH, of a]
      by (cases "cpPools cp a") (auto simp: cleanupIdleConns_def cleanupBrokerPool_inv)
  qed
next
  case (p_drain cp out held addr bp pc rest)
  show ?case unfolding set_pool_def
    by (rule pool_inv_upd [OF p_drain.IH]) (use pool_invD [OF p_drain.IH p_drain.hyps(2)] p_drain.hyps(3) in \<open>auto simp: bp_inv_def\<close>)
next
  case (p_return cp out held addr bp pc)
  show ?case unfolding set_pool_def
    by (rule pool_inv_upd [OF p_return.IH]) (use pool_invD [OF p_return.IH p_return.hyps(2)] p_return.hyps(3,4) in \<open>auto simp: bp_inv_def\<close>)
next
  case (p_expire cp out held addr bp)
  show ?case unfolding set_pool_def
    by (rule pool_inv_upd [OF p_expire.IH]) (use pool_invD [OF p_expire.IH p_expire.hyps(2)] p_expire.hyps(3) in \<open>auto simp: bp_inv_def\<close>)
qed

section \<open>Properties\<close>

lemma pool_idleTimeout_pos: "0 < pool_idleTimeout cp"
  by (simp add: pool_idleTimeout_def defaultIdleTimeout_def second_def)

lemma isAlive_fresh: "isAlive now (pool_idleTimeout cp) \<lparr>pcConn = Some c, pcLastUsed = now\<rparr>"
  using pool_idleTimeout_pos [of cp] by (simp add: isAlive_def Since_def maxDuration_def minDuration_def)

text \<open>
  C28. The pool never exceeds its bound and its channels never block where the code relies on
  that. In every reachable pool of an address each taken semaphore slot is an idle connection, one
  a caller holds or one the clean-up holds, and there are at most \<open>maxSize\<close> of them; returning a
  held connection never blocks; a \<open>Get\<close> never waits for a semaphore slot to release; and it waits
  for a connection only when all \<open>maxSize\<close> of them are out.
\<close>
theorem pool_bounded:
  assumes "pool_reach cp out held" and "cpPools cp addr = Some bp"
  shows "bpSem bp = length (bpIdle bp) + out addr + held addr \<and> bpSem bp \<le> bpMaxSize bp
    \<and> (0 < out addr \<longrightarrow> fst (pool_Put now addr c cp))
    \<and> fst (pool_Get now d addr cp) \<noteq> GetStuck
    \<and> (fst (pool_Get now d addr cp) = GetBlocked \<longrightarrow> out addr + held addr = bpMaxSize bp)"
proof -
  have inv: "pool_inv cp out held" using assms(1) by (rule pool_reach_inv)
  then have i: "bp_inv (out addr + held addr) bp" using assms(2) by (rule pool_invD)
  obtain r cp' where g: "run_get now d addr bp cp = (r, cp')" by fastforce
  then have "pool_Get now d addr cp = (r, cp')" using assms(2) by (simp add: pool_Get_def getOrCreatePool_def)
  then show ?thesis using run_get_inv [OF inv i g] i assms(2) by (auto simp: bp_inv_def pool_Put_def)
qed

abbreviation demo_conn :: conn where
  "demo_conn \<equiv> \<lparr>cin = [], cout = [], cwok = 9\<rparr>"

abbreviation one_conn_cfg :: ConnectionPoolConfig where
  "one_conn_cfg \<equiv> \<lparr>MaxConnectionsPerBroker = 1, IdleTimeout = 0, KeepAliveInterval = 0\<rparr>"

abbreviation demo_pool :: "nat \<Rightarrow> connectionPool" where
  "demo_pool sem \<equiv> \<lparr>cpPools = [''b:1'' \<mapsto> \<lparr>bpIdle = [], bpSem = sem, bpMaxSize = 1, bpAddr = ''b:1''\<rparr>], cpCfg = one_conn_cfg\<rparr>"

lemma demo_reach: "pool_reach (demo_pool 1) ((\<lambda>_. 0)(''b:1'' := 1)) (\<lambda>_. 0)"
proof -
  have "pool_Get 5 (Inr demo_conn) ''b:1'' (pool_New one_conn_cfg) = (GetConn demo_conn, demo_pool 1)"
    by (simp add: pool_New_def pool_Get_def getOrCreatePool_def run_get_def Let_def)
  from p_get [OF p_new this] show ?thesis by (simp add: got_def)
qed

theorem pool_bounded_witness:
  "fst (pool_Put 6 ''b:1'' demo_conn (demo_pool 1)) \<and> fst (pool_Get 6 (Inr demo_conn) ''b:1'' (demo_pool 1)) \<noteq> GetStuck"
  using pool_bounded [OF demo_reach, of "''b:1''"] by simp

text \<open>
  A waiting \<open>Get\<close> sleeps through a freed slot. When a \<open>Get\<close> waits because the pool is at
  capacity and the holder of a connection closes it and releases its slot (as the health check
  does with a broken connection), the waiting call stays blocked although a new \<open>Get\<close> would dial at
  once; only a connection put back wakes it, and it then gets exactly that one.
\<close>
theorem blocked_get_misses_release:
  assumes "pool_reach cp out held" and "pool_Get now d addr cp = (GetBlocked, cp1)" and "0 < out addr"
  shows "Get_resume t d1 addr (releaseSem addr cp1) = (GetBlocked, releaseSem addr cp1)
    \<and> fst (pool_Get t (Inr c) addr (releaseSem addr cp1)) = GetConn c
    \<and> fst (Get_resume t d1 addr (snd (pool_Put t addr c cp1))) = GetConn c"
proof -
  have inv: "pool_inv cp out held" using assms(1) by (rule pool_reach_inv)
  obtain bp where bp: "cpPools cp addr = Some bp" using pool_inv_Some [OF inv assms(3)] by blast
  have i: "bp_inv (out addr + held addr) bp" using inv bp by (rule pool_invD)
  have "run_get now d addr bp cp = (GetBlocked, cp1)" using assms(2) bp by (simp add: pool_Get_def getOrCreatePool_def)
  then have cp1: "cpPools cp1 addr = Some (bp\<lparr>bpIdle := [], bpSem := bpMaxSize bp\<rparr>)" using run_get_inv [OF inv i] by blast
  have pos: "0 < bpMaxSize bp" using i by (simp add: bp_inv_def)
  show ?thesis using cp1 pos isAlive_fresh
    by (simp add: releaseSem_def Get_resume_def pool_Get_def getOrCreatePool_def run_get_def pool_Put_def)
qed

theorem blocked_get_misses_release_witness:
  "Get_resume 7 (Inr demo_conn) ''b:1'' (releaseSem ''b:1'' (demo_pool 1)) = (GetBlocked, releaseSem ''b:1'' (demo_pool 1))
   \<and> fst (pool_Get 7 (Inr demo_conn) ''b:1'' (releaseSem ''b:1'' (demo_pool 1))) = GetConn demo_conn"
proof -
  have "pool_Get 6 (Inr demo_conn) ''b:1'' (demo_pool 1) = (GetBlocked, demo_pool 1)"
    by (simp add: pool_Get_def getOrCreatePool_def run_get_def)
  from blocked_get_misses_release [OF demo_reach this] show ?thesis by simp
qed

end
