(* ===== verification/Routing.thy ===== *)
theory Routing
  imports Leader_Cache Conn_Pool
begin

unbundle bit_operations_syntax

text \<open>
  The Produce/Fetch data path, \<^verbatim>\<open>internal/routing/data.go\<close> and \<^verbatim>\<open>sticky.go\<close>: per-topic and
  per-cluster counters, the parsers that extract the first topic and partition of a request body,
  the sticky choice of a sub-cluster, the router with its effective weights, and the handler
  \<open>Route\<close> over the client connection, the leader cache and the connection pool.
\<close>

section \<open>Counters\<close>

text \<open>The \<open>int64\<close> counters of a topic (produce, fetch) and of a cluster (produce, fetch, records).\<close>

type_synonym topic_stats = "string \<rightharpoonup> 64 word \<times> 64 word"
type_synonym cluster_stats = "string \<rightharpoonup> 64 word \<times> 64 word \<times> 64 word"

definition RecordTopicProduce :: "string \<Rightarrow> topic_stats \<Rightarrow> topic_stats" where
  "RecordTopicProduce topic m =
     (case (case m topic of None \<Rightarrow> (0, 0) | Some e \<Rightarrow> e) of (p, f) \<Rightarrow> m(topic \<mapsto> (p + 1, f)))"

definition RecordTopicFetch :: "string \<Rightarrow> topic_stats \<Rightarrow> topic_stats" where
  "RecordTopicFetch topic m =
     (case (case m topic of None \<Rightarrow> (0, 0) | Some e \<Rightarrow> e) of (p, f) \<Rightarrow> m(topic \<mapsto> (p, f + 1)))"

record TopicStats =
  tsTopic :: string
  tsProduce :: "64 word"
  tsFetch :: "64 word"

text \<open>\<open>order\<close> is the order in which the map is visited.\<close>

definition GetTopicStats :: "string list \<Rightarrow> topic_stats \<Rightarrow> TopicStats list" where
  "GetTopicStats order m = map (\<lambda>t. case the (m t) of (p, f) \<Rightarrow> \<lparr>tsTopic = t, tsProduce = p, tsFetch = f\<rparr>) order"

definition cluster_entry :: "string \<Rightarrow> cluster_stats \<Rightarrow> 64 word \<times> 64 word \<times> 64 word" where
  "cluster_entry cl m = (case m cl of None \<Rightarrow> (0, 0, 0) | Some e \<Rightarrow> e)"

definition RecordClusterProduce :: "string \<Rightarrow> cluster_stats \<Rightarrow> cluster_stats" where
  "RecordClusterProduce cl m = (case cluster_entry cl m of (p, f, r) \<Rightarrow> m(cl \<mapsto> (p + 1, f, r + 1)))"

definition RecordClusterFetch :: "string \<Rightarrow> cluster_stats \<Rightarrow> cluster_stats" where
  "RecordClusterFetch cl m = (case cluster_entry cl m of (p, f, r) \<Rightarrow> m(cl \<mapsto> (p, f + 1, r)))"

record ClusterStats =
  csCluster :: string
  csProduce :: "64 word"
  csFetch :: "64 word"
  csRecords :: "64 word"

definition GetClusterStats :: "string list \<Rightarrow> cluster_stats \<Rightarrow> ClusterStats list" where
  "GetClusterStats order m =
     map (\<lambda>c. case the (m c) of (p, f, r) \<Rightarrow> \<lparr>csCluster = c, csProduce = p, csFetch = f, csRecords = r\<rparr>) order"

definition RecordClusterProduceBytes :: "string \<Rightarrow> 64 word \<Rightarrow> cluster_stats \<Rightarrow> cluster_stats" where
  "RecordClusterProduceBytes cl bytes m =
     (if sint bytes \<le> 0 then m
      else case cluster_entry cl m of (p, f, r) \<Rightarrow> m(cl \<mapsto> (p + bytes, f, r + 1)))"

definition RecordClusterFetchBytes :: "string \<Rightarrow> 64 word \<Rightarrow> cluster_stats \<Rightarrow> cluster_stats" where
  "RecordClusterFetchBytes cl bytes m =
     (if sint bytes \<le> 0 then m
      else case cluster_entry cl m of (p, f, r) \<Rightarrow> m(cl \<mapsto> (p, f + bytes, r)))"

section \<open>Request bodies\<close>

record RoutedRequest =
  rrAPIKey :: int16
  rrAPIVersion :: int16
  rrClientID :: string
  rrTopicName :: string
  rrPartitionID :: int32

text \<open>
  From the topic array on both bodies are read alike: count, first topic, partition count, first
  partition. \<open>what\<close> is the request's name in the messages.
\<close>

definition firstTopicPartition :: "string \<Rightarrow> byte list \<Rightarrow> nat \<Rightarrow> error + string \<times> int32" where
  "firstTopicPartition what body pos =
     (if length body < pos + 4 then Inl (Errorf (what @ '' body truncated at topic array length''))
      else if Uint32 (drop pos body) = 0 then Inl (Errorf (what @ '' request has no topics''))
      else
        (case wrap_err (what @ '' body: reading topic name'') (readString body (pos + 4)) of
           Inl e \<Rightarrow> Inl e
         | Inr (_, topicName, pos) \<Rightarrow>
             if length body < pos + 4 then Inl (Errorf (what @ '' body truncated at partition array length''))
             else if Uint32 (drop pos body) = 0 then Inl (Errorf (what @ '' request: topic has no partitions''))
             else if length body < pos + 4 + 4 then Inl (Errorf (what @ '' body truncated at partition id''))
             else Inr (topicName, Uint32 (drop (pos + 4) body))))"

text \<open>The length of the transactional id is read without a check: a body of fewer than two bytes panics.\<close>

definition parseProduceBody :: "byte list \<Rightarrow> int16 \<Rightarrow> error + RoutedRequest" where
  "parseProduceBody body version =
     (if 3 \<le> sint version \<and> length body < 2 then Inl (Panic ''index out of range'')
      else
        let txnLen = sint (Uint16 body);
            pos = (if 3 \<le> sint version then 2 + (if 0 < txnLen then nat txnLen else 0) else 0)
        in if length body < pos + 2 then Inl (Errorf ''produce body truncated at acks'')
           else if length body < pos + 2 + 4 then Inl (Errorf ''produce body truncated at timeout'')
           else (case firstTopicPartition ''produce'' body (pos + 2 + 4) of
                   Inl e \<Rightarrow> Inl e
                 | Inr (topic, prt) \<Rightarrow>
                     Inr \<lparr>rrAPIKey = APIKeyProduce, rrAPIVersion = 0, rrClientID = '''',
                          rrTopicName = topic, rrPartitionID = prt\<rparr>))"

definition parseFetchBody :: "byte list \<Rightarrow> int16 \<Rightarrow> error + RoutedRequest" where
  "parseFetchBody body version =
     (if length body < 4 then Inl (Errorf ''fetch body truncated at replica_id'')
      else if length body < 8 then Inl (Errorf ''fetch body truncated at max_wait'')
      else if length body < 12 then Inl (Errorf ''fetch body truncated at min_bytes'')
      else if 3 \<le> sint version \<and> length body < 16 then Inl (Errorf ''fetch body truncated at max_bytes'')
      else let pos = (if 3 \<le> sint version then 16 else 12) in
        if 4 \<le> sint version \<and> length body < pos + 1 then Inl (Errorf ''fetch body truncated at isolation_level'')
        else let pos = (if 4 \<le> sint version then pos + 1 else pos) in
          if 7 \<le> sint version \<and> length body < pos + 8 then Inl (Errorf ''fetch body truncated at session fixed'')
          else let pos = (if 7 \<le> sint version then pos + 8 else pos) in
            (case firstTopicPartition ''fetch'' body pos of
               Inl e \<Rightarrow> Inl e
             | Inr (topic, prt) \<Rightarrow>
                 Inr \<lparr>rrAPIKey = APIKeyFetch, rrAPIVersion = 0, rrClientID = '''',
                      rrTopicName = topic, rrPartitionID = prt\<rparr>))"

definition ParseRequestBody :: "int16 \<Rightarrow> int16 \<Rightarrow> byte list \<Rightarrow> error + RoutedRequest" where
  "ParseRequestBody apiKey apiVersion body =
     (if apiKey = APIKeyProduce then
        (case parseProduceBody body apiVersion of
           Inl e \<Rightarrow> Inl e
         | Inr req \<Rightarrow> Inr (req\<lparr>rrAPIKey := apiKey, rrAPIVersion := apiVersion\<rparr>))
      else if apiKey = APIKeyFetch then
        (case parseFetchBody body apiVersion of
           Inl e \<Rightarrow> Inl e
         | Inr req \<Rightarrow> Inr (req\<lparr>rrAPIKey := apiKey, rrAPIVersion := apiVersion\<rparr>))
      else Inl (Errorf ''unsupported API key for partition-aware routing''))"

definition apiKeyName :: "int16 \<Rightarrow> string" where
  "apiKeyName k =
     (if k = APIKeyProduce then ''Produce'' else if k = APIKeyFetch then ''Fetch''
      else if k = APIKeyMetadata then ''Metadata''
      else ''Unknown('' @ show_int (sint k) @ '')'')"

section \<open>Sticky routing\<close>

text \<open>64-bit FNV-1a, \<^verbatim>\<open>hash/fnv.New64a\<close>.\<close>

definition fnv64a :: "byte list \<Rightarrow> 64 word" where
  "fnv64a bs = foldl (\<lambda>h b. (h XOR ucast b) * 1099511628211) 14695981039346656037 bs"

definition StickyHash :: "string \<Rightarrow> int32 \<Rightarrow> int" where
  "StickyHash topic prt = int (unat (fnv64a (stob topic @ PutUint32 prt)) mod 100)"

definition selectClusterByWeight :: "ClusterConfig \<Rightarrow> int \<Rightarrow> int \<Rightarrow> string \<Rightarrow> int32 \<Rightarrow> string \<times> string" where
  "selectClusterByWeight cfg primaryW secondaryW topic prt =
     (let hash = StickyHash topic prt in
      if hash < primaryW then (''primary'', Bootstrap (Primary cfg)) else (''secondary'', Bootstrap (Secondary cfg)))"

definition stickyHash_legacy :: "string \<Rightarrow> int" where
  "stickyHash_legacy k = int (unat (fnv64a (stob k)) mod 100)"

definition selectClusterByWeightLegacy :: "ClusterConfig \<Rightarrow> int \<Rightarrow> int \<Rightarrow> string \<Rightarrow> string \<times> string" where
  "selectClusterByWeightLegacy cfg primaryW secondaryW k =
     (let hash = stickyHash_legacy k in
      if hash < primaryW then (''primary'', Bootstrap (Primary cfg)) else (''secondary'', Bootstrap (Secondary cfg)))"

section \<open>The router's weights\<close>

record clusterWeights =
  cwPrimary :: int
  cwSecondary :: int

record Router =
  rtCfg :: Config
  rtCache :: PartitionLeaderCache
  rtPool :: connectionPool
  rtWeights :: "string \<rightharpoonup> clusterWeights"

definition config_weights :: "ClusterConfig \<Rightarrow> clusterWeights" where
  "config_weights cc = \<lparr>cwPrimary = Weight (Primary cc), cwSecondary = Weight (Secondary cc)\<rparr>"

definition NewRouter :: "Config \<Rightarrow> PartitionLeaderCache \<Rightarrow> Router" where
  "NewRouter cfg cache =
     \<lparr>rtCfg = cfg, rtCache = cache, rtPool = pool_New (ConnectionPool (Proxy cfg)),
      rtWeights = fold (\<lambda>(name, cc) m. if Mode cc = ModeLoadBalance then m(name \<mapsto> config_weights cc) else m)
        (Clusters cfg) Map.empty\<rparr>"

definition SetEffectiveWeights :: "string \<Rightarrow> int \<Rightarrow> int \<Rightarrow> Router \<Rightarrow> Router" where
  "SetEffectiveWeights cluster primaryW secondaryW r =
     r\<lparr>rtWeights := (rtWeights r)(cluster \<mapsto> \<lparr>cwPrimary = primaryW, cwSecondary = secondaryW\<rparr>)\<rparr>"

definition Router_UpdateConfig :: "Config \<Rightarrow> Router \<Rightarrow> Router" where
  "Router_UpdateConfig cfg r =
     r\<lparr>rtCfg := cfg,
       rtWeights := fold (\<lambda>(name, cc) m. if Mode cc \<noteq> ModeLoadBalance then m
           else if m name = None then m(name \<mapsto> config_weights cc) else m) (Clusters cfg) (rtWeights r)\<rparr>"

definition GetEffectiveWeights :: "string \<Rightarrow> ClusterConfig \<Rightarrow> Router \<Rightarrow> int \<times> int" where
  "GetEffectiveWeights cluster cfg r =
     (case rtWeights r cluster of
        Some ew \<Rightarrow> (cwPrimary ew, cwSecondary ew)
      | None \<Rightarrow> if Mode cfg = ModeLoadBalance then (Weight (Primary cfg), Weight (Secondary cfg)) else (0, 0))"

definition resolveClusterBootstrap :: "ClusterConfig \<Rightarrow> string" where
  "resolveClusterBootstrap cfg =
     (if Mode cfg = ModeActivePassive then
        if Active cfg = ActivePrimary then Bootstrap (Primary cfg)
        else if Active cfg = ActiveSecondary then Bootstrap (Secondary cfg) else ''''
      else if Mode cfg = ModeLoadBalance then Bootstrap (Primary cfg)
      else if Mode cfg = ModeSingle then Bootstrap (Primary cfg)
      else '''')"

section \<open>Routing one request\<close>

text \<open>
  The leader of a routed request, or the bootstrap with a refresh of its metadata when the cache
  has none; \<open>get\<close> and \<open>refresh\<close> are the operations of the cache interface that the router uses. A
  failing refresh is only logged.
\<close>

definition leaderOrBootstrap :: "('s \<Rightarrow> string \<Rightarrow> string \<Rightarrow> int32 \<Rightarrow> string option) \<Rightarrow> ('s \<Rightarrow> string \<Rightarrow> 's) \<Rightarrow>
    's \<Rightarrow> string \<Rightarrow> RoutedRequest \<Rightarrow> string \<times> 's" where
  "leaderOrBootstrap get refresh cache targetBootstrap routed =
     (case get cache targetBootstrap (rrTopicName routed) (rrPartitionID routed) of
        Some leaderAddr \<Rightarrow> (leaderAddr, cache)
      | None \<Rightarrow> (targetBootstrap, refresh cache targetBootstrap))"

definition router_leader :: "(string \<Rightarrow> error + conn) \<Rightarrow> string \<Rightarrow> RoutedRequest \<Rightarrow> Router \<Rightarrow> string \<times> Router" where
  "router_leader dial targetBootstrap routed r =
     (case leaderOrBootstrap GetLeader (\<lambda>c b. fst (snd (RefreshMetadata c b (dial b)))) (rtCache r) targetBootstrap routed of
        (addr, cache) \<Rightarrow> (addr, r\<lparr>rtCache := cache\<rparr>))"

text \<open>Step 3 of the handler: the upstream address.\<close>

definition upstreamFor :: "(string \<Rightarrow> error + conn) \<Rightarrow> string \<Rightarrow> ClusterConfig \<Rightarrow> RequestHeader \<Rightarrow> byte list \<Rightarrow>
    Router \<Rightarrow> topic_stats \<Rightarrow> (error + string) \<times> Router \<times> topic_stats" where
  "upstreamFor dial clusterName cfg hdr fullFrame r stats =
     (if rhAPIKey hdr = APIKeyProduce \<or> rhAPIKey hdr = APIKeyFetch then
        (case wrap_err ''parsing request body'' (ParseRequestBody (rhAPIKey hdr) (rhAPIVersion hdr)
                (drop (14 + length (rhClientID hdr)) fullFrame)) of
           Inl e \<Rightarrow> (Inl e, r, stats)
         | Inr routed \<Rightarrow>
             let routed = routed\<lparr>rrClientID := rhClientID hdr\<rparr>;
                 stats = (if rhAPIKey hdr = APIKeyProduce then RecordTopicProduce (rrTopicName routed) stats
                          else RecordTopicFetch (rrTopicName routed) stats) in
             if Mode cfg = ModeActivePassive \<or> Mode cfg = ModeSingle then
               let targetBootstrap = resolveClusterBootstrap cfg in
               if targetBootstrap = '''' then (Inl (Errorf ''no bootstrap address for cluster''), r, stats)
               else (case router_leader dial targetBootstrap routed r of (addr, r) \<Rightarrow> (Inr addr, r, stats))
             else if Mode cfg = ModeLoadBalance then
               (case GetEffectiveWeights clusterName cfg r of (primW, secW) \<Rightarrow>
                  case selectClusterByWeight cfg primW secW (rrTopicName routed) (rrPartitionID routed) of
                    (subCluster, targetBootstrap) \<Rightarrow>
                      (case router_leader dial targetBootstrap routed r of (addr, r) \<Rightarrow> (Inr addr, r, stats)))
             else (Inl (Errorf ''unknown cluster mode''), r, stats))
      else
        let upstreamAddr = resolveClusterBootstrap cfg in
        if upstreamAddr = '''' then (Inl (Errorf ''no bootstrap address for cluster''), r, stats)
        else (Inr upstreamAddr, r, stats))"

text \<open>
  Step 1: a whole request frame from the client. Its size is bounded only by the size field; the sum
  \<open>4+frameSize\<close> of the second allocation is an \<open>int32\<close> and wraps for the largest sizes.
\<close>

definition readFrame :: "conn \<Rightarrow> (error + byte list) \<times> conn" where
  "readFrame client =
     (case ReadFull 4 client of
        (Inl e, client) \<Rightarrow> (Inl (Wrap ''reading frame size'' e), client)
      | (Inr sizeBuf, client) \<Rightarrow>
          let frameSize = sint (Uint32 sizeBuf) in
          if frameSize \<le> 0 then (Inl (Errorf ''invalid frame size''), client)
          else (case ReadFull (nat frameSize) client of
                  (Inl e, client) \<Rightarrow> (Inl (Wrap ''reading frame data'' e), client)
                | (Inr frameData, client) \<Rightarrow>
                    (case make_bytes (sint (4 + Uint32 sizeBuf)) of
                       Inl e \<Rightarrow> (Inl e, client)
                     | Inr _ \<Rightarrow> (Inr (PutUint32 (Uint32 sizeBuf) @ frameData), client))))"

text \<open>
  Steps 5 to 7: forward the frame, stream the response back, then copy both ways until one side
  ends. The result has the error, the client and the upstream connection as it is put back.
\<close>

definition exchangeFrame :: "nat \<Rightarrow> nat \<Rightarrow> byte list \<Rightarrow> conn \<Rightarrow> conn \<Rightarrow> error option \<times> conn \<times> conn" where
  "exchangeFrame n1 n2 fullFrame client up =
     (case conn_Write fullFrame up of
        (Some e, up) \<Rightarrow> (Some (Wrap ''forwarding request to upstream'' e), client, up)
      | (None, up) \<Rightarrow>
          (case ReadFull 4 up of
             (Inl e, up) \<Rightarrow> (Some (Wrap ''reading response size from upstream'' e), client, up)
           | (Inr respSizeBuf, up) \<Rightarrow>
               let respSize = sint (Uint32 respSizeBuf) in
               if respSize < 4 then (Some (Errorf ''invalid response size''), client, up)
               else (case conn_Write respSizeBuf client of
                       (Some e, client) \<Rightarrow> (Some (Wrap ''forwarding response size to client'' e), client, up)
                     | (None, client) \<Rightarrow>
                         (case io_CopyN (nat respSize) up client of
                            (Some e, up, client) \<Rightarrow> (Some (Wrap ''streaming response from upstream'' e), client, up)
                          | (None, up, client) \<Rightarrow>
                              (case passthrough n1 n2 client up of (client, up) \<Rightarrow> (None, client, up))))))"

datatype route_result = RouteOk | RouteErr error | RouteBlocked

text \<open>
  The handler. \<open>dial\<close> gives the outcome of dialling an address, \<open>n1\<close> and \<open>n2\<close> how much the final
  copying moves, \<open>t\<close> and \<open>t'\<close> the times of \<open>Get\<close> and of the deferred \<open>Put\<close>.
\<close>

definition Route :: "Time \<Rightarrow> Time \<Rightarrow> (string \<Rightarrow> error + conn) \<Rightarrow> nat \<Rightarrow> nat \<Rightarrow> string \<Rightarrow> ClusterConfig \<Rightarrow>
    conn \<Rightarrow> Router \<Rightarrow> topic_stats \<Rightarrow> route_result \<times> conn \<times> Router \<times> topic_stats" where
  "Route t t' dial n1 n2 clusterName cfg client r stats =
     (case readFrame client of
        (Inl e, client) \<Rightarrow> (RouteErr e, conn_Close client, r, stats)
      | (Inr fullFrame, client) \<Rightarrow>
          (case wrap_err ''parsing request header'' (ParseRequestHeader fullFrame) of
             Inl e \<Rightarrow> (RouteErr e, conn_Close client, r, stats)
           | Inr hdr \<Rightarrow>
               (case upstreamFor dial clusterName cfg hdr fullFrame r stats of
                  (Inl e, r, stats) \<Rightarrow> (RouteErr e, conn_Close client, r, stats)
                | (Inr upstreamAddr, r, stats) \<Rightarrow>
                    (case pool_Get t (dial upstreamAddr) upstreamAddr (rtPool r) of
                       (GetErr e, cp) \<Rightarrow> (RouteErr (Wrap ''connecting to upstream'' e), conn_Close client, r\<lparr>rtPool := cp\<rparr>, stats)
                     | (GetConn up, cp) \<Rightarrow>
                         (case exchangeFrame n1 n2 fullFrame client up of (res, client, up) \<Rightarrow>
                            ((case res of None \<Rightarrow> RouteOk | Some e \<Rightarrow> RouteErr e), conn_Close client,
                             r\<lparr>rtPool := snd (pool_Put t' upstreamAddr up cp)\<rparr>, stats))
                     | (_, cp) \<Rightarrow> (RouteBlocked, client, r\<lparr>rtPool := cp\<rparr>, stats)))))"

section \<open>Properties\<close>

text \<open>A Kafka string, and the tail of both request bodies from the topic array on.\<close>

definition enc_string :: "string \<Rightarrow> byte list" where
  "enc_string s = PutUint16 (word_of_nat (length s)) @ stob s"

definition enc_topics :: "int32 \<Rightarrow> string \<Rightarrow> int32 \<Rightarrow> int32 \<Rightarrow> byte list \<Rightarrow> byte list" where
  "enc_topics topics topic parts p r = PutUint32 topics @ enc_string topic @ PutUint32 parts @ PutUint32 p @ r"

lemma length_enc_string [simp]: "length (enc_string s) = 2 + length s"
  by (simp add: enc_string_def)

lemma firstTopicPartition_enc:
  assumes "topics \<noteq> 0" and "parts \<noteq> 0" and "length topic < 2 ^ 15" and "pos = length pre"
  shows "firstTopicPartition what (pre @ enc_topics topics topic parts p r) pos = Inr (topic, p)"
proof -
  let ?b = "pre @ enc_topics topics topic parts p r"
  have s: "readString ?b (pos + 4) = Inr (word_of_nat (length topic), topic, pos + 6 + length topic)"
    using readString_encoded [OF assms(3), of "pre @ PutUint32 topics" "PutUint32 parts @ PutUint32 p @ r"] assms(4)
    by (simp add: enc_topics_def enc_string_def)
  have d: "drop (pos + 6 + length topic) ?b = PutUint32 parts @ PutUint32 p @ r"
    "drop (pos + 6 + length topic + 4) ?b = PutUint32 p @ r" "drop pos ?b = PutUint32 topics @ enc_string topic @ PutUint32 parts @ PutUint32 p @ r"
    using assms(4) by (simp_all add: enc_topics_def)
  have l: "length ?b = pos + 14 + length topic + length r" using assms(4) by (simp add: enc_topics_def)
  show ?thesis unfolding firstTopicPartition_def l d(3) s using d assms(1,2) by simp
qed

text \<open>The parts before the topic array, per version.\<close>

definition produce_prefix :: "int16 \<Rightarrow> string option \<Rightarrow> int16 \<Rightarrow> int32 \<Rightarrow> byte list" where
  "produce_prefix v txn acks timeout =
     (if 3 \<le> sint v then (case txn of None \<Rightarrow> PutUint16 (- 1) | Some s \<Rightarrow> enc_string s) else [])
       @ PutUint16 acks @ PutUint32 timeout"

definition fetch_prefix_len :: "int16 \<Rightarrow> nat" where
  "fetch_prefix_len v = 12 + (if 3 \<le> sint v then 4 else 0) + (if 4 \<le> sint v then 1 else 0) + (if 7 \<le> sint v then 8 else 0)"

lemma parseProduceBody_enc:
  assumes "topics \<noteq> 0" and "parts \<noteq> 0" and "length topic < 2 ^ 15" and "\<forall>s. txn = Some s \<longrightarrow> length s < 2 ^ 15"
  shows "parseProduceBody (produce_prefix v txn acks timeout @ enc_topics topics topic parts p r) v
    = Inr \<lparr>rrAPIKey = APIKeyProduce, rrAPIVersion = 0, rrClientID = '''', rrTopicName = topic, rrPartitionID = p\<rparr>"
proof -
  let ?b = "produce_prefix v txn acks timeout @ enc_topics topics topic parts p r"
  let ?n = "length (produce_prefix v txn acks timeout)"
  have f: "firstTopicPartition ''produce'' ?b ?n = Inr (topic, p)" by (rule firstTopicPartition_enc [OF assms(1-3) refl])
  have m1: "sint (- 1 :: int16) = - 1" by simp
  show ?thesis
  proof (cases "3 \<le> sint v")
    case True
    have "sint (Uint16 ?b) = (case txn of None \<Rightarrow> - 1 | Some s \<Rightarrow> int (length s))"
      using True assms(4) by (auto simp: produce_prefix_def enc_string_def sint_int16_nonneg split: option.splits)
    then have "?n = 2 + (if 0 < sint (Uint16 ?b) then nat (sint (Uint16 ?b)) else 0) + 2 + 4"
      using True by (auto simp: produce_prefix_def split: option.splits)
    then show ?thesis using f True unfolding parseProduceBody_def by (simp add: Let_def)
  next
    case False
    then have "?n = 6" by (simp add: produce_prefix_def)
    then show ?thesis using f False unfolding parseProduceBody_def by (simp add: Let_def)
  qed
qed

lemma parseFetchBody_enc:
  assumes "topics \<noteq> 0" and "parts \<noteq> 0" and "length topic < 2 ^ 15" and "length pre = fetch_prefix_len v"
  shows "parseFetchBody (pre @ enc_topics topics topic parts p r) v
    = Inr \<lparr>rrAPIKey = APIKeyFetch, rrAPIVersion = 0, rrClientID = '''', rrTopicName = topic, rrPartitionID = p\<rparr>"
proof -
  have f: "firstTopicPartition ''fetch'' (pre @ enc_topics topics topic parts p r) (fetch_prefix_len v) = Inr (topic, p)"
    using assms by (intro firstTopicPartition_enc) simp_all
  then show ?thesis using assms(4) unfolding parseFetchBody_def fetch_prefix_len_def
    by (auto simp: Let_def split: if_splits)
qed














text \<open>What a router relies on, from the interface alone.\<close>

context leader_cache
begin

lemma routed_to_set_leader:
  "name_ok b \<Longrightarrow> name_ok (rrTopicName q) \<Longrightarrow>
   leaderOrBootstrap get refresh (setl s b (rrTopicName q) (rrPartitionID q) a) b q
     = (a, setl s b (rrTopicName q) (rrPartitionID q) a)"
  by (simp add: leaderOrBootstrap_def get_set)

lemma invalidated_to_bootstrap:
  "name_ok b \<Longrightarrow> leaderOrBootstrap get refresh (inval s b) b q = (b, refresh (inval s b) b)"
  by (simp add: leaderOrBootstrap_def get_invalidate)

end

lemma StickyHash_range: "0 \<le> StickyHash topic p \<and> StickyHash topic p < 100"
  by (simp add: StickyHash_def)

text \<open>The sub-cluster, its bootstrap and the cached leader decide where a routed request goes.\<close>

definition sticky_bootstrap :: "string \<Rightarrow> ClusterConfig \<Rightarrow> Router \<Rightarrow> string \<Rightarrow> int32 \<Rightarrow> string" where
  "sticky_bootstrap clusterName cfg r topic p =
     (case GetEffectiveWeights clusterName cfg r of (pw, sw) \<Rightarrow> snd (selectClusterByWeight cfg pw sw topic p))"

text \<open>The broker it goes to: the cached leader in that sub-cluster, or the sub-cluster's bootstrap.\<close>

definition sticky_addr :: "string \<Rightarrow> ClusterConfig \<Rightarrow> Router \<Rightarrow> string \<Rightarrow> int32 \<Rightarrow> string" where
  "sticky_addr clusterName cfg r topic p =
     (let b = sticky_bootstrap clusterName cfg r topic p in
      case GetLeader (rtCache r) b topic p of Some a \<Rightarrow> a | None \<Rightarrow> b)"

lemma sticky_bootstrap_cache [simp]: "sticky_bootstrap clusterName cfg (r\<lparr>rtCache := c\<rparr>) topic p = sticky_bootstrap clusterName cfg r topic p"
  by (simp add: sticky_bootstrap_def GetEffectiveWeights_def)

lemma upstreamFor_sticky:
  fixes r :: Router and clusterName :: string
  assumes "Mode cfg = ModeLoadBalance" and "rhAPIKey h = APIKeyProduce \<or> rhAPIKey h = APIKeyFetch"
    and "ParseRequestBody (rhAPIKey h) (rhAPIVersion h) (drop (14 + length (rhClientID h)) frame) = Inr q"
  defines "b \<equiv> sticky_bootstrap clusterName cfg r (rrTopicName q) (rrPartitionID q)"
  shows "\<exists>stats'. upstreamFor dial clusterName cfg h frame r stats = (Inr (sticky_addr clusterName cfg r (rrTopicName q) (rrPartitionID q)),
      (case GetLeader (rtCache r) b (rrTopicName q) (rrPartitionID q) of
         Some a \<Rightarrow> r | None \<Rightarrow> r\<lparr>rtCache := fst (snd (Refresh (rtCache r) b (dial b)))\<rparr>), stats')"
proof -
  obtain pw sw where w: "GetEffectiveWeights clusterName cfg r = (pw, sw)" by fastforce
  obtain sub b' where b': "selectClusterByWeight cfg pw sw (rrTopicName q) (rrPartitionID q) = (sub, b')" by fastforce
  have b: "b = b'" using w b' by (simp add: b_def sticky_bootstrap_def)
  let ?q = "q\<lparr>rrClientID := rhClientID h\<rparr>"
  have "router_leader dial b ?q r = (sticky_addr clusterName cfg r (rrTopicName q) (rrPartitionID q),
      (case GetLeader (rtCache r) b (rrTopicName q) (rrPartitionID q) of
         Some a \<Rightarrow> r | None \<Rightarrow> r\<lparr>rtCache := fst (snd (Refresh (rtCache r) b (dial b)))\<rparr>))"
    unfolding router_leader_def leaderOrBootstrap_def sticky_addr_def b_def [symmetric]
    by (simp add: RefreshMetadata_def Let_def split: option.split)
  then have "upstreamFor dial clusterName cfg h frame r stats = (Inr (sticky_addr clusterName cfg r (rrTopicName q) (rrPartitionID q)),
      (case GetLeader (rtCache r) b (rrTopicName q) (rrPartitionID q) of
         Some a \<Rightarrow> r | None \<Rightarrow> r\<lparr>rtCache := fst (snd (Refresh (rtCache r) b (dial b)))\<rparr>),
      if rhAPIKey h = APIKeyProduce then RecordTopicProduce (rrTopicName q) stats else RecordTopicFetch (rrTopicName q) stats)"
    using assms(1,2) w b' unfolding upstreamFor_def assms(3) by (simp add: Let_def b)
  then show ?thesis by blast
qed

text \<open>
  C13. Load-balanced routing is sticky per partition. Two Produce or Fetch requests for the same
  topic and partition, from any clients and in any versions, one after the other under the same
  weights, go to the same sub-cluster. If the partition's leader in it is cached, both go to this one
  broker. If it is not, the first goes to the sub-cluster's bootstrap and refreshes its leaders
  once; the second goes to the leader this refresh brought, or to the same bootstrap when the refresh failed or
  brought none. A full or empty primary weight sends every partition to the primary or the
  secondary. When the primary's weight grows, partitions only move from the secondary to the primary,
  never the other way.
\<close>
theorem sticky_routing:
  fixes r :: Router and h1 h2 :: RequestHeader and q1 q2 :: RoutedRequest and clusterName :: string
  assumes "Mode cfg = ModeLoadBalance"
    and "rhAPIKey h1 = APIKeyProduce \<or> rhAPIKey h1 = APIKeyFetch" and "rhAPIKey h2 = APIKeyProduce \<or> rhAPIKey h2 = APIKeyFetch"
    and "ParseRequestBody (rhAPIKey h1) (rhAPIVersion h1) (drop (14 + length (rhClientID h1)) frame1) = Inr q1"
    and "ParseRequestBody (rhAPIKey h2) (rhAPIVersion h2) (drop (14 + length (rhClientID h2)) frame2) = Inr q2"
    and "rrTopicName q1 = rrTopicName q2" and "rrPartitionID q1 = rrPartitionID q2"
  defines "b \<equiv> sticky_bootstrap clusterName cfg r (rrTopicName q1) (rrPartitionID q1)"
  shows "(\<exists>a1 r1 s1 a2 r2 s2. upstreamFor dial1 clusterName cfg h1 frame1 r stats = (Inr a1, r1, s1)
        \<and> upstreamFor dial2 clusterName cfg h2 frame2 r1 s1 = (Inr a2, r2, s2)
        \<and> sticky_bootstrap clusterName cfg r1 (rrTopicName q2) (rrPartitionID q2) = b
        \<and> (case GetLeader (rtCache r) b (rrTopicName q1) (rrPartitionID q1) of
             Some a \<Rightarrow> a1 = a \<and> a2 = a \<and> r1 = r \<and> r2 = r
           | None \<Rightarrow> a1 = b
               \<and> (case Refresh (rtCache r) b (dial1 b) of
                    (Some e, _) \<Rightarrow> r1 = r \<and> a2 = b
                  | (None, c, _) \<Rightarrow> r1 = r\<lparr>rtCache := c\<rparr>
                      \<and> a2 = (case GetLeader c b (rrTopicName q1) (rrPartitionID q1) of Some a \<Rightarrow> a | None \<Rightarrow> b))))
    \<and> (\<forall>w w' t p. (100 \<le> w \<longrightarrow> selectClusterByWeight cfg w w' t p = (''primary'', Bootstrap (Primary cfg)))
        \<and> (w \<le> 0 \<longrightarrow> selectClusterByWeight cfg w w' t p = (''secondary'', Bootstrap (Secondary cfg))))
    \<and> (\<forall>w1 w2 w1' w2' t p. w1 \<le> w2 \<and> fst (selectClusterByWeight cfg w1 w1' t p) = ''primary''
        \<longrightarrow> selectClusterByWeight cfg w2 w2' t p = selectClusterByWeight cfg w1 w1' t p)"
proof -
  let ?t = "rrTopicName q1" and ?p = "rrPartitionID q1" and ?c' = "fst (snd (Refresh (rtCache r) b (dial1 b)))"
  let ?r1 = "case GetLeader (rtCache r) b ?t ?p of Some a \<Rightarrow> r | None \<Rightarrow> r\<lparr>rtCache := ?c'\<rparr>"
  obtain s1 where 1: "upstreamFor dial1 clusterName cfg h1 frame1 r stats = (Inr (sticky_addr clusterName cfg r ?t ?p), ?r1, s1)"
    using upstreamFor_sticky [OF assms(1,2,4), of dial1 clusterName r stats] unfolding b_def by blast
  have b1: "sticky_bootstrap clusterName cfg ?r1 ?t ?p = b" by (simp add: b_def split: option.split)
  let ?r2 = "case GetLeader (rtCache ?r1) b ?t ?p of Some a \<Rightarrow> ?r1 | None \<Rightarrow> ?r1\<lparr>rtCache := fst (snd (Refresh (rtCache ?r1) b (dial2 b)))\<rparr>"
  obtain s2 where 2: "upstreamFor dial2 clusterName cfg h2 frame2 ?r1 s1 = (Inr (sticky_addr clusterName cfg ?r1 ?t ?p), ?r2, s2)"
    using upstreamFor_sticky [OF assms(1,3,5), of dial2 clusterName ?r1 s1] b1 unfolding assms(6) [symmetric] assms(7) [symmetric] by metis
  have "case GetLeader (rtCache r) b ?t ?p of
             Some a \<Rightarrow> sticky_addr clusterName cfg r ?t ?p = a \<and> sticky_addr clusterName cfg ?r1 ?t ?p = a \<and> ?r1 = r \<and> ?r2 = r
           | None \<Rightarrow> sticky_addr clusterName cfg r ?t ?p = b
               \<and> (case Refresh (rtCache r) b (dial1 b) of
                    (Some e, _) \<Rightarrow> ?r1 = r \<and> sticky_addr clusterName cfg ?r1 ?t ?p = b
                  | (None, c, _) \<Rightarrow> ?r1 = r\<lparr>rtCache := c\<rparr>
                      \<and> sticky_addr clusterName cfg ?r1 ?t ?p = (case GetLeader c b ?t ?p of Some a \<Rightarrow> a | None \<Rightarrow> b))"
    unfolding sticky_addr_def b1 b_def [symmetric] Let_def
    by (auto simp: Refresh_def split: option.splits prod.splits sum.splits)
  then have "\<exists>a1 r1 s1 a2 r2 s2. upstreamFor dial1 clusterName cfg h1 frame1 r stats = (Inr a1, r1, s1)
        \<and> upstreamFor dial2 clusterName cfg h2 frame2 r1 s1 = (Inr a2, r2, s2)
        \<and> sticky_bootstrap clusterName cfg r1 (rrTopicName q2) (rrPartitionID q2) = b
        \<and> (case GetLeader (rtCache r) b ?t ?p of
             Some a \<Rightarrow> a1 = a \<and> a2 = a \<and> r1 = r \<and> r2 = r
           | None \<Rightarrow> a1 = b
               \<and> (case Refresh (rtCache r) b (dial1 b) of
                    (Some e, _) \<Rightarrow> r1 = r \<and> a2 = b
                  | (None, c, _) \<Rightarrow> r1 = r\<lparr>rtCache := c\<rparr>
                      \<and> a2 = (case GetLeader c b ?t ?p of Some a \<Rightarrow> a | None \<Rightarrow> b)))"
    using 1 2 b1 unfolding assms(6,7)
    by (intro exI [of _ "sticky_addr clusterName cfg r ?t ?p"] exI [of _ ?r1] exI [of _ s1]
        exI [of _ "sticky_addr clusterName cfg ?r1 ?t ?p"] exI [of _ ?r2] exI [of _ s2] conjI)
      (simp_all only: assms(6,7))
  moreover have "100 \<le> w \<Longrightarrow> StickyHash t p < w" "w \<le> 0 \<Longrightarrow> \<not> StickyHash t p < w" for w t p
    using StickyHash_range [of t p] by linarith+
  ultimately show ?thesis by (intro conjI) (assumption | auto simp: selectClusterByWeight_def Let_def split: if_splits)+
qed

abbreviation demo_hdr :: "int16 \<Rightarrow> RequestHeader" where
  "demo_hdr k \<equiv> \<lparr>rhSize = 0, rhAPIKey = k, rhAPIVersion = 0, rhCorrelationID = 1, rhClientID = ''''\<rparr>"

abbreviation demo_produce :: "byte list" where
  "demo_produce \<equiv> produce_prefix 0 None 1 30000 @ enc_topics 1 ''t'' 1 0 []"

abbreviation demo_fetch :: "byte list" where
  "demo_fetch \<equiv> replicate 12 0 @ enc_topics 1 ''t'' 1 0 []"

lemma demo_bodies:
  "ParseRequestBody 0 0 demo_produce
     = Inr \<lparr>rrAPIKey = 0, rrAPIVersion = 0, rrClientID = '''', rrTopicName = ''t'', rrPartitionID = 0\<rparr>"
  "ParseRequestBody 1 0 demo_fetch
     = Inr \<lparr>rrAPIKey = 1, rrAPIVersion = 0, rrClientID = '''', rrTopicName = ''t'', rrPartitionID = 0\<rparr>"
proof -
  show "ParseRequestBody 0 0 demo_produce
     = Inr \<lparr>rrAPIKey = 0, rrAPIVersion = 0, rrClientID = '''', rrTopicName = ''t'', rrPartitionID = 0\<rparr>"
    using parseProduceBody_enc [of 1 1 "''t''" None 0 1 30000 0 "[]"] by (simp add: ParseRequestBody_def)
  show "ParseRequestBody 1 0 demo_fetch
     = Inr \<lparr>rrAPIKey = 1, rrAPIVersion = 0, rrClientID = '''', rrTopicName = ''t'', rrPartitionID = 0\<rparr>"
    using parseFetchBody_enc [of 1 1 "''t''" "replicate 12 0" 0 0 "[]"] by (simp add: ParseRequestBody_def fetch_prefix_len_def)
qed

definition demo_router :: Router where
  "demo_router = \<lparr>rtCfg = \<lparr>Proxy = \<lparr>BindAddress = '''', AdvertiseHost = '''', ConnectionPool = one_conn_cfg, MetricsPort = 0\<rparr>,
       Clusters = []\<rparr>, rtCache = SetLeader NewPartitionLeaderCache ''k1:9092'' ''t'' 0 ''b1:9092'',
     rtPool = pool_New one_conn_cfg, rtWeights = [''logistics'' \<mapsto> \<lparr>cwPrimary = 100, cwSecondary = 0\<rparr>]\<rparr>"

text \<open>A cached leader, and an empty cache whose refresh cannot dial.\<close>

theorem sticky_routing_witness:
  "(\<exists>s1 s2. upstreamFor (\<lambda>_. Inl ErrEOF) ''logistics'' sample_logistics (demo_hdr 0) (replicate 14 0 @ demo_produce) demo_router Map.empty
       = (Inr ''b1:9092'', demo_router, s1)
     \<and> upstreamFor (\<lambda>_. Inl ErrEOF) ''logistics'' sample_logistics (demo_hdr 1) (replicate 14 0 @ demo_fetch) demo_router s1
       = (Inr ''b1:9092'', demo_router, s2))
   \<and> (let r = demo_router\<lparr>rtCache := NewPartitionLeaderCache\<rparr> in
      \<exists>s1 r2 s2. upstreamFor (\<lambda>_. Inl ErrEOF) ''logistics'' sample_logistics (demo_hdr 0) (replicate 14 0 @ demo_produce) r Map.empty
       = (Inr ''k1:9092'', r, s1)
     \<and> upstreamFor (\<lambda>_. Inl ErrEOF) ''logistics'' sample_logistics (demo_hdr 1) (replicate 14 0 @ demo_fetch) r s1
       = (Inr ''k1:9092'', r2, s2))"
proof -
  let ?q = "\<lambda>k. \<lparr>rrAPIKey = k, rrAPIVersion = 0, rrClientID = '''', rrTopicName = ''t'', rrPartitionID = 0\<rparr>"
  let ?d = "\<lambda>_. Inl ErrEOF" and ?r = "demo_router\<lparr>rtCache := NewPartitionLeaderCache\<rparr>"
  note both = sticky_routing [of sample_logistics "demo_hdr 0" "demo_hdr 1" "replicate 14 0 @ demo_produce" "?q 0"
        "replicate 14 0 @ demo_fetch" "?q 1" ?d "''logistics''" _ Map.empty ?d, THEN conjunct1]
  have m: "Mode sample_logistics = ModeLoadBalance" by (simp add: sample_logistics_def ModeLoadBalance_def)
  have "selectClusterByWeight sample_logistics 100 0 ''t'' 0 = (''primary'', ''k1:9092'')"
    using StickyHash_range [of "''t''" 0] by (simp add: selectClusterByWeight_def sample_logistics_def)
  then have b: "sticky_bootstrap ''logistics'' sample_logistics demo_router ''t'' 0 = ''k1:9092''"
    by (simp add: sticky_bootstrap_def demo_router_def GetEffectiveWeights_def)
  have g: "GetLeader (rtCache demo_router) ''k1:9092'' ''t'' 0 = Some ''b1:9092''" "GetLeader (rtCache ?r) ''k1:9092'' ''t'' 0 = None"
    by (simp_all add: demo_router_def GetLeader_def SetLeader_def NewPartitionLeaderCache_def)
  have f: "Refresh (rtCache ?r) ''k1:9092'' (Inl ErrEOF) = (Some (Wrap ''refresh'' (Wrap ''dial'' ErrEOF)), rtCache ?r, None)"
    by (simp add: Refresh_def fetchMetadata_def)
  show ?thesis unfolding Let_def
    using both [of demo_router] both [of ?r] demo_bodies m b g f by simp
qed

section \<open>One routed request on the wire\<close>

lemma take_take_drop: "take m xs @ take n (drop m xs) @ drop (m + n) xs = xs"
  by (metis append.assoc append_take_drop_id take_add)

lemma readFrame_Inr:
  assumes "readFrame c = (Inr f, c')"
  shows "cin c = f @ cin c' \<and> cout c' = cout c \<and> cwok c' = cwok c \<and> 4 < length f"
proof -
  let ?n = "nat (sint (Uint32 (take 4 (cin c))))"
  have a: "4 \<le> length (cin c)" "0 < ?n" "?n \<le> length (drop 4 (cin c))" "f = take 4 (cin c) @ take ?n (drop 4 (cin c))"
    "c' = c\<lparr>cin := drop (4 + ?n) (cin c)\<rparr>"
    using assms by (auto simp: readFrame_def ReadFull_def Let_def add.commute split: if_splits sum.splits)
  show ?thesis unfolding a(4,5) using a(1-3) take_take_drop [of 4 "cin c" ?n] by simp
qed

text \<open>A successful exchange, step by step.\<close>

lemma exchangeFrame_steps:
  assumes "exchangeFrame n1 n2 f c u = (None, c', u')"
  obtains u1 s u2 c1 u3 c2 where "conn_Write f u = (None, u1)" and "ReadFull 4 u1 = (Inr s, u2)" and "4 \<le> sint (Uint32 s)"
    and "conn_Write s c = (None, c1)" and "io_CopyN (nat (sint (Uint32 s))) u2 c1 = (None, u3, c2)"
    and "passthrough n1 n2 c2 u3 = (c', u')"
proof -
  obtain u1 where w: "conn_Write f u = (None, u1)"
    using assms by (auto simp: exchangeFrame_def split: prod.splits option.splits)
  obtain s u2 where r: "ReadFull 4 u1 = (Inr s, u2)"
    using assms unfolding exchangeFrame_def w by (auto split: prod.splits sum.splits)
  have z: "4 \<le> sint (Uint32 s)" using assms unfolding exchangeFrame_def w by (auto simp: r Let_def split: if_splits)
  then have e: "(case conn_Write s c of (Some e, client) \<Rightarrow> (Some (Wrap ''forwarding response size to client'' e), client, u2)
      | (None, client) \<Rightarrow> (case io_CopyN (nat (sint (Uint32 s))) u2 client of
           (Some e, up, client) \<Rightarrow> (Some (Wrap ''streaming response from upstream'' e), client, up)
         | (None, up, client) \<Rightarrow> (case passthrough n1 n2 client up of (client, up) \<Rightarrow> (None, client, up)))) = (None, c', u')"
    using assms unfolding exchangeFrame_def w by (simp add: r Let_def)
  obtain c1 where c1: "conn_Write s c = (None, c1)" using e by (auto split: prod.splits option.splits)
  obtain u3 c2 where cp: "io_CopyN (nat (sint (Uint32 s))) u2 c1 = (None, u3, c2)"
    using e unfolding c1 by (auto split: prod.splits option.splits)
  have "passthrough n1 n2 c2 u3 = (c', u')" using e by (auto simp: c1 cp split: prod.splits)
  then show thesis using that w r z c1 cp by blast
qed

lemma io_CopyN_None:
  "io_CopyN n src dst = (None, src', dst') \<Longrightarrow> n \<le> length (cin src) \<and> n \<le> cwok dst
     \<and> src' = src\<lparr>cin := drop n (cin src)\<rparr> \<and> dst' = dst\<lparr>cout := cout dst @ take n (cin src), cwok := cwok dst - n\<rparr>"
  by (auto simp: io_CopyN_def Let_def min_def split: if_splits)

lemma passthrough_out:
  assumes "passthrough n1 n2 c u = (c', u')"
  shows "\<exists>i j. cout u' = cout u @ take i (cin c) \<and> cout c' = cout c @ take j (cin u) \<and> cin u' = [] \<and> cwok u' = 0"
proof -
  let ?i = "min (min n1 (length (cin c))) (cwok u)" and ?j = "min (min n2 (length (cin u))) (cwok c)"
  have "cout u' = cout u @ take ?i (cin c) \<and> cout c' = cout c @ take ?j (cin u) \<and> cin u' = [] \<and> cwok u' = 0"
    using assms by (auto simp: passthrough_def io_CopyN_def conn_Close_def Let_def min.commute)
  then show ?thesis by blast
qed

lemma exchangeFrame_None:
  assumes "exchangeFrame n1 n2 f c u = (None, c', u')"
  shows "\<exists>resp w i j. cin u = resp @ w \<and> int (length resp) = 4 + sint (Uint32 resp)
    \<and> cout u' = cout u @ f @ take i (cin c) \<and> cout c' = cout c @ resp @ take j w \<and> cwok u' = 0 \<and> cin u' = []"
proof -
  obtain u1 s u2 c1 u3 c2 where st: "conn_Write f u = (None, u1)" "ReadFull 4 u1 = (Inr s, u2)" "4 \<le> sint (Uint32 s)"
    "conn_Write s c = (None, c1)" "io_CopyN (nat (sint (Uint32 s))) u2 c1 = (None, u3, c2)" "passthrough n1 n2 c2 u3 = (c', u')"
    using exchangeFrame_steps [OF assms] by metis
  let ?n = "nat (sint (Uint32 s))"
  let ?b = "take ?n (cin u2)"
  note cp = io_CopyN_None [OF st(5)]
  have ls: "length s = 4" and u: "cin u = s @ cin u2" using st(1,2) by (auto simp: conn_io)
  then have "cin u = (s @ ?b) @ drop ?n (cin u2)" by simp
  moreover have "int (length (s @ ?b)) = 4 + sint (Uint32 (s @ ?b))"
    using ls cp st(3) by (simp add: Uint32_append)
  moreover obtain i j where "cout u' = cout u3 @ take i (cin c2)" "cout c' = cout c2 @ take j (cin u3)" "cin u' = []" "cwok u' = 0"
    using passthrough_out [OF st(6)] by blast
  moreover have "cout u3 = cout u @ f" "cin c2 = cin c" "cout c2 = cout c @ s @ ?b" "cin u3 = drop ?n (cin u2)"
    using st(1,2,4) cp by (auto simp: conn_io)
  ultimately show ?thesis by (intro exI [of _ "s @ ?b"] exI [of _ "drop ?n (cin u2)"] exI [of _ i] exI [of _ j]) simp
qed

lemma Route_ok_cases:
  assumes "Route t t' dial n1 n2 name cfg client r stats = (RouteOk, client', r', stats')"
  obtains frame k hdr addr r1 up cp c2 up' where "readFrame client = (Inr frame, k)" and "ParseRequestHeader frame = Inr hdr"
    and "upstreamFor dial name cfg hdr frame r stats = (Inr addr, r1, stats')"
    and "pool_Get t (dial addr) addr (rtPool r1) = (GetConn up, cp)"
    and "exchangeFrame n1 n2 frame k up = (None, c2, up')" and "client' = conn_Close c2"
    and "r' = r1\<lparr>rtPool := snd (pool_Put t' addr up' cp)\<rparr>"
proof -
  obtain frame k where f: "readFrame client = (Inr frame, k)"
    using assms by (auto simp: Route_def split: prod.splits sum.splits)
  obtain hdr where h: "ParseRequestHeader frame = Inr hdr"
    using assms unfolding Route_def f by (auto split: sum.splits)
  obtain addr r1 s1 where u: "upstreamFor dial name cfg hdr frame r stats = (Inr addr, r1, s1)"
    using assms unfolding Route_def f by (auto simp: h split: prod.splits sum.splits)
  obtain up cp where g: "pool_Get t (dial addr) addr (rtPool r1) = (GetConn up, cp)"
    using assms unfolding Route_def f by (auto simp: h u split: prod.splits get_result.splits)
  obtain res c2 up' where x: "exchangeFrame n1 n2 frame k up = (res, c2, up')" by (metis prod_cases3)
  have "res = None" "s1 = stats'" "client' = conn_Close c2" "r' = r1\<lparr>rtPool := snd (pool_Put t' addr up' cp)\<rparr>"
    using assms unfolding Route_def f by (auto simp: h u g x split: option.splits)
  then show thesis using that f h u g x by blast
qed

text \<open>
  C11. A routed request is passed through unchanged. When \<open>Route\<close> succeeds, the client's input was
  one complete frame that parses and whatever followed; the connection the pool gave for the
  chosen address was sent exactly that frame and then a prefix of what followed, and the client
  was sent exactly the upstream's first complete response and then a prefix of what the upstream
  sent after it. The connection that goes back to the pool is a closed one.
\<close>
theorem route_transparent:
  assumes "Route t t' dial n1 n2 name cfg client r stats = (RouteOk, client', r', stats')"
  shows "\<exists>frame w hdr addr r1 up cp up' resp x i j.
      cin client = frame @ w \<and> ParseRequestHeader frame = Inr hdr
    \<and> upstreamFor dial name cfg hdr frame r stats = (Inr addr, r1, stats')
    \<and> pool_Get t (dial addr) addr (rtPool r1) = (GetConn up, cp)
    \<and> cin up = resp @ x \<and> int (length resp) = 4 + sint (Uint32 resp)
    \<and> cout up' = cout up @ frame @ take i w \<and> cout client' = cout client @ resp @ take j x
    \<and> r' = r1\<lparr>rtPool := snd (pool_Put t' addr up' cp)\<rparr> \<and> cin up' = [] \<and> cwok up' = 0"
proof -
  obtain frame k hdr addr r1 up cp c2 up' where s: "readFrame client = (Inr frame, k)" "ParseRequestHeader frame = Inr hdr"
    "upstreamFor dial name cfg hdr frame r stats = (Inr addr, r1, stats')"
    "pool_Get t (dial addr) addr (rtPool r1) = (GetConn up, cp)" "exchangeFrame n1 n2 frame k up = (None, c2, up')"
    "client' = conn_Close c2" "r' = r1\<lparr>rtPool := snd (pool_Put t' addr up' cp)\<rparr>"
    using Route_ok_cases [OF assms] by metis
  obtain resp x i j where "cin up = resp @ x" "int (length resp) = 4 + sint (Uint32 resp)"
    "cout up' = cout up @ frame @ take i (cin k)" "cout c2 = cout k @ resp @ take j x" "cwok up' = 0" "cin up' = []"
    using exchangeFrame_None [OF s(5)] by metis
  moreover have "cin client = frame @ cin k" "cout k = cout client" using readFrame_Inr [OF s(1)] by auto
  moreover have "cout client' = cout c2" using s(6) by (simp add: conn_Close_def)
  ultimately show ?thesis using s by metis
qed

abbreviation demo_frame :: "byte list" where
  "demo_frame \<equiv> [0,0,0,10, 0,18, 0,0, 0,0,0,1, 255,255]"

abbreviation demo_client :: conn where
  "demo_client \<equiv> \<lparr>cin = demo_frame, cout = [], cwok = 99\<rparr>"

abbreviation demo_dial :: "string \<Rightarrow> error + conn" where
  "demo_dial \<equiv> \<lambda>_. Inr \<lparr>cin = [0,0,0,4, 0,0,0,1], cout = [], cwok = 99\<rparr>"

abbreviation demo_route :: "route_result \<times> conn \<times> Router \<times> topic_stats" where
  "demo_route \<equiv> Route 5 6 demo_dial 0 0 ''logistics'' sample_logistics demo_client demo_router Map.empty"

definition demo_header :: RequestHeader where
  "demo_header = \<lparr>rhSize = 10, rhAPIKey = 18, rhAPIVersion = 0, rhCorrelationID = 1, rhClientID = ''''\<rparr>"

lemma demo_read: "readFrame demo_client = (Inr demo_frame, \<lparr>cin = [], cout = [], cwok = 99\<rparr>)" by code_simp

lemma demo_parse: "ParseRequestHeader demo_frame = Inr demo_header"
  by (simp add: ParseRequestHeader_def slice_def Uint32_def Uint16_def be_nat_def fixedHeaderLen_def demo_header_def Let_def)

lemma demo_upstream: "upstreamFor dial name sample_logistics demo_header frame r stats = (Inr ''k1:9092'', r, stats)"
  by (simp add: upstreamFor_def demo_header_def resolveClusterBootstrap_def sample_logistics_def mode_defs)

lemma demo_route_ok:
  "\<exists>client' r'. demo_route = (RouteOk, client', r', Map.empty)"
proof -
  have x: "exchangeFrame 0 0 demo_frame \<lparr>cin = [], cout = [], cwok = 99\<rparr> \<lparr>cin = [0,0,0,4, 0,0,0,1], cout = [], cwok = 99\<rparr>
    = (None, \<lparr>cin = [], cout = [0,0,0,4, 0,0,0,1], cwok = 0\<rparr>, \<lparr>cin = [], cout = demo_frame, cwok = 0\<rparr>)" by code_simp
  obtain cp where g: "pool_Get 5 (Inr \<lparr>cin = [0,0,0,4, 0,0,0,1], cout = [], cwok = 99\<rparr>) ''k1:9092'' (rtPool demo_router)
      = (GetConn \<lparr>cin = [0,0,0,4, 0,0,0,1], cout = [], cwok = 99\<rparr>, cp)"
    by (simp add: demo_router_def pool_New_def pool_Get_def getOrCreatePool_def run_get_def Let_def)
  show ?thesis unfolding Route_def demo_read by (simp add: demo_parse demo_upstream g x)
qed

theorem route_transparent_witness:
  "\<exists>client' r' frame w. demo_route = (RouteOk, client', r', Map.empty) \<and> cin demo_client = frame @ w
     \<and> (\<exists>hdr. ParseRequestHeader frame = Inr hdr)"
proof -
  obtain client' r' where R: "demo_route = (RouteOk, client', r', Map.empty)" using demo_route_ok by (elim exE)
  obtain frame w hdr where "cin demo_client = frame @ w" "ParseRequestHeader frame = Inr hdr"
    using route_transparent [OF R] by (elim exE conjE) (rule that)
  then have "cin demo_client = frame @ w \<and> (\<exists>hdr. ParseRequestHeader frame = Inr hdr)" by (intro conjI exI)
  then show ?thesis using R by (intro exI [of _ client'] exI [of _ r'] exI [of _ frame] exI [of _ w]) (rule conjI)
qed

section \<open>What a finished request leaves in the pool\<close>

lemma router_leader_pool: "rtPool (snd (router_leader dial b q r)) = rtPool r"
  by (simp add: router_leader_def split: prod.splits)

lemma upstreamFor_pool: "upstreamFor dial name cfg h frame r stats = (res, r1, s1) \<Longrightarrow> rtPool r1 = rtPool r"
  using router_leader_pool
  by (auto simp: upstreamFor_def Let_def split: if_splits sum.splits prod.splits) (metis snd_conv)+

lemma getOrCreatePool_idle:
  assumes "\<And>bp. cpPools cp addr = Some bp \<Longrightarrow> bpIdle bp = []" and "getOrCreatePool addr cp = (bp, cp')"
  shows "bpIdle bp = [] \<and> cpCfg cp' = cpCfg cp"
  using assms by (auto simp: getOrCreatePool_def Let_def split: option.splits)

lemma get_no_idle:
  assumes "pool_Get t d addr cp0 = (GetConn up, cp)" and "\<And>bp. cpPools cp0 addr = Some bp \<Longrightarrow> bpIdle bp = []"
  shows "\<exists>bp. cpPools cp addr = Some bp \<and> bpIdle bp = [] \<and> 0 < bpMaxSize bp \<and> cpCfg cp = cpCfg cp0"
proof -
  obtain bp cp1 where g: "getOrCreatePool addr cp0 = (bp, cp1)" by fastforce
  have "bpIdle bp = []" "cpCfg cp1 = cpCfg cp0" using getOrCreatePool_idle [OF assms(2) g] by auto
  then show ?thesis using assms(1) g by (auto simp: pool_Get_def run_get_def split: if_splits sum.splits)
qed

text \<open>The address a request is routed to, if it gets that far.\<close>

definition route_target :: "(string \<Rightarrow> error + conn) \<Rightarrow> string \<Rightarrow> ClusterConfig \<Rightarrow> conn \<Rightarrow> Router \<Rightarrow> topic_stats \<Rightarrow> string option" where
  "route_target dial name cfg client r stats =
     (case readFrame client of
        (Inr frame, _) \<Rightarrow>
          (case ParseRequestHeader frame of
             Inr hdr \<Rightarrow> (case fst (upstreamFor dial name cfg hdr frame r stats) of Inr addr \<Rightarrow> Some addr | Inl _ \<Rightarrow> None)
           | Inl _ \<Rightarrow> None)
      | (Inl _, _) \<Rightarrow> None)"

lemma route_target_Some:
  assumes "route_target dial name cfg client r stats = Some addr"
  obtains frame k hdr r1 s1 where "readFrame client = (Inr frame, k)" and "ParseRequestHeader frame = Inr hdr"
    and "upstreamFor dial name cfg hdr frame r stats = (Inr addr, r1, s1)"
proof -
  obtain frame k where f: "readFrame client = (Inr frame, k)"
    using assms by (auto simp: route_target_def split: prod.splits sum.splits)
  obtain hdr where h: "ParseRequestHeader frame = Inr hdr"
    using assms by (auto simp: route_target_def f split: sum.splits)
  obtain res r1 s1 where u: "upstreamFor dial name cfg hdr frame r stats = (res, r1, s1)" by (metis prod_cases3)
  then have "res = Inr addr" using assms by (auto simp: route_target_def f h split: sum.splits)
  then show thesis using that f h u by blast
qed

text \<open>A request touches the pool of no other address.\<close>

definition pool_frame :: "string option \<Rightarrow> connectionPool \<Rightarrow> connectionPool \<Rightarrow> bool" where
  "pool_frame target cp cp' \<longleftrightarrow> cpCfg cp' = cpCfg cp \<and> (\<forall>b. target \<noteq> Some b \<longrightarrow> cpPools cp' b = cpPools cp b)"

lemma pool_Get_frame: "pool_Get t d addr cp = (g, cp') \<Longrightarrow> pool_frame (Some addr) cp cp'"
  by (auto simp: pool_frame_def pool_Get_def getOrCreatePool_def run_get_def Let_def split: option.splits prod.splits)

lemma pool_Put_frame: "pool_frame (Some addr) cp (snd (pool_Put t addr c cp))"
  by (simp add: pool_frame_def pool_Put_def split: option.splits)

lemma pool_frame_trans: "pool_frame a cp cp1 \<Longrightarrow> pool_frame a cp1 cp2 \<Longrightarrow> pool_frame a cp cp2"
  by (simp add: pool_frame_def)

lemma Route_frame:
  assumes "Route t t' dial n1 n2 name cfg client r stats = (res, client', r', stats')"
  shows "pool_frame (route_target dial name cfg client r stats) (rtPool r) (rtPool r')"
proof (cases "route_target dial name cfg client r stats")
  case None
  obtain fr k where f: "readFrame client = (fr, k)" by fastforce
  show ?thesis
  proof (cases fr)
    case (Inl e)
    then show ?thesis using assms by (simp add: Route_def f pool_frame_def)
  next
    case (Inr frame)
    show ?thesis
    proof (cases "ParseRequestHeader frame")
      case (Inl e)
      then show ?thesis using assms \<open>fr = Inr frame\<close> by (auto simp: Route_def f pool_frame_def)
    next
      case (Inr hdr)
      obtain x r1 s1 where u: "upstreamFor dial name cfg hdr frame r stats = (x, r1, s1)" by (metis prod_cases3)
      have "\<exists>e. x = Inl e" using None by (auto simp: route_target_def f \<open>fr = Inr frame\<close> Inr u split: sum.splits)
      then show ?thesis using assms upstreamFor_pool [OF u] by (auto simp: Route_def f \<open>fr = Inr frame\<close> Inr u pool_frame_def)
    qed
  qed
next
  case (Some addr)
  from route_target_Some [OF this] obtain frame k hdr r1 s1 where f: "readFrame client = (Inr frame, k)"
    and h: "ParseRequestHeader frame = Inr hdr" and u: "upstreamFor dial name cfg hdr frame r stats = (Inr addr, r1, s1)" by metis
  obtain g cp where g: "pool_Get t (dial addr) addr (rtPool r1) = (g, cp)" by fastforce
  have fr: "pool_frame (Some addr) (rtPool r) cp" using pool_Get_frame [OF g] upstreamFor_pool [OF u] by simp
  have "rtPool r' = cp \<or> (\<exists>up. rtPool r' = snd (pool_Put t' addr up cp))"
    using assms by (auto simp: Route_def f h u g split: get_result.splits prod.splits)
  then show ?thesis unfolding Some using fr pool_frame_trans [OF fr pool_Put_frame] by auto
qed

lemma get_one_idle:
  assumes "cpPools cp addr = Some bp" and "bpIdle bp = [\<lparr>pcConn = Some c, pcLastUsed = t0\<rparr>]"
    and "t - t0 \<le> pool_idleTimeout cp"
  shows "pool_Get t d addr cp = (GetConn c, set_pool addr (bp\<lparr>bpIdle := []\<rparr>) cp)"
proof -
  have "isAlive t (pool_idleTimeout cp) \<lparr>pcConn = Some c, pcLastUsed = t0\<rparr>"
    using assms(3) pool_idleTimeout_pos [of cp] by (auto simp: isAlive_def Since_def minDuration_def)
  then show ?thesis using assms(1,2) by (simp add: pool_Get_def getOrCreatePool_def run_get_def set_pool_def)
qed

text \<open>
  The only idle connection to \<open>addr\<close> is a closed one that was returned no earlier than \<open>t0\<close>.
\<close>

definition poisoned :: "string \<Rightarrow> Time \<Rightarrow> connectionPool \<Rightarrow> bool" where
  "poisoned addr t0 cp \<longleftrightarrow> (\<exists>bp c t. cpPools cp addr = Some bp \<and> bpIdle bp = [\<lparr>pcConn = Some c, pcLastUsed = t\<rparr>]
     \<and> cwok c = 0 \<and> t0 \<le> t \<and> 0 < bpMaxSize bp)"

lemma poisoned_get:
  assumes "poisoned addr t0 cp" and "t - t0 \<le> pool_idleTimeout cp"
  obtains bp c where "pool_Get t d addr cp = (GetConn c, set_pool addr (bp\<lparr>bpIdle := []\<rparr>) cp)" and "cwok c = 0" and "0 < bpMaxSize bp"
proof -
  obtain bp c s where p: "cpPools cp addr = Some bp" "bpIdle bp = [\<lparr>pcConn = Some c, pcLastUsed = s\<rparr>]" "cwok c = 0" "t0 \<le> s" "0 < bpMaxSize bp"
    using assms(1) by (auto simp: poisoned_def)
  then have "t - s \<le> pool_idleTimeout cp" using assms(2) by linarith
  from get_one_idle [OF p(1,2) this] show thesis using that p(3,5) by blast
qed

lemma poisoned_route:
  assumes "poisoned addr t0 (rtPool r)" and "route_target dial name cfg client r stats = Some addr"
    and "t - t0 \<le> pool_idleTimeout (rtPool r)" and "t0 \<le> t'"
    and "Route t t' dial n1 n2 name cfg client r stats = (res, client', r', stats')"
  shows "res = RouteErr (Wrap ''forwarding request to upstream'' (Errorf ''write''))
    \<and> cout client' = cout client \<and> poisoned addr t0 (rtPool r')"
proof -
  from route_target_Some [OF assms(2)] obtain frame k hdr r1 s1 where f: "readFrame client = (Inr frame, k)"
    and h: "ParseRequestHeader frame = Inr hdr" and u: "upstreamFor dial name cfg hdr frame r stats = (Inr addr, r1, s1)" by metis
  obtain bp c where g: "pool_Get t (dial addr) addr (rtPool r) = (GetConn c, set_pool addr (bp\<lparr>bpIdle := []\<rparr>) (rtPool r))"
    and c: "cwok c = 0" "0 < bpMaxSize bp" by (rule poisoned_get [OF assms(1,3)])
  note k = readFrame_Inr [OF f]
  have x: "exchangeFrame n1 n2 frame k c = (Some (Wrap ''forwarding request to upstream'' (Errorf ''write'')), k, c)"
    using c(1) k by (auto simp: exchangeFrame_def conn_Write_def)
  have "res = RouteErr (Wrap ''forwarding request to upstream'' (Errorf ''write'')) \<and> client' = conn_Close k
      \<and> rtPool r' = snd (pool_Put t' addr c (set_pool addr (bp\<lparr>bpIdle := []\<rparr>) (rtPool r)))"
    using assms(5) g upstreamFor_pool [OF u] by (auto simp: Route_def f h u x)
  then show ?thesis using k c assms(4) by (auto simp: pool_Put_def set_pool_def conn_Close_def poisoned_def)
qed

text \<open>Requests one after the other: where each is routed to, how it ends, and what its client is sent.\<close>

record route_call =
  rcGet :: Time
  rcPut :: Time
  rcDial :: "string \<Rightarrow> error + conn"
  rcUp :: nat
  rcDown :: nat
  rcName :: string
  rcCfg :: ClusterConfig
  rcClient :: conn

fun do_routes :: "route_call list \<Rightarrow> Router \<Rightarrow> topic_stats \<Rightarrow> (string option \<times> route_result \<times> byte list) list \<times> Router" where
  "do_routes [] r stats = ([], r)"
| "do_routes (c # cs) r stats =
     (case Route (rcGet c) (rcPut c) (rcDial c) (rcUp c) (rcDown c) (rcName c) (rcCfg c) (rcClient c) r stats of
        (res, client', r', stats') \<Rightarrow>
          (case do_routes cs r' stats' of (outs, r'') \<Rightarrow>
             ((route_target (rcDial c) (rcName c) (rcCfg c) (rcClient c) r stats, res,
               drop (length (cout (rcClient c))) (cout client')) # outs, r'')))"

lemma pool_frame_timeout: "pool_frame a cp cp' \<Longrightarrow> pool_idleTimeout cp' = pool_idleTimeout cp"
  by (simp add: pool_frame_def pool_idleTimeout_def)

lemma poisoned_frame: "pool_frame a cp cp' \<Longrightarrow> a \<noteq> Some addr \<Longrightarrow> poisoned addr t0 cp \<Longrightarrow> poisoned addr t0 cp'"
  by (simp add: pool_frame_def poisoned_def)

lemma poisoned_routes:
  assumes "poisoned addr t0 (rtPool r)" and "\<forall>c\<in>set calls. rcGet c - t0 \<le> pool_idleTimeout (rtPool r) \<and> t0 \<le> rcPut c"
    and "do_routes calls r stats = (outs, r')"
  shows "poisoned addr t0 (rtPool r') \<and> (\<forall>(target, res, sent)\<in>set outs. target = Some addr \<longrightarrow>
    res = RouteErr (Wrap ''forwarding request to upstream'' (Errorf ''write'')) \<and> sent = [])"
  using assms
proof (induction calls arbitrary: r stats outs)
  case Nil
  then show ?case by simp
next
  case (Cons c calls)
  let ?a = "route_target (rcDial c) (rcName c) (rcCfg c) (rcClient c) r stats"
  obtain res client1 r1 s1 where R: "Route (rcGet c) (rcPut c) (rcDial c) (rcUp c) (rcDown c) (rcName c) (rcCfg c) (rcClient c) r stats
      = (res, client1, r1, s1)" by (metis prod_cases4)
  obtain outs' where o: "do_routes calls r1 s1 = (outs', r')" "outs = (?a, res, drop (length (cout (rcClient c))) (cout client1)) # outs'"
    using Cons.prems(3) by (auto simp: R split: prod.splits)
  have fr: "pool_frame ?a (rtPool r) (rtPool r1)" using R by (rule Route_frame)
  have t: "rcGet c - t0 \<le> pool_idleTimeout (rtPool r)" "t0 \<le> rcPut c" using Cons.prems(2) by simp_all
  have hit: "res = RouteErr (Wrap ''forwarding request to upstream'' (Errorf ''write''))
      \<and> cout client1 = cout (rcClient c) \<and> poisoned addr t0 (rtPool r1)" if "?a = Some addr"
    using poisoned_route [OF Cons.prems(1) that t R] .
  then have p: "poisoned addr t0 (rtPool r1)" using poisoned_frame [OF fr _ Cons.prems(1)] by blast
  have "\<forall>c\<in>set calls. rcGet c - t0 \<le> pool_idleTimeout (rtPool r1) \<and> t0 \<le> rcPut c"
    using Cons.prems(2) pool_frame_timeout [OF fr] by simp
  from Cons.IH [OF p this o(1)] hit show ?case by (auto simp: o(2))
qed

lemma do_routes_timeout: "do_routes calls r stats = (outs, r') \<Longrightarrow> pool_idleTimeout (rtPool r') = pool_idleTimeout (rtPool r)"
proof (induction calls arbitrary: r stats outs)
  case (Cons c calls)
  obtain res client1 r1 s1 where R: "Route (rcGet c) (rcPut c) (rcDial c) (rcUp c) (rcDown c) (rcName c) (rcCfg c) (rcClient c) r stats
      = (res, client1, r1, s1)" by (metis prod_cases4)
  then show ?case using Cons pool_frame_timeout [OF Route_frame [OF R]] by (auto split: prod.splits)
qed simp

lemma poisoned_checked:
  assumes "poisoned addr t0 cp" and "t - t0 \<le> pool_idleTimeout cp"
  shows "\<exists>bp. cpPools (checkBroker t pooled d addr cp) addr = Some bp \<and> bpIdle bp = []"
proof -
  obtain bp c where g: "pool_Get t d addr cp = (GetConn c, set_pool addr (bp\<lparr>bpIdle := []\<rparr>) cp)" and c: "cwok c = 0"
    by (rule poisoned_get [OF assms])
  have "\<exists>e c'. pool_writeMetadataRequest pooled c = (Some e, c')"
    using c by (simp add: pool_writeMetadataRequest_def conn_Write_def pool_metadataRequest_def WriteFrame_eq)
  then show ?thesis by (auto simp: checkBroker_def g releaseSem_def set_pool_def)
qed

text \<open>
  C14. A finished request poisons the pool. If no connection to an address was idle when a request
  was routed there successfully, then the only idle connection it leaves there is the one it closed.
  Of the requests that follow one after the other within the idle timeout, to any addresses, every
  one that is routed to this address fails: it is given the closed connection, its frame cannot be
  written, its client is sent nothing, and the connection goes back to the pool. (With live idle connections
  in front of it, those are given out first.) This lasts until the pool's keep-alive check takes the
  connection, fails to write to it and drops it.
\<close>
theorem route_poisons_pool:
  assumes "Route t1 t1' dial n1 n2 name cfg client1 r stats = (RouteOk, client1', r', stats')"
    and "route_target dial name cfg client1 r stats = Some addr"
    and "\<forall>bp. cpPools (rtPool r) addr = Some bp \<longrightarrow> bpIdle bp = []"
    and "\<forall>c\<in>set calls. rcGet c - t1' \<le> pool_idleTimeout (rtPool r) \<and> t1' \<le> rcPut c"
    and "do_routes calls r' stats' = (outs, r'')"
  shows "poisoned addr t1' (rtPool r') \<and> poisoned addr t1' (rtPool r'')
    \<and> (\<forall>(target, res, sent)\<in>set outs. target = Some addr \<longrightarrow>
         res = RouteErr (Wrap ''forwarding request to upstream'' (Errorf ''write'')) \<and> sent = [])
    \<and> (\<forall>now pooled d. now - t1' \<le> pool_idleTimeout (rtPool r) \<longrightarrow>
         (\<exists>bp. cpPools (checkBroker now pooled d addr (rtPool r'')) addr = Some bp \<and> bpIdle bp = []))"
proof -
  obtain frame k hdr r1 up cp c2 up' where s: "upstreamFor dial name cfg hdr frame r stats = (Inr addr, r1, stats')"
      "pool_Get t1 (dial addr) addr (rtPool r1) = (GetConn up, cp)"
      "exchangeFrame n1 n2 frame k up = (None, c2, up')" "r' = r1\<lparr>rtPool := snd (pool_Put t1' addr up' cp)\<rparr>"
  proof (rule Route_ok_cases [OF assms(1)], goal_cases)
    case (1 frame k hdr a r1 up cp c2 up')
    moreover have "a = addr" using assms(2) 1(2-4) by (simp add: route_target_def)
    ultimately show ?case by blast
  qed
  obtain bp where bp: "cpPools cp addr = Some bp" "bpIdle bp = []" "0 < bpMaxSize bp"
    using get_no_idle [OF s(2)] assms(3) upstreamFor_pool [OF s(1)] by auto
  have "cwok up' = 0" using exchangeFrame_None [OF s(3)] by blast
  then have p: "poisoned addr t1' (rtPool r')" using s(4) bp by (simp add: pool_Put_def poisoned_def)
  have to: "pool_idleTimeout (rtPool r') = pool_idleTimeout (rtPool r)" using pool_frame_timeout [OF Route_frame [OF assms(1)]] .
  have q: "poisoned addr t1' (rtPool r'') \<and> (\<forall>(target, res, sent)\<in>set outs. target = Some addr \<longrightarrow>
         res = RouteErr (Wrap ''forwarding request to upstream'' (Errorf ''write'')) \<and> sent = [])"
    using poisoned_routes [OF p _ assms(5)] assms(4) to by simp
  have "pool_idleTimeout (rtPool r'') = pool_idleTimeout (rtPool r)"
    using do_routes_timeout [OF assms(5)] to by simp
  then show ?thesis using p q poisoned_checked by metis
qed

definition demo_call :: route_call where
  "demo_call = \<lparr>rcGet = 7, rcPut = 8, rcDial = demo_dial, rcUp = 0, rcDown = 0, rcName = ''logistics'', rcCfg = sample_logistics,
     rcClient = demo_client\<rparr>"

theorem route_poisons_pool_witness:
  "\<exists>client1' r' outs r''. demo_route = (RouteOk, client1', r', Map.empty)
     \<and> do_routes [demo_call, demo_call] r' Map.empty = (outs, r'') \<and> map fst outs = [Some ''k1:9092'', Some ''k1:9092'']
     \<and> (\<forall>(target, res, sent)\<in>set outs. res = RouteErr (Wrap ''forwarding request to upstream'' (Errorf ''write'')) \<and> sent = [])"
proof -
  obtain client1' r' where R: "demo_route = (RouteOk, client1', r', Map.empty)" using demo_route_ok by (elim exE)
  have target: "route_target demo_dial ''logistics'' sample_logistics demo_client r stats = Some ''k1:9092''" for r stats
    unfolding route_target_def demo_read by (simp add: demo_parse demo_upstream)
  have e: "\<forall>bp. cpPools (rtPool demo_router) ''k1:9092'' = Some bp \<longrightarrow> bpIdle bp = []" by (simp add: demo_router_def pool_New_def)
  have t: "\<forall>c\<in>set [demo_call, demo_call]. rcGet c - 6 \<le> pool_idleTimeout (rtPool demo_router) \<and> 6 \<le> rcPut c"
    by (simp add: demo_call_def demo_router_def pool_New_def pool_idleTimeout_def defaultIdleTimeout_def second_def)
  obtain outs r'' where d: "do_routes [demo_call, demo_call] r' Map.empty = (outs, r'')" by fastforce
  have targets: "map fst (fst (do_routes cs r stats)) = map (\<lambda>_. Some ''k1:9092'') cs"
    if "\<forall>c\<in>set cs. c = demo_call" for cs r stats
    using that
  proof (induction cs arbitrary: r stats)
    case (Cons c cs)
    obtain res k r1 s1 where "Route (rcGet c) (rcPut c) (rcDial c) (rcUp c) (rcDown c) (rcName c) (rcCfg c) (rcClient c) r stats
        = (res, k, r1, s1)" by (metis prod_cases4)
    moreover have "route_target (rcDial c) (rcName c) (rcCfg c) (rcClient c) r stats = Some ''k1:9092''"
      using Cons.prems target by (simp add: demo_call_def)
    moreover have "map fst (fst (do_routes cs r1 s1)) = map (\<lambda>_. Some ''k1:9092'') cs" using Cons by simp
    ultimately show ?case by (cases "do_routes cs r1 s1") simp
  qed simp
  have m: "map fst outs = [Some ''k1:9092'', Some ''k1:9092'']"
    using targets [of "[demo_call, demo_call]" r' Map.empty] unfolding d by simp
  note fail = route_poisons_pool [OF R target e t d, THEN conjunct2, THEN conjunct2, THEN conjunct1]
  have "case x of (target, res, sent) \<Rightarrow> res = RouteErr (Wrap ''forwarding request to upstream'' (Errorf ''write'')) \<and> sent = []"
    if "x \<in> set outs" for x
  proof -
    obtain target res sent where x: "x = (target, res, sent)" by (cases x)
    have "target \<in> set (map fst outs)" using that by (force simp: x)
    then have "target = Some ''k1:9092''" unfolding m by simp
    then show ?thesis using bspec [OF fail that] unfolding x by (simp only: prod.case simp_thms)
  qed
  then show ?thesis using R d m by (intro exI [of _ client1'] exI [of _ r'] exI [of _ outs] exI [of _ r''] conjI ballI)
qed

end
