(* ===== verification/Auto_Rebalance.thy ===== *)
theory Auto_Rebalance
  imports Routing
begin

text \<open>
  The automatic rebalancer of load-balanced clusters, \<^verbatim>\<open>internal/routing/rebalance.go\<close>: every
  second it compares the health checker's snapshot with the previous one and overrides the router's
  effective weights. A tick is a function of the snapshot and the time; the order in which the
  health map is visited is an argument. \<open>arLoops\<close>, \<open>arStopped\<close> and \<open>arDone\<close> are the goroutines that
  run the loop, the stop channel and the done channel.
\<close>

section \<open>State\<close>

record AutoRebalancer =
  arCfg :: Config
  arOriginal :: "string \<rightharpoonup> clusterWeights"
  arRecovering :: "string \<Rightarrow> bool"
  arPrev :: "string \<rightharpoonup> bool \<times> bool"
  arLoops :: nat
  arStopped :: bool
  arDone :: bool

definition capture_weights :: "Config \<Rightarrow> (string \<rightharpoonup> clusterWeights) \<Rightarrow> (string \<rightharpoonup> clusterWeights)" where
  "capture_weights cfg m = fold (\<lambda>(name, cc) m. if Mode cc = ModeLoadBalance then m(name \<mapsto> config_weights cc) else m) (Clusters cfg) m"

definition New_AutoRebalancer :: "Config \<Rightarrow> AutoRebalancer" where
  "New_AutoRebalancer cfg =
     \<lparr>arCfg = cfg, arOriginal = capture_weights cfg Map.empty, arRecovering = (\<lambda>_. False), arPrev = Map.empty,
      arLoops = 0, arStopped = False, arDone = False\<rparr>"

section \<open>Life cycle\<close>

definition ar_Start :: "AutoRebalancer \<Rightarrow> AutoRebalancer" where
  "ar_Start r = r\<lparr>arLoops := arLoops r + 1\<rparr>"

text \<open>The loop leaves when the stop channel is closed and closes the done channel.\<close>

definition loop_exit :: "AutoRebalancer \<Rightarrow> (error + AutoRebalancer) option" where
  "loop_exit r =
     (if arLoops r = 0 \<or> \<not> arStopped r then None
      else if arDone r then Some (Inl (Panic ''close of closed channel''))
      else Some (Inr (r\<lparr>arLoops := arLoops r - 1, arDone := True\<rparr>)))"

text \<open>\<open>Stop\<close> waits for the done channel: it returns once a running loop has left, and never without one.\<close>

datatype stop_result = StopReturns | StopBlocks

definition ar_Stop :: "AutoRebalancer \<Rightarrow> stop_result \<times> AutoRebalancer" where
  "ar_Stop r =
     (if arStopped r then (StopReturns, r)
      else let r = r\<lparr>arStopped := True\<rparr> in
        case loop_exit r of
          Some (Inr r) \<Rightarrow> (StopReturns, r)
        | _ \<Rightarrow> (if arDone r then StopReturns else StopBlocks, r))"

section \<open>Weight changes\<close>

definition minUptime :: "ClusterConfig \<Rightarrow> Duration" where
  "minUptime cc = (let d = RecoveryMinUptime (HealthCheck cc) in if d \<le> 0 then 120 * second else d)"

definition handleDown :: "string \<Rightarrow> bool \<Rightarrow> bool \<Rightarrow> AutoRebalancer \<Rightarrow> Router \<Rightarrow> Router" where
  "handleDown name primaryDown secondaryDown r rt =
     (case map_of (Clusters (arCfg r)) name of
        None \<Rightarrow> rt
      | Some cc \<Rightarrow>
          if Mode cc \<noteq> ModeLoadBalance then rt
          else if \<not> primaryDown \<and> \<not> secondaryDown then rt
          else if primaryDown then SetEffectiveWeights name 0 100 rt
          else SetEffectiveWeights name 100 0 rt)"

definition restoreWeights :: "string \<Rightarrow> AutoRebalancer \<Rightarrow> Router \<Rightarrow> Router option" where
  "restoreWeights name r rt =
     map_option (\<lambda>orig. SetEffectiveWeights name (cwPrimary orig) (cwSecondary orig) rt) (arOriginal r name)"

definition handleSecondaryUp :: "string \<Rightarrow> AutoRebalancer \<Rightarrow> Router \<Rightarrow> Router" where
  "handleSecondaryUp name r rt = (case restoreWeights name r rt of None \<Rightarrow> rt | Some rt \<Rightarrow> rt)"

definition handlePrimaryUp :: "Time \<Rightarrow> string \<Rightarrow> Time \<Rightarrow> AutoRebalancer \<Rightarrow> Router \<Rightarrow> AutoRebalancer \<times> Router" where
  "handlePrimaryUp now name upSince r rt =
     (case map_of (Clusters (arCfg r)) name of
        None \<Rightarrow> (r, rt)
      | Some cc \<Rightarrow>
          if Mode cc \<noteq> ModeLoadBalance then (r, rt)
          else if minUptime cc \<le> Since now upSince then
            (case restoreWeights name r rt of
               None \<Rightarrow> (r, rt)
             | Some rt \<Rightarrow> (r\<lparr>arRecovering := (arRecovering r)(name := False)\<rparr>, rt))
          else (r\<lparr>arRecovering := (arRecovering r)(name := True)\<rparr>, rt))"

definition checkPrimaryRecovery :: "Time \<Rightarrow> string \<Rightarrow> Time \<Rightarrow> AutoRebalancer \<Rightarrow> Router \<Rightarrow> AutoRebalancer \<times> Router" where
  "checkPrimaryRecovery now name upSince r rt =
     (let off = r\<lparr>arRecovering := (arRecovering r)(name := False)\<rparr> in
      case map_of (Clusters (arCfg r)) name of
        None \<Rightarrow> (off, rt)
      | Some cc \<Rightarrow>
          if Mode cc \<noteq> ModeLoadBalance then (off, rt)
          else if minUptime cc \<le> Since now upSince then
            (case restoreWeights name r rt of None \<Rightarrow> (off, rt) | Some rt \<Rightarrow> (off, rt))
          else (r, rt))"

definition tickCluster :: "Time \<Rightarrow> string \<Rightarrow> ClusterHealth \<Rightarrow> AutoRebalancer \<times> Router \<Rightarrow> AutoRebalancer \<times> Router" where
  "tickCluster now name ch = (\<lambda>(r, rt).
     (case map_of (Clusters (arCfg r)) name of
        None \<Rightarrow> (r, rt)
      | Some cc \<Rightarrow>
          if Mode cc \<noteq> ModeLoadBalance \<or> \<not> AutoRebalance (HealthCheck cc) then (r, rt)
          else
            let nowP = snHealthy (chPrimary ch); nowS = snHealthy (chSecondary ch);
                upSince = snUpSince (chPrimary ch) in
            case arPrev r name of
              None \<Rightarrow> (r\<lparr>arPrev := (arPrev r)(name \<mapsto> (nowP, nowS))\<rparr>, rt)
            | Some (prevP, prevS) \<Rightarrow>
                let primaryWentDown = prevP \<and> \<not> nowP; secondaryWentDown = prevS \<and> \<not> nowS;
                    primaryCameUp = \<not> prevP \<and> nowP; secondaryCameUp = \<not> prevS \<and> nowS;
                    rt = (if primaryWentDown \<or> secondaryWentDown
                          then handleDown name primaryWentDown secondaryWentDown r rt else rt);
                    rt = (if secondaryCameUp then handleSecondaryUp name r rt else rt);
                    (r, rt) = (if primaryCameUp then handlePrimaryUp now name upSince r rt else (r, rt));
                    (r, rt) = (if arRecovering r name then checkPrimaryRecovery now name upSince r rt else (r, rt))
                in (r\<lparr>arPrev := (arPrev r)(name \<mapsto> (nowP, nowS))\<rparr>, rt)))"

text \<open>\<open>order\<close> enumerates the health map.\<close>

definition ar_tick :: "Time \<Rightarrow> string list \<Rightarrow> (string \<rightharpoonup> ClusterHealth) option \<Rightarrow> AutoRebalancer \<times> Router \<Rightarrow> AutoRebalancer \<times> Router" where
  "ar_tick now order healthMap s =
     (case healthMap of None \<Rightarrow> s | Some hm \<Rightarrow> fold (\<lambda>name s. tickCluster now name (the (hm name)) s) order s)"

text \<open>The running loop: an immediate tick, then one for each firing of the ticker, with its time and what it saw.\<close>

definition ar_loop :: "(Time \<times> string list \<times> (string \<rightharpoonup> ClusterHealth) option) list \<Rightarrow> AutoRebalancer \<times> Router \<Rightarrow> AutoRebalancer \<times> Router" where
  "ar_loop ticks = fold (\<lambda>(now, order, hm). ar_tick now order hm) ticks"

definition ar_UpdateConfig :: "Config \<Rightarrow> AutoRebalancer \<Rightarrow> AutoRebalancer" where
  "ar_UpdateConfig cfg r = r\<lparr>arCfg := cfg, arOriginal := capture_weights cfg (arOriginal r)\<rparr>"

definition ar_ResetWeights :: "string list \<Rightarrow> AutoRebalancer \<times> Router \<Rightarrow> AutoRebalancer \<times> Router" where
  "ar_ResetWeights order s = fold (\<lambda>name (r, rt).
     case arOriginal r name of
       None \<Rightarrow> (r, rt)
     | Some orig \<Rightarrow> (r\<lparr>arRecovering := (arRecovering r)(name := False)\<rparr>,
                     SetEffectiveWeights name (cwPrimary orig) (cwSecondary orig) rt)) order s"

section \<open>One tick\<close>

text \<open>What a tick does to a managed cluster with a known previous state, as a table.\<close>

definition managed :: "AutoRebalancer \<Rightarrow> string \<Rightarrow> ClusterConfig \<Rightarrow> clusterWeights \<Rightarrow> bool" where
  "managed r name cc orig \<longleftrightarrow> map_of (Clusters (arCfg r)) name = Some cc \<and> Mode cc = ModeLoadBalance
     \<and> AutoRebalance (HealthCheck cc) \<and> arOriginal r name = Some orig"

datatype endpoint_edge = Steady | WentDown | CameUp

fun edge :: "bool \<Rightarrow> bool \<Rightarrow> endpoint_edge" where
  "edge True False = WentDown"
| "edge False True = CameUp"
| "edge _ _ = Steady"

text \<open>The next weights, from both edges, the recovering flag and whether the primary's uptime is long enough.\<close>

definition next_weights :: "endpoint_edge \<Rightarrow> endpoint_edge \<Rightarrow> bool \<Rightarrow> bool \<Rightarrow> clusterWeights \<Rightarrow> clusterWeights option \<Rightarrow> clusterWeights option" where
  "next_weights p s recovering longUp orig w =
     (if longUp \<and> (p = CameUp \<or> recovering) then Some orig
      else if s = CameUp then Some orig
      else if p = WentDown then Some \<lparr>cwPrimary = 0, cwSecondary = 100\<rparr>
      else if s = WentDown then Some \<lparr>cwPrimary = 100, cwSecondary = 0\<rparr>
      else w)"

lemma SetEffectiveWeights_at [simp]:
  "rtWeights (SetEffectiveWeights name p s rt) name = Some \<lparr>cwPrimary = p, cwSecondary = s\<rparr>"
  by (simp add: SetEffectiveWeights_def)

lemma weights_eta [simp]: "\<lparr>cwPrimary = cwPrimary (w :: clusterWeights), cwSecondary = cwSecondary w\<rparr> = w"
  by simp

lemma tickCluster_table:
  assumes "managed r name cc orig" and "arPrev r name = Some (prevP, prevS)"
    and "tickCluster now name ch (r, rt) = (r', rt')"
  shows "rtWeights rt' name = next_weights (edge prevP (snHealthy (chPrimary ch))) (edge prevS (snHealthy (chSecondary ch)))
        (arRecovering r name) (minUptime cc \<le> Since now (snUpSince (chPrimary ch))) orig (rtWeights rt name)
    \<and> (arRecovering r' name \<longleftrightarrow> (arRecovering r name \<or> edge prevP (snHealthy (chPrimary ch)) = CameUp)
         \<and> \<not> minUptime cc \<le> Since now (snUpSince (chPrimary ch)))
    \<and> arPrev r' name = Some (snHealthy (chPrimary ch), snHealthy (chSecondary ch)) \<and> managed r' name cc orig"
  using assms
  by (cases "(prevP, snHealthy (chPrimary ch))" rule: edge.cases;
      cases "(prevS, snHealthy (chSecondary ch))" rule: edge.cases;
      auto simp: tickCluster_def managed_def next_weights_def handleDown_def handleSecondaryUp_def handlePrimaryUp_def
        checkPrimaryRecovery_def restoreWeights_def Let_def split: if_splits)

text \<open>A tick of one cluster leaves the others alone.\<close>

lemma SetEffectiveWeights_other [simp]: "n \<noteq> name \<Longrightarrow> rtWeights (SetEffectiveWeights name p s rt) n = rtWeights rt n"
  by (simp add: SetEffectiveWeights_def)

lemma handlers_other:
  assumes "n \<noteq> name"
  shows "rtWeights (handleDown name pd sd r rt) n = rtWeights rt n"
    and "rtWeights (handleSecondaryUp name r rt) n = rtWeights rt n"
    and "handlePrimaryUp now name u r rt = (r', rt') \<Longrightarrow> rtWeights rt' n = rtWeights rt n \<and> arRecovering r' n = arRecovering r n
      \<and> arPrev r' = arPrev r \<and> arCfg r' = arCfg r \<and> arOriginal r' = arOriginal r"
    and "checkPrimaryRecovery now name u r rt = (r', rt') \<Longrightarrow> rtWeights rt' n = rtWeights rt n \<and> arRecovering r' n = arRecovering r n
      \<and> arPrev r' = arPrev r \<and> arCfg r' = arCfg r \<and> arOriginal r' = arOriginal r"
  using assms
  by (auto simp: handleDown_def handleSecondaryUp_def handlePrimaryUp_def checkPrimaryRecovery_def restoreWeights_def Let_def
      split: option.splits if_splits)

lemma tickCluster_other:
  assumes "n \<noteq> name" and "tickCluster now name ch (r, rt) = (r', rt')"
  shows "rtWeights rt' n = rtWeights rt n \<and> arRecovering r' n = arRecovering r n \<and> arPrev r' n = arPrev r n
    \<and> arCfg r' = arCfg r \<and> arOriginal r' = arOriginal r"
proof (cases "\<exists>cc pp ps. map_of (Clusters (arCfg r)) name = Some cc \<and> \<not> (Mode cc \<noteq> ModeLoadBalance \<or> \<not> AutoRebalance (HealthCheck cc))
    \<and> arPrev r name = Some (pp, ps)")
  case False
  then show ?thesis using assms by (auto simp: tickCluster_def Let_def split: option.splits if_splits)
next
  case True
  then obtain cc pp ps where c: "map_of (Clusters (arCfg r)) name = Some cc" "\<not> (Mode cc \<noteq> ModeLoadBalance \<or> \<not> AutoRebalance (HealthCheck cc))"
    "arPrev r name = Some (pp, ps)" by blast
  let ?np = "snHealthy (chPrimary ch)" and ?ns = "snHealthy (chSecondary ch)" and ?u = "snUpSince (chPrimary ch)"
  define rt1 where "rt1 = (if pp \<and> \<not> ?np \<or> ps \<and> \<not> ?ns then handleDown name (pp \<and> \<not> ?np) (ps \<and> \<not> ?ns) r rt else rt)"
  define rt2 where "rt2 = (if \<not> ps \<and> ?ns then handleSecondaryUp name r rt1 else rt1)"
  obtain r3 rt3 where 3: "(if \<not> pp \<and> ?np then handlePrimaryUp now name ?u r rt2 else (r, rt2)) = (r3, rt3)" by fastforce
  obtain r4 rt4 where 4: "(if arRecovering r3 name then checkPrimaryRecovery now name ?u r3 rt3 else (r3, rt3)) = (r4, rt4)" by fastforce
  have "tickCluster now name ch (r, rt) = (case (if \<not> pp \<and> ?np then handlePrimaryUp now name ?u r rt2 else (r, rt2)) of (r, rt) \<Rightarrow>
      (case (if arRecovering r name then checkPrimaryRecovery now name ?u r rt else (r, rt)) of (r, rt) \<Rightarrow>
        (r\<lparr>arPrev := (arPrev r)(name \<mapsto> (?np, ?ns))\<rparr>, rt)))"
    unfolding tickCluster_def Let_def rt2_def rt1_def using c by simp
  then have t: "r' = r4\<lparr>arPrev := (arPrev r4)(name \<mapsto> (?np, ?ns))\<rparr>" "rt' = rt4"
    unfolding 3 prod.case 4 using assms(2) by simp_all
  have "rtWeights rt2 n = rtWeights rt n" using handlers_other(1,2) [OF assms(1)] by (simp add: rt1_def rt2_def)
  moreover have "rtWeights rt3 n = rtWeights rt2 n \<and> arRecovering r3 n = arRecovering r n \<and> arPrev r3 = arPrev r
      \<and> arCfg r3 = arCfg r \<and> arOriginal r3 = arOriginal r"
    using 3 handlers_other(3) [OF assms(1)] by (auto split: if_splits)
  moreover have "rtWeights rt4 n = rtWeights rt3 n \<and> arRecovering r4 n = arRecovering r3 n \<and> arPrev r4 = arPrev r3
      \<and> arCfg r4 = arCfg r3 \<and> arOriginal r4 = arOriginal r3"
    using 4 handlers_other(4) [OF assms(1)] by (auto split: if_splits)
  ultimately show ?thesis using t assms(1) by simp
qed

lemma fold_tick_other:
  "n \<notin> set order \<Longrightarrow> fold (\<lambda>name s. tickCluster now name (h name) s) order (r, rt) = (r', rt') \<Longrightarrow>
   rtWeights rt' n = rtWeights rt n \<and> arRecovering r' n = arRecovering r n \<and> arPrev r' n = arPrev r n
   \<and> arCfg r' = arCfg r \<and> arOriginal r' = arOriginal r"
proof (induction order arbitrary: r rt)
  case Nil
  then show ?case by simp
next
  case (Cons a order)
  obtain r1 rt1 where t: "tickCluster now a (h a) (r, rt) = (r1, rt1)" by fastforce
  show ?case using Cons.IH [of r1 rt1] Cons.prems t tickCluster_other [OF _ t, of n] by simp
qed

lemma ar_tick_table:
  assumes "managed r name cc orig" and "arPrev r name = Some (prevP, prevS)" and "enumerates order hm" and "hm name = Some ch"
    and "ar_tick now order (Some hm) (r, rt) = (r', rt')"
  shows "rtWeights rt' name = next_weights (edge prevP (snHealthy (chPrimary ch))) (edge prevS (snHealthy (chSecondary ch)))
        (arRecovering r name) (minUptime cc \<le> Since now (snUpSince (chPrimary ch))) orig (rtWeights rt name)
    \<and> (arRecovering r' name \<longleftrightarrow> (arRecovering r name \<or> edge prevP (snHealthy (chPrimary ch)) = CameUp)
         \<and> \<not> minUptime cc \<le> Since now (snUpSince (chPrimary ch)))
    \<and> arPrev r' name = Some (snHealthy (chPrimary ch), snHealthy (chSecondary ch)) \<and> managed r' name cc orig"
proof -
  have "name \<in> set order" "distinct order" using assms(3,4) by (auto simp: enumerates_def)
  then obtain xs ys where o: "order = xs @ name # ys" "name \<notin> set xs" "name \<notin> set ys" by (metis distinct_append distinct.simps(2) split_list not_distinct_conv_prefix)
  let ?step = "\<lambda>n s. tickCluster now n (the (hm n)) s"
  obtain r1 rt1 where 1: "fold ?step xs (r, rt) = (r1, rt1)" by fastforce
  obtain r2 rt2 where 2: "tickCluster now name ch (r1, rt1) = (r2, rt2)" by fastforce
  have 3: "fold ?step ys (r2, rt2) = (r', rt')" using assms(4,5) 1 2 o(1) by (simp add: ar_tick_def)
  note a = fold_tick_other [where h = "\<lambda>n. the (hm n)", OF o(2) 1]
  note b = fold_tick_other [where h = "\<lambda>n. the (hm n)", OF o(3) 3]
  have "managed r1 name cc orig" "arPrev r1 name = Some (prevP, prevS)" using a assms(1,2) by (simp_all add: managed_def)
  from tickCluster_table [OF this 2] show ?thesis using a b by (simp add: managed_def)
qed

section \<open>Properties\<close>

text \<open>
  C25. Automatic rebalancing follows the health edges, with one hole. For a load-balanced cluster
  under automatic rebalancing, one tick over any health map (whatever the order and the other
  clusters) changes its weights exactly as the table says: an endpoint seen going down gives all
  weight to the other one, a secondary seen coming up or a primary that has been up long enough
  restores the configured weights, and otherwise nothing changes. But the code never asks whether
  the primary is up before it restores: while the primary is down (and \<open>UpSince\<close> therefore zero),
  a pending recovery or a secondary coming up restores the configured weights, so that the dead
  primary gets its full share of the partitions again.
\<close>
theorem auto_rebalance_tick:
  assumes "managed r name cc orig" and "arPrev r name = Some (prevP, prevS)" and "enumerates order hm" and "hm name = Some ch"
    and "ar_tick now order (Some hm) (r, rt) = (r', rt')"
  shows "rtWeights rt' name = next_weights (edge prevP (snHealthy (chPrimary ch))) (edge prevS (snHealthy (chSecondary ch)))
        (arRecovering r name) (minUptime cc \<le> Since now (snUpSince (chPrimary ch))) orig (rtWeights rt name)
    \<and> (edge prevP (snHealthy (chPrimary ch)) = WentDown \<and> \<not> arRecovering r name \<and> edge prevS (snHealthy (chSecondary ch)) \<noteq> CameUp
        \<longrightarrow> GetEffectiveWeights name cc rt' = (0, 100))
    \<and> (\<not> snHealthy (chPrimary ch) \<and> snUpSince (chPrimary ch) = zero_time \<and> minUptime cc \<le> Since now zero_time
        \<and> (arRecovering r name \<or> edge prevS (snHealthy (chSecondary ch)) = CameUp)
        \<longrightarrow> GetEffectiveWeights name cc rt' = (cwPrimary orig, cwSecondary orig))"
  using ar_tick_table [OF assms] by (auto simp: next_weights_def GetEffectiveWeights_def)

definition demo_down :: ClusterHealth where
  "demo_down = \<lparr>chName = ''logistics'',
     chPrimary = HealthState_Snapshot ((NewHealthState 0 ''k1:9092'')\<lparr>hsHealthy := False, hsUpSince := zero_time\<rparr>),
     chSecondary = HealthState_Snapshot (NewHealthState 0 ''k2:9092'')\<rparr>"

theorem auto_rebalance_tick_witness:
  "\<exists>r' rt'. ar_tick (200 * second) [''logistics''] (Some [''logistics'' \<mapsto> demo_down])
       ((New_AutoRebalancer ((rtCfg demo_router)\<lparr>Clusters := [(''logistics'', sample_logistics)]\<rparr>))
          \<lparr>arPrev := [''logistics'' \<mapsto> (True, True)], arRecovering := (\<lambda>_. True)\<rparr>, demo_router) = (r', rt')
     \<and> GetEffectiveWeights ''logistics'' sample_logistics rt' = (70, 30)"
proof -
  let ?r = "(New_AutoRebalancer ((rtCfg demo_router)\<lparr>Clusters := [(''logistics'', sample_logistics)]\<rparr>))
          \<lparr>arPrev := [''logistics'' \<mapsto> (True, True)], arRecovering := (\<lambda>_. True)\<rparr>"
  obtain r' rt' where t: "ar_tick (200 * second) [''logistics''] (Some [''logistics'' \<mapsto> demo_down]) (?r, demo_router) = (r', rt')"
    by fastforce
  have m: "managed ?r ''logistics'' sample_logistics \<lparr>cwPrimary = 70, cwSecondary = 30\<rparr>"
    by (simp add: managed_def New_AutoRebalancer_def capture_weights_def config_weights_def sample_logistics_def sample_hc_def mode_defs)
  have e: "enumerates [''logistics''] [''logistics'' \<mapsto> demo_down]" by (simp add: enumerates_def)
  have "\<not> snHealthy (chPrimary demo_down)" "snUpSince (chPrimary demo_down) = zero_time"
    "minUptime sample_logistics \<le> Since (200 * second) zero_time"
    by (simp_all add: demo_down_def HealthState_Snapshot_def minUptime_def sample_logistics_def sample_hc_def Since_def
        second_def zero_time_def minDuration_def maxDuration_def)
  then have "GetEffectiveWeights ''logistics'' sample_logistics rt' = (70, 30)"
    using auto_rebalance_tick [OF m _ e _ t, of True True demo_down] by simp
  then show ?thesis using t by blast
qed

end
