(* ===== verification/Listener.thy ===== *)
theory Listener
  imports Auto_Rebalance
begin

text \<open>
  The listener, \<^verbatim>\<open>internal/proxy/listener.go\<close>: one port per cluster, the routing state it creates,
  and what a hot reload does to it (\<open>SetHealthChecker\<close> and \<open>RefreshClusters\<close>, in the order of the
  reload callback of \<^verbatim>\<open>cmd/proxy/main.go\<close>). The leader cache is the one inside the router, which
  shares it in the code. An operation ends, waits for ever in \<open>Stop\<close> of the rebalancer, or panics.
\<close>

section \<open>State\<close>

text \<open>\<open>lsListening\<close>: the slice of listeners is not nil; \<open>lsOpen\<close>: the clusters whose port accepts connections.\<close>

record Listener =
  lsPortMap :: "int \<rightharpoonup> string"
  lsRouter :: Router
  lsRefreshers :: refreshers
  lsRebalancer :: "AutoRebalancer option"
  lsHasChecker :: bool
  lsListening :: bool
  lsOpen :: "string set"
  lsShutdown :: bool

datatype 'a outcome = Done 'a | Blocks 'a | Panics error

fun then_do :: "'a outcome \<Rightarrow> ('a \<Rightarrow> 'a outcome) \<Rightarrow> 'a outcome" where
  "then_do (Done x) f = f x"
| "then_do (Blocks x) f = Blocks x"
| "then_do (Panics e) f = Panics e"

section \<open>Creation\<close>

text \<open>The listener has a copy of the leader cache's function.\<close>

definition ls_clusterBootstraps :: "ClusterConfig \<Rightarrow> string list" where
  "ls_clusterBootstraps cfg =
     (if Mode cfg \<in> {ModeLoadBalance, ModeActivePassive} then
        let bootstraps = [];
            bootstraps = (if Bootstrap (Primary cfg) \<noteq> '''' then bootstraps @ [Bootstrap (Primary cfg)] else bootstraps);
            bootstraps = (if Bootstrap (Secondary cfg) \<noteq> '''' then bootstraps @ [Bootstrap (Secondary cfg)] else bootstraps)
        in bootstraps
      else if Mode cfg = ModeSingle then (if Bootstrap (Primary cfg) \<noteq> '''' then [Bootstrap (Primary cfg)] else [])
      else [])"

lemma ls_clusterBootstraps_eq [simp]: "ls_clusterBootstraps = clusterBootstraps"
  by (auto simp: fun_eq_iff ls_clusterBootstraps_def clusterBootstraps_def Let_def)

text \<open>The deduplicated bootstraps in the order of their first occurrence.\<close>

definition addBootstrap :: "string \<Rightarrow> string set \<times> string list \<Rightarrow> string set \<times> string list" where
  "addBootstrap b = (\<lambda>(seen, bootstraps).
     if b = '''' \<or> b \<in> seen then (seen, bootstraps) else (insert b seen, bootstraps @ [b]))"

definition allConfigBootstraps :: "Config \<Rightarrow> string list" where
  "allConfigBootstraps cfg =
     snd (fold (\<lambda>(_, cc) acc. fold addBootstrap (ls_clusterBootstraps cc) acc) (Clusters cfg) ({}, []))"

definition no_refreshers :: refreshers where
  "no_refreshers = \<lparr>rsMap = Map.empty, rsAll = []\<rparr>"

definition initRouting :: "Config \<Rightarrow> Listener \<Rightarrow> Listener" where
  "initRouting cfg l =
     (let cache = ConfigureSASL cfg NewPartitionLeaderCache in
      l\<lparr>lsRouter := NewRouter cfg cache, lsRefreshers := fold StartBackgroundRefresh (allConfigBootstraps cfg) no_refreshers\<rparr>)"

definition NewListener :: "Config \<Rightarrow> Listener" where
  "NewListener cfg = initRouting cfg
     \<lparr>lsPortMap = BuildPortMap cfg, lsRouter = NewRouter cfg NewPartitionLeaderCache, lsRefreshers = no_refreshers,
      lsRebalancer = None, lsHasChecker = False, lsListening = False, lsOpen = {}, lsShutdown = False\<rparr>"

section \<open>Operations\<close>

text \<open>\<open>opens\<close> says for which clusters \<open>net.Listen\<close> succeeds; a failure leaves the listener as it was.\<close>

definition ls_Start :: "(string \<Rightarrow> bool) \<Rightarrow> Config \<Rightarrow> Listener \<Rightarrow> error + Listener" where
  "ls_Start opens cfg l =
     (if \<not> list_all (\<lambda>(name, _). opens name) (Clusters cfg) then Inl (Errorf ''failed to listen'')
      else Inr (l\<lparr>lsListening := (Clusters cfg \<noteq> []), lsOpen := fst ` set (Clusters cfg),
                  lsRebalancer := map_option ar_Start (lsRebalancer l)\<rparr>))"

definition ls_EffectiveWeights :: "Config \<Rightarrow> string \<Rightarrow> Listener \<Rightarrow> int \<times> int \<times> bool" where
  "ls_EffectiveWeights cfg name l =
     (case map_of (Clusters cfg) name of
        None \<Rightarrow> (0, 0, False)
      | Some cc \<Rightarrow> if Mode cc \<noteq> ModeLoadBalance then (0, 0, False)
                   else (case GetEffectiveWeights name cc (lsRouter l) of (p, s) \<Rightarrow> (p, s, True)))"

definition hasAutoRebalance :: "Config \<Rightarrow> bool" where
  "hasAutoRebalance cfg = list_ex (\<lambda>(_, c). Mode c = ModeLoadBalance \<and> AutoRebalance (HealthCheck c)) (Clusters cfg)"

text \<open>\<open>cfg\<close> is what \<open>getConfig\<close> returns; \<open>checker\<close> is false for a nil checker.\<close>

definition SetHealthChecker :: "Config \<Rightarrow> bool \<Rightarrow> Listener \<Rightarrow> Listener outcome" where
  "SetHealthChecker cfg checker l =
     (let l = l\<lparr>lsHasChecker := checker\<rparr> in
      if \<not> checker then Done l
      else if \<not> hasAutoRebalance cfg then Done l
      else
        (case lsRebalancer l of
           None \<Rightarrow> Done (l\<lparr>lsRebalancer := Some (New_AutoRebalancer cfg)\<rparr>)
         | Some rb \<Rightarrow>
             (case ar_Stop rb of
                (StopBlocks, rb) \<Rightarrow> Blocks (l\<lparr>lsRebalancer := Some rb\<rparr>)
              | (StopReturns, _) \<Rightarrow> Done (l\<lparr>lsRebalancer := Some (New_AutoRebalancer cfg)\<rparr>))))"

definition ls_Close :: "Listener \<Rightarrow> Listener outcome" where
  "ls_Close l =
     (case lsRebalancer l of
        None \<Rightarrow> Done (l\<lparr>lsOpen := {}, lsShutdown := True\<rparr>)
      | Some rb \<Rightarrow>
          (case ar_Stop rb of
             (StopBlocks, rb) \<Rightarrow> Blocks (l\<lparr>lsRebalancer := Some rb\<rparr>)
           | (StopReturns, rb) \<Rightarrow> Done (l\<lparr>lsRebalancer := Some rb, lsOpen := {}, lsShutdown := True\<rparr>)))"

text \<open>The second half of \<open>RefreshClusters\<close>: \<open>old\<close> lists the bootstraps being refreshed.\<close>

definition stopStale :: "string \<Rightarrow> Config \<Rightarrow> Listener \<Rightarrow> Listener outcome" where
  "stopStale b newCfg l =
     (if b \<in> set (allConfigBootstraps newCfg) then Done l
      else (case StopBackgroundRefresh b (lsRefreshers l) of
              Inl e \<Rightarrow> Panics e
            | Inr rs \<Rightarrow> Done (l\<lparr>lsRefreshers := rs,
                              lsRouter := (lsRouter l)\<lparr>rtCache := Invalidate (rtCache (lsRouter l)) b\<rparr>\<rparr>)))"

definition syncBootstraps :: "string list \<Rightarrow> Config \<Rightarrow> Listener \<Rightarrow> Listener outcome" where
  "syncBootstraps old newCfg l =
     (let l = l\<lparr>lsRouter := (lsRouter l)\<lparr>rtCache := ConfigureSASL newCfg (rtCache (lsRouter l))\<rparr>\<rparr>;
          l = l\<lparr>lsRefreshers := fold (\<lambda>b rs. if b \<notin> set old then StartBackgroundRefresh b rs else rs)
                                   (allConfigBootstraps newCfg) (lsRefreshers l)\<rparr>
      in fold (\<lambda>b r. then_do r (stopStale b newCfg)) old (Done l))"

definition RefreshClusters :: "string list \<Rightarrow> Config \<Rightarrow> Listener \<Rightarrow> Listener outcome" where
  "RefreshClusters old newCfg l =
     (let l = l\<lparr>lsRouter := Router_UpdateConfig newCfg (lsRouter l),
                lsRebalancer := map_option (ar_UpdateConfig newCfg) (lsRebalancer l)\<rparr>;
          auto = hasAutoRebalance newCfg;
          r = (if \<not> lsHasChecker l then Done l
               else (case lsRebalancer l of
                       None \<Rightarrow>
                         if auto then
                           let rb = New_AutoRebalancer newCfg in
                           Done (l\<lparr>lsRebalancer := Some (if lsListening l then ar_Start rb else rb)\<rparr>)
                         else Done l
                     | Some rb \<Rightarrow>
                         if \<not> auto then
                           (case ar_Stop rb of
                              (StopBlocks, rb) \<Rightarrow> Blocks (l\<lparr>lsRebalancer := Some rb\<rparr>)
                            | (StopReturns, _) \<Rightarrow> Done (l\<lparr>lsRebalancer := None\<rparr>))
                         else Done l))
      in then_do r (syncBootstraps old newCfg))"

text \<open>The listener's part of the reload callback in \<open>main\<close>, which runs for a non-empty diff.\<close>

definition reload_listener :: "string list \<Rightarrow> Config \<Rightarrow> Listener \<Rightarrow> Listener outcome" where
  "reload_listener old newCfg l = then_do (SetHealthChecker newCfg True l) (RefreshClusters old newCfg)"

section \<open>Refreshers follow the configuration\<close>

lemma addBootstrap_fold:
  "\<exists>ys. fold addBootstrap bs (set xs, xs) = (set ys, ys) \<and> set ys = set xs \<union> (set bs - {''''})
     \<and> (distinct xs \<longrightarrow> distinct ys)"
proof (induction bs arbitrary: xs)
  case Nil
  show ?case by simp
next
  case (Cons b bs)
  define zs where "zs = (if b = '''' \<or> b \<in> set xs then xs else xs @ [b])"
  have "addBootstrap b (set xs, xs) = (set zs, zs)" by (simp add: addBootstrap_def zs_def)
  moreover have "set zs = set xs \<union> ({b} - {''''})" "distinct xs \<longrightarrow> distinct zs" by (auto simp: zs_def)
  ultimately show ?case using Cons.IH [of zs] by auto
qed

lemma allConfigBootstraps_fold:
  "\<exists>ys. fold (\<lambda>(_, cc) acc. fold addBootstrap (clusterBootstraps cc) acc) cs (set xs, xs) = (set ys, ys)
     \<and> set ys = set xs \<union> (\<Union>(n, cc)\<in>set cs. set (clusterBootstraps cc) - {''''}) \<and> (distinct xs \<longrightarrow> distinct ys)"
proof (induction cs arbitrary: xs)
  case Nil
  show ?case by simp
next
  case (Cons c cs)
  obtain n cc where c: "c = (n, cc)" by fastforce
  obtain zs where z: "fold addBootstrap (clusterBootstraps cc) (set xs, xs) = (set zs, zs)"
    "set zs = set xs \<union> (set (clusterBootstraps cc) - {''''})" "distinct xs \<longrightarrow> distinct zs"
    using addBootstrap_fold by blast
  show ?case using Cons.IH [of zs] z by (auto simp: c)
qed

lemma allConfigBootstraps_exact:
  "set (allConfigBootstraps cfg) = (\<Union>(n, cc)\<in>set (Clusters cfg). set (clusterBootstraps cc) - {''''})
    \<and> distinct (allConfigBootstraps cfg)"
proof -
  obtain ys where "fold (\<lambda>(_, cc) acc. fold addBootstrap (clusterBootstraps cc) acc) (Clusters cfg) ({}, []) = (set ys, ys)"
    "set ys = (\<Union>(n, cc)\<in>set (Clusters cfg). set (clusterBootstraps cc) - {[]})" "distinct ys"
    using allConfigBootstraps_fold [of "Clusters cfg" "[]"] by (elim exE conjE) simp
  then show ?thesis unfolding allConfigBootstraps_def ls_clusterBootstraps_eq by (simp only: snd_conv)
qed

lemma ActiveClusters_start [simp]: "ActiveClusters (StartBackgroundRefresh b s) = insert b (ActiveClusters s)"
  by (auto simp: ActiveClusters_def StartBackgroundRefresh_def split: option.splits)

lemma start_if_reach: "rf_reach s \<Longrightarrow> rf_reach (if P b then StartBackgroundRefresh b s else s)"
  by (simp add: rf_start)

lemma rf_reach_start_fold:
  "rf_reach s \<Longrightarrow> rf_reach (fold (\<lambda>b rs. if P b then StartBackgroundRefresh b rs else rs) bs s)
     \<and> ActiveClusters (fold (\<lambda>b rs. if P b then StartBackgroundRefresh b rs else rs) bs s) = ActiveClusters s \<union> {b \<in> set bs. P b}"
proof (induction bs arbitrary: s)
  case Nil
  then show ?case by simp
next
  case (Cons b bs)
  let ?s = "if P b then StartBackgroundRefresh b s else s"
  have a: "ActiveClusters ?s = ActiveClusters s \<union> {x \<in> {b}. P x}" by auto
  have "{x \<in> set (b # bs). P x} = {x \<in> {b}. P x} \<union> {x \<in> set bs. P x}" by auto
  then show ?case using Cons.IH [OF start_if_reach [OF Cons.prems, of P b]] unfolding a by (simp add: Un_assoc)
qed

lemma stop_active:
  assumes "StopBackgroundRefresh b s = Inr s'"
  shows "ActiveClusters s' = ActiveClusters s - {b}"
  using assms by (auto simp: StopBackgroundRefresh_def ActiveClusters_def split: option.splits sum.splits if_splits)

lemma stopStale_fold:
  "rf_reach (lsRefreshers l) \<Longrightarrow>
   \<exists>l'. fold (\<lambda>b r. then_do r (stopStale b newCfg)) old (Done l) = Done l' \<and> rf_reach (lsRefreshers l')
     \<and> ActiveClusters (lsRefreshers l') = ActiveClusters (lsRefreshers l) - (set old - set (allConfigBootstraps newCfg))
     \<and> lsRebalancer l' = lsRebalancer l \<and> lsHasChecker l' = lsHasChecker l"
proof (induction old arbitrary: l)
  case Nil
  then show ?case by simp
next
  case (Cons b old)
  show ?case
  proof (cases "b \<in> set (allConfigBootstraps newCfg)")
    case True
    then show ?thesis using Cons.IH [OF Cons.prems] by (auto simp: stopStale_def)
  next
    case False
    obtain rs where rs: "StopBackgroundRefresh b (lsRefreshers l) = Inr rs"
      using stop_no_panic [OF rf_reach_inv [OF Cons.prems]] by blast
    define l1 where "l1 = l\<lparr>lsRefreshers := rs, lsRouter := (lsRouter l)\<lparr>rtCache := Invalidate (rtCache (lsRouter l)) b\<rparr>\<rparr>"
    have "stopStale b newCfg l = Done l1" using False rs by (simp add: stopStale_def l1_def)
    moreover have "rf_reach (lsRefreshers l1)" using rf_stop [OF Cons.prems rs] by (simp add: l1_def)
    moreover have "ActiveClusters (lsRefreshers l1) = ActiveClusters (lsRefreshers l) - {b}"
      using stop_active [OF rs] by (simp add: l1_def)
    ultimately show ?thesis using Cons.IH [of l1] False by (auto simp: l1_def)
  qed
qed

lemma syncBootstraps_active:
  assumes "rf_reach (lsRefreshers l)" and "set old = ActiveClusters (lsRefreshers l)"
  shows "\<exists>l'. syncBootstraps old newCfg l = Done l' \<and> ActiveClusters (lsRefreshers l') = set (allConfigBootstraps newCfg)
    \<and> rf_reach (lsRefreshers l') \<and> lsRebalancer l' = lsRebalancer l \<and> lsHasChecker l' = lsHasChecker l"
proof -
  let ?rs = "fold (\<lambda>b rs. if b \<notin> set old then StartBackgroundRefresh b rs else rs) (allConfigBootstraps newCfg) (lsRefreshers l)"
  define l1 where "l1 = l\<lparr>lsRouter := (lsRouter l)\<lparr>rtCache := ConfigureSASL newCfg (rtCache (lsRouter l))\<rparr>, lsRefreshers := ?rs\<rparr>"
  have r: "rf_reach (lsRefreshers l1)" "ActiveClusters (lsRefreshers l1) = set old \<union> {b \<in> set (allConfigBootstraps newCfg). b \<notin> set old}"
    using rf_reach_start_fold [OF assms(1), of "\<lambda>b. b \<notin> set old"] assms(2) by (simp_all add: l1_def)
  have "syncBootstraps old newCfg l = fold (\<lambda>b r. then_do r (stopStale b newCfg)) old (Done l1)"
    by (simp add: syncBootstraps_def l1_def Let_def)
  then show ?thesis using stopStale_fold [OF r(1), of newCfg old] r(2) by (auto simp: l1_def)
qed

text \<open>No reload opens or closes a port.\<close>

lemma syncBootstraps_keeps_ports:
  assumes "syncBootstraps old newCfg l = Done l'"
  shows "lsOpen l' = lsOpen l \<and> lsPortMap l' = lsPortMap l"
proof -
  have stop: "lsOpen b = lsOpen a \<and> lsPortMap b = lsPortMap a" if "stopStale x newCfg a = Done b" for x a b
    using that by (auto simp: stopStale_def split: if_splits sum.splits)
  have bad: "fold (\<lambda>b r. then_do r (stopStale b newCfg)) bs (Blocks a) \<noteq> Done l'"
    "fold (\<lambda>b r. then_do r (stopStale b newCfg)) bs (Panics e) \<noteq> Done l'" for bs a e
    by (induction bs) auto
  have "fold (\<lambda>b r. then_do r (stopStale b newCfg)) bs (Done a) = Done l' \<Longrightarrow> lsOpen l' = lsOpen a \<and> lsPortMap l' = lsPortMap a" for bs a
  proof (induction bs arbitrary: a)
    case (Cons x bs)
    have run: "fold (\<lambda>b r. then_do r (stopStale b newCfg)) bs (stopStale x newCfg a) = Done l'" using Cons.prems by simp
    then obtain b where b: "stopStale x newCfg a = Done b" using bad by (cases "stopStale x newCfg a") simp_all
    from Cons.IH [of b] run stop [OF b] show ?case by (simp add: b)
  qed simp
  from this [of old] assms show ?thesis unfolding syncBootstraps_def Let_def by fastforce
qed

lemma reload_keeps_ports:
  assumes "reload_listener old newCfg l = Done l'"
  shows "lsOpen l' = lsOpen l \<and> lsPortMap l' = lsPortMap l"
proof -
  obtain l1 where l1: "SetHealthChecker newCfg True l = Done l1" "RefreshClusters old newCfg l1 = Done l'"
    using assms by (cases "SetHealthChecker newCfg True l") (auto simp: reload_listener_def)
  have a: "lsOpen l1 = lsOpen l \<and> lsPortMap l1 = lsPortMap l"
    using l1(1) by (auto simp: SetHealthChecker_def Let_def split: if_splits option.splits prod.splits stop_result.splits)
  obtain l2 where "syncBootstraps old newCfg l2 = Done l'" "lsOpen l2 = lsOpen l1 \<and> lsPortMap l2 = lsPortMap l1"
    using l1(2) by (auto simp: RefreshClusters_def Let_def split: if_splits option.splits prod.splits stop_result.splits)
  then show ?thesis using a syncBootstraps_keeps_ports by metis
qed

section \<open>Properties\<close>

lemma ar_Stop_running: "arLoops rb = 1 \<Longrightarrow> \<not> arStopped rb \<Longrightarrow> \<not> arDone rb \<Longrightarrow> \<exists>rb'. ar_Stop rb = (StopReturns, rb')"
  by (simp add: ar_Stop_def loop_exit_def)

lemma ar_Stop_fresh: "arLoops rb = 0 \<Longrightarrow> \<not> arStopped rb \<Longrightarrow> \<not> arDone rb \<Longrightarrow> \<exists>rb'. ar_Stop rb = (StopBlocks, rb')"
  by (simp add: ar_Stop_def loop_exit_def)

text \<open>
  C26. Hot reload breaks automatic rebalancing and then itself. A listener created and started the
  way \<open>main\<close> does it, for a configuration with automatic rebalancing, runs one rebalancing loop. A
  reload that keeps automatic rebalancing on syncs the metadata refreshers exactly with the
  bootstraps of the new configuration, but opens no port of a new cluster and closes none of a removed
  one, and leaves a rebalancer whose loop nobody starts: no health
  change moves weights any more. The next such reload waits for ever for that loop to end, so the
  reload callback never returns, and closing the listener waits for ever as well.
\<close>
theorem reload_breaks_rebalancing:
  fixes l :: Listener and rb :: AutoRebalancer
  assumes "hasAutoRebalance cfg0" and "hasAutoRebalance cfg1" and "hasAutoRebalance cfg2"
    and "list_all (\<lambda>(name, _). opens name) (Clusters cfg0)"
    and "lsRebalancer l = Some rb" and "arLoops rb = 1" and "\<not> arStopped rb" and "\<not> arDone rb"
    and "rf_reach (lsRefreshers l)" and "enumerates old (rsMap (lsRefreshers l))"
  shows "(\<exists>l1 l2 rb2. SetHealthChecker cfg0 True (NewListener cfg0) = Done l1 \<and> ls_Start opens cfg0 l1 = Inr l2
        \<and> lsRebalancer l2 = Some rb2 \<and> arLoops rb2 = 1 \<and> \<not> arStopped rb2 \<and> \<not> arDone rb2
        \<and> rf_reach (lsRefreshers l2) \<and> ActiveClusters (lsRefreshers l2) = set (allConfigBootstraps cfg0))
    \<and> (\<exists>l' rb'. reload_listener old cfg1 l = Done l' \<and> lsOpen l' = lsOpen l \<and> lsPortMap l' = lsPortMap l
        \<and> ActiveClusters (lsRefreshers l') = (\<Union>(n, cc)\<in>set (Clusters cfg1). set (clusterBootstraps cc) - {''''})
        \<and> lsRebalancer l' = Some rb' \<and> arLoops rb' = 0
        \<and> (\<forall>old'. \<exists>l''. reload_listener old' cfg2 l' = Blocks l'') \<and> (\<exists>l''. ls_Close l' = Blocks l''))"
proof
  define l0 where "l0 = NewListener cfg0"
  have n: "lsRebalancer l0 = None" "rf_reach (lsRefreshers l0)" "ActiveClusters (lsRefreshers l0) = set (allConfigBootstraps cfg0)"
    using rf_reach_start_fold [OF rf_init, of "\<lambda>_. True" "allConfigBootstraps cfg0"]
    by (simp_all add: l0_def NewListener_def initRouting_def Let_def no_refreshers_def ActiveClusters_def)
  have s: "SetHealthChecker cfg0 True l0 = Done (l0\<lparr>lsHasChecker := True, lsRebalancer := Some (New_AutoRebalancer cfg0)\<rparr>)"
    using n(1) assms(1) by (simp add: SetHealthChecker_def Let_def)
  show "\<exists>l1 l2 rb2. SetHealthChecker cfg0 True (NewListener cfg0) = Done l1 \<and> ls_Start opens cfg0 l1 = Inr l2
        \<and> lsRebalancer l2 = Some rb2 \<and> arLoops rb2 = 1 \<and> \<not> arStopped rb2 \<and> \<not> arDone rb2
        \<and> rf_reach (lsRefreshers l2) \<and> ActiveClusters (lsRefreshers l2) = set (allConfigBootstraps cfg0)"
    unfolding l0_def [symmetric] s using n assms(4)
    by (simp add: ls_Start_def ar_Start_def New_AutoRebalancer_def)
next
  obtain rbs where st: "ar_Stop rb = (StopReturns, rbs)" using ar_Stop_running [OF assms(6-8)] by blast
  define l1 where "l1 = l\<lparr>lsHasChecker := True, lsRebalancer := Some (New_AutoRebalancer cfg1)\<rparr>"
  define l2 where "l2 = l1\<lparr>lsRouter := Router_UpdateConfig cfg1 (lsRouter l1),
      lsRebalancer := Some (ar_UpdateConfig cfg1 (New_AutoRebalancer cfg1))\<rparr>"
  have "SetHealthChecker cfg1 True l = Done l1" using assms(2,5) st by (simp add: SetHealthChecker_def l1_def Let_def)
  moreover have "RefreshClusters old cfg1 l1 = syncBootstraps old cfg1 l2"
    using assms(2) by (simp add: RefreshClusters_def l2_def l1_def Let_def)
  moreover have "set old = ActiveClusters (lsRefreshers l2)"
    using assms(10) by (simp add: enumerates_def ActiveClusters_def l2_def l1_def)
  moreover have "rf_reach (lsRefreshers l2)" using assms(9) by (simp add: l2_def l1_def)
  ultimately obtain l' where r: "reload_listener old cfg1 l = Done l'" "ActiveClusters (lsRefreshers l') = set (allConfigBootstraps cfg1)"
    "lsRebalancer l' = lsRebalancer l2" using syncBootstraps_active [of l2 old cfg1] by (auto simp: reload_listener_def)
  define rb' where "rb' = ar_UpdateConfig cfg1 (New_AutoRebalancer cfg1)"
  have rb': "lsRebalancer l' = Some rb'" "arLoops rb' = 0" "\<not> arStopped rb'" "\<not> arDone rb'"
    using r(3) by (simp_all add: l2_def rb'_def ar_UpdateConfig_def New_AutoRebalancer_def)
  obtain rbb where sb: "ar_Stop rb' = (StopBlocks, rbb)" using ar_Stop_fresh [OF rb'(2-4)] by blast
  have "\<exists>l''. reload_listener old' cfg2 l' = Blocks l''" for old'
    using assms(3) rb'(1) sb by (simp add: reload_listener_def SetHealthChecker_def Let_def)
  moreover have "\<exists>l''. ls_Close l' = Blocks l''" using rb'(1) sb by (simp add: ls_Close_def)
  ultimately show "\<exists>l' rb'. reload_listener old cfg1 l = Done l' \<and> lsOpen l' = lsOpen l \<and> lsPortMap l' = lsPortMap l
        \<and> ActiveClusters (lsRefreshers l') = (\<Union>(n, cc)\<in>set (Clusters cfg1). set (clusterBootstraps cc) - {''''})
        \<and> lsRebalancer l' = Some rb' \<and> arLoops rb' = 0
        \<and> (\<forall>old'. \<exists>l''. reload_listener old' cfg2 l' = Blocks l'') \<and> (\<exists>l''. ls_Close l' = Blocks l'')"
    using r(1,2) rb'(1,2) reload_keeps_ports [OF r(1)] allConfigBootstraps_exact [of cfg1] by (intro exI [of _ l'] exI [of _ rb']) simp
qed

abbreviation demo_cfg :: Config where
  "demo_cfg \<equiv> (rtCfg demo_router)\<lparr>Clusters := [(''logistics'', sample_logistics)]\<rparr>"

definition demo_listener :: Listener where
  "demo_listener = \<lparr>lsPortMap = Map.empty, lsRouter = demo_router, lsRefreshers = no_refreshers,
     lsRebalancer = Some (ar_Start (New_AutoRebalancer demo_cfg)), lsHasChecker = True, lsListening = True, lsOpen = {''logistics''}, lsShutdown = False\<rparr>"

theorem reload_breaks_rebalancing_witness:
  "\<exists>l'. reload_listener [] demo_cfg demo_listener = Done l' \<and> (\<forall>old'. \<exists>l''. reload_listener old' demo_cfg l' = Blocks l'')"
proof -
  have a: "hasAutoRebalance demo_cfg"
    by (simp add: hasAutoRebalance_def sample_logistics_def sample_hc_def mode_defs)
  have o: "list_all (\<lambda>(name, _). True) (Clusters demo_cfg)" by simp
  have l: "lsRebalancer demo_listener = Some (ar_Start (New_AutoRebalancer demo_cfg))" "rf_reach (lsRefreshers demo_listener)"
    "enumerates [] (rsMap (lsRefreshers demo_listener))"
    using rf_init by (simp_all add: demo_listener_def no_refreshers_def enumerates_def)
  have s: "arLoops (ar_Start (New_AutoRebalancer demo_cfg)) = 1" "\<not> arStopped (ar_Start (New_AutoRebalancer demo_cfg))"
    "\<not> arDone (ar_Start (New_AutoRebalancer demo_cfg))"
    by (simp_all add: ar_Start_def New_AutoRebalancer_def)
  from reload_breaks_rebalancing [OF a a a o l(1) s l(2,3)] show ?thesis by blast
qed

end
