(* ===== verification/Readers.thy ===== *)
theory Readers
  imports Net
begin

text \<open>
  The reader that hands a connection back with its first bytes in front, \<^verbatim>\<open>internal/proxy/connection.go\<close>
  from \<open>bytesReader\<close> on: a \<open>byteReader\<close> over the bytes already read, chained before the client
  connection by \<^verbatim>\<open>io.MultiReader\<close>, in a \<open>readWriteConn\<close> whose writes go to the connection itself. A
  \<open>Read\<close> of a connection returns any non-empty part of what is there: \<open>k\<close> bounds it at \<open>Suc k\<close> bytes, and
  a stream of such bounds stands for every way the network can cut the data. \<open>io.ReadFull\<close> loops over
  \<open>Read\<close>, so it takes fuel, one unit per turn.
\<close>

section \<open>Readers\<close>

record byteReader =
  brData :: "byte list"
  brPos :: nat

datatype io_reader = Bytes byteReader | Client

record readWriteConn =
  rwReaders :: "io_reader list"
  rwConn :: conn

definition bytesReader :: "byte list \<Rightarrow> byteReader" where
  "bytesReader data = \<lparr>brData = data, brPos = 0\<rparr>"

definition byteReader_Read :: "nat \<Rightarrow> byteReader \<Rightarrow> byte list \<times> error option \<times> byteReader" where
  "byteReader_Read plen r =
     (if length (brData r) \<le> brPos r then ([], Some ErrEOF, r)
      else let p = take plen (drop (brPos r) (brData r)) in (p, None, r\<lparr>brPos := brPos r + length p\<rparr>))"

definition conn_Read :: "nat \<Rightarrow> nat \<Rightarrow> conn \<Rightarrow> byte list \<times> error option \<times> conn" where
  "conn_Read k plen c =
     (if cin c = [] then ([], Some ErrEOF, c)
      else let n = min plen (Suc k) in (take n (cin c), None, c\<lparr>cin := drop n (cin c)\<rparr>))"

definition reader_Read :: "nat \<Rightarrow> nat \<Rightarrow> io_reader \<Rightarrow> conn \<Rightarrow> byte list \<times> error option \<times> io_reader \<times> conn" where
  "reader_Read k plen r c =
     (case r of
        Bytes b \<Rightarrow> (case byteReader_Read plen b of (p, err, b) \<Rightarrow> (p, err, Bytes b, c))
      | Client \<Rightarrow> (case conn_Read k plen c of (p, err, c) \<Rightarrow> (p, err, Client, c)))"

text \<open>\<open>io.MultiReader\<close>: a reader at its end is dropped and the next one is asked.\<close>

fun MultiReader_Read :: "nat \<Rightarrow> nat \<Rightarrow> io_reader list \<Rightarrow> conn \<Rightarrow> byte list \<times> error option \<times> io_reader list \<times> conn" where
  "MultiReader_Read k plen [] c = ([], Some ErrEOF, [], c)"
| "MultiReader_Read k plen (r # rs) c =
     (case reader_Read k plen r c of (p, err, r, c) \<Rightarrow>
        let rs' = (if err = Some ErrEOF then rs else r # rs) in
        if p \<noteq> [] \<or> err \<noteq> Some ErrEOF
        then (p, if err = Some ErrEOF \<and> rs' \<noteq> [] then None else err, rs', c)
        else MultiReader_Read k plen rs c)"

definition rw_Read :: "nat \<Rightarrow> nat \<Rightarrow> readWriteConn \<Rightarrow> byte list \<times> error option \<times> readWriteConn" where
  "rw_Read k plen rw =
     (case MultiReader_Read k plen (rwReaders rw) (rwConn rw) of
        (p, err, rs, c) \<Rightarrow> (p, err, rw\<lparr>rwReaders := rs, rwConn := c\<rparr>))"

definition rw_Write :: "byte list \<Rightarrow> readWriteConn \<Rightarrow> error option \<times> readWriteConn" where
  "rw_Write bs rw = (case conn_Write bs (rwConn rw) of (err, c) \<Rightarrow> (err, rw\<lparr>rwConn := c\<rparr>))"

text \<open>The connection the handler passes to the router.\<close>

definition prepend :: "byte list \<Rightarrow> conn \<Rightarrow> readWriteConn" where
  "prepend firstBytes c = \<lparr>rwReaders = [Bytes (bytesReader firstBytes), Client], rwConn = c\<rparr>"

text \<open>\<open>io.ReadFull\<close> of \<open>n\<close> bytes; \<open>acc\<close> is the part of the buffer already filled.\<close>

fun rw_ReadFull :: "nat \<Rightarrow> (nat \<Rightarrow> nat) \<Rightarrow> nat \<Rightarrow> byte list \<Rightarrow> readWriteConn \<Rightarrow> ((error + byte list) \<times> readWriteConn) option" where
  "rw_ReadFull 0 ks n acc rw = None"
| "rw_ReadFull (Suc fuel) ks n acc rw =
     (if n \<le> length acc then Some (Inr acc, rw)
      else case rw_Read (ks 0) (n - length acc) rw of
             (p, None, rw) \<Rightarrow> rw_ReadFull fuel (\<lambda>i. ks (Suc i)) n (acc @ p) rw
           | (p, Some e, rw) \<Rightarrow> if n \<le> length (acc @ p) then Some (Inr (acc @ p), rw) else Some (Inl e, rw))"

section \<open>The connection it stands for\<close>

fun pending :: "io_reader list \<Rightarrow> conn \<Rightarrow> byte list" where
  "pending [] c = []"
| "pending (Bytes b # rs) c = drop (brPos b) (brData b) @ pending rs c"
| "pending (Client # rs) c = cin c"

definition rw_abs :: "readWriteConn \<Rightarrow> conn" where
  "rw_abs rw = (rwConn rw)\<lparr>cin := pending (rwReaders rw) (rwConn rw)\<rparr>"

text \<open>The client connection is the last reader, and it is dropped only at its end.\<close>

fun rw_ok :: "io_reader list \<Rightarrow> bool" where
  "rw_ok [] = True"
| "rw_ok [Client] = True"
| "rw_ok [Bytes b, Client] = True"
| "rw_ok _ = False"

lemma rw_abs_prepend [simp]: "rw_abs (prepend bs c) = c\<lparr>cin := bs @ cin c\<rparr>"
  by (simp add: rw_abs_def prepend_def bytesReader_def)

lemma rw_ok_prepend [simp]: "rw_ok (rwReaders (prepend bs c))"
  by (simp add: prepend_def)

lemma rw_abs_Write:
  "rw_Write bs rw = (err, rw') \<Longrightarrow> conn_Write bs (rw_abs rw) = (err, rw_abs rw') \<and> rwReaders rw' = rwReaders rw"
proof -
  have p: "pending rs (c\<lparr>cout := x, cwok := y\<rparr>) = pending rs c" for rs c x y by (induction rs c rule: pending.induct) auto
  show "rw_Write bs rw = (err, rw') \<Longrightarrow> ?thesis"
    by (auto simp: rw_Write_def conn_Write_def rw_abs_def p split: if_splits)
qed

text \<open>
  A read into a non-empty buffer either takes a non-empty part off the front, or finds nothing left.
\<close>

lemma take_drop_split: "drop m xs = take n (drop m xs) @ drop (m + n) xs"
  by (metis add.commute append_take_drop_id drop_drop)

lemma MultiReader_Read_cases:
  assumes "rw_ok rs" and "0 < plen" and "MultiReader_Read k plen rs c = (p, err, rs', c')"
  shows "rw_ok rs' \<and> cout c' = cout c \<and> cwok c' = cwok c
    \<and> (err = None \<and> p \<noteq> [] \<and> length p \<le> plen \<and> pending rs c = p @ pending rs' c'
       \<or> err = Some ErrEOF \<and> p = [] \<and> pending rs c = [] \<and> pending rs' c' = [])"
  using assms
  by (cases rs rule: rw_ok.cases)
     (auto simp: reader_Read_def byteReader_Read_def conn_Read_def Let_def min_def intro: take_drop_split split: if_splits)

lemma rw_Read_cases:
  assumes "rw_ok (rwReaders rw)" and "0 < plen" and "rw_Read k plen rw = (p, err, rw')"
  shows "rw_ok (rwReaders rw') \<and> (\<exists>d. rw_abs rw = d\<lparr>cin := p @ cin (rw_abs rw')\<rparr> \<and> rw_abs rw' = d\<lparr>cin := cin (rw_abs rw')\<rparr>)
    \<and> (err = None \<and> p \<noteq> [] \<and> length p \<le> plen \<or> err = Some ErrEOF \<and> p = [] \<and> cin (rw_abs rw') = [])"
proof -
  obtain rs c where m: "MultiReader_Read k plen (rwReaders rw) (rwConn rw) = (p, err, rs, c)" and rw': "rw' = rw\<lparr>rwReaders := rs, rwConn := c\<rparr>"
    using assms(3) by (auto simp: rw_Read_def split: prod.splits)
  note facts = MultiReader_Read_cases [OF assms(1,2) m]
  have "(rwConn rw)\<lparr>cin := x\<rparr> = c\<lparr>cin := x\<rparr>" for x using facts by (cases c; cases "rwConn rw") simp
  then show ?thesis using facts by (auto simp: rw' rw_abs_def intro!: exI [of _ c])
qed

text \<open>
  With more fuel than bytes wanted, \<open>io.ReadFull\<close> ends, and as it would on the connection it stands for.
\<close>

lemma rw_ReadFull_ends:
  assumes "rw_ok (rwReaders rw)" and "n - length acc < fuel" and "length acc \<le> n"
  shows "\<exists>r rw'. rw_ReadFull fuel ks n acc rw = Some (r, rw') \<and> rw_ok (rwReaders rw')
    \<and> ReadFull n ((rw_abs rw)\<lparr>cin := acc @ cin (rw_abs rw)\<rparr>) = (r, rw_abs rw')"
  using assms
proof (induction fuel arbitrary: ks acc rw)
  case (Suc fuel)
  show ?case
  proof (cases "n = length acc")
    case True
    then show ?thesis using Suc.prems(1) by (simp add: ReadFull_def)
  next
    case False
    obtain p err rw1 where rd: "rw_Read (ks 0) (n - length acc) rw = (p, err, rw1)" by (metis prod_cases3)
    obtain d where d: "rw_abs rw = d\<lparr>cin := p @ cin (rw_abs rw1)\<rparr>" "rw_abs rw1 = d\<lparr>cin := cin (rw_abs rw1)\<rparr>"
      and ok: "rw_ok (rwReaders rw1)"
      and alt: "err = None \<and> p \<noteq> [] \<and> length p \<le> n - length acc \<or> err = Some ErrEOF \<and> p = [] \<and> cin (rw_abs rw1) = []"
      using rw_Read_cases [OF Suc.prems(1) _ rd] False Suc.prems(3) by auto
    have same: "(rw_abs rw)\<lparr>cin := acc @ cin (rw_abs rw)\<rparr> = (rw_abs rw1)\<lparr>cin := (acc @ p) @ cin (rw_abs rw1)\<rparr>"
      by (subst d(1), subst d(1), subst (2) d(2)) simp
    from alt show ?thesis
    proof
      assume a: "err = None \<and> p \<noteq> [] \<and> length p \<le> n - length acc"
      have less: "n - length (acc @ p) < fuel" "length (acc @ p) \<le> n"
        using a False Suc.prems(2,3) by (auto simp flip: length_greater_0_conv)
      show ?thesis unfolding same using Suc.IH [OF ok less, of "\<lambda>i. ks (Suc i)"] a False rd Suc.prems(3) by simp
    next
      assume a: "err = Some ErrEOF \<and> p = [] \<and> cin (rw_abs rw1) = []"
      then have "(rw_abs rw1)\<lparr>cin := []\<rparr> = rw_abs rw1" by (cases "rw_abs rw1") simp
      then show ?thesis unfolding same using a False rd ok Suc.prems(3) by (simp add: ReadFull_def)
    qed
  qed
qed simp

section \<open>Using it\<close>

text \<open>
  What the router does with its client: full reads and writes in any order. \<open>kss i\<close> bounds the reads of
  the \<open>i\<close>th operation.
\<close>

datatype io_op = OpReadFull nat | OpWrite "byte list"

fun conn_run :: "io_op list \<Rightarrow> conn \<Rightarrow> (error + byte list) list \<times> conn" where
  "conn_run [] c = ([], c)"
| "conn_run (OpReadFull n # ops) c =
     (case ReadFull n c of (r, c) \<Rightarrow> case conn_run ops c of (rs, c) \<Rightarrow> (r # rs, c))"
| "conn_run (OpWrite bs # ops) c =
     (case conn_Write bs c of (e, c) \<Rightarrow> case conn_run ops c of
        (rs, c) \<Rightarrow> ((case e of None \<Rightarrow> Inr [] | Some e \<Rightarrow> Inl e) # rs, c))"

fun rw_run :: "nat \<Rightarrow> (nat \<Rightarrow> nat \<Rightarrow> nat) \<Rightarrow> io_op list \<Rightarrow> readWriteConn \<Rightarrow> ((error + byte list) list \<times> readWriteConn) option" where
  "rw_run fuel kss [] rw = Some ([], rw)"
| "rw_run fuel kss (OpReadFull n # ops) rw =
     (case rw_ReadFull fuel (kss 0) n [] rw of
        None \<Rightarrow> None
      | Some (r, rw) \<Rightarrow> map_option (\<lambda>(rs, rw). (r # rs, rw)) (rw_run fuel (\<lambda>i. kss (Suc i)) ops rw))"
| "rw_run fuel kss (OpWrite bs # ops) rw =
     (case rw_Write bs rw of (e, rw) \<Rightarrow>
        map_option (\<lambda>(rs, rw). ((case e of None \<Rightarrow> Inr [] | Some e \<Rightarrow> Inl e) # rs, rw)) (rw_run fuel (\<lambda>i. kss (Suc i)) ops rw))"

lemma rw_run_refines:
  assumes "rw_ok (rwReaders rw)" and "\<forall>n. OpReadFull n \<in> set ops \<longrightarrow> n < fuel"
  shows "\<exists>rs rw'. rw_run fuel kss ops rw = Some (rs, rw') \<and> conn_run ops (rw_abs rw) = (rs, rw_abs rw')"
  using assms
proof (induction ops arbitrary: kss rw)
  case (Cons op ops)
  have fuel: "\<forall>n. OpReadFull n \<in> set ops \<longrightarrow> n < fuel" using Cons.prems(2) by simp
  show ?case
  proof (cases op)
    case (OpReadFull n)
    then have "n - length [] < fuel" using Cons.prems(2) by simp
    from rw_ReadFull_ends [OF Cons.prems(1) this, of "kss 0"] obtain r rw1
      where "rw_ReadFull fuel (kss 0) n [] rw = Some (r, rw1)" "ReadFull n (rw_abs rw) = (r, rw_abs rw1)" "rw_ok (rwReaders rw1)"
      by auto
    then show ?thesis using Cons.IH [OF _ fuel, of rw1 "\<lambda>i. kss (Suc i)"] by (auto simp: OpReadFull)
  next
    case (OpWrite bs)
    obtain e rw1 where w: "rw_Write bs rw = (e, rw1)" by fastforce
    then show ?thesis using rw_abs_Write [OF w] Cons.prems(1) Cons.IH [OF _ fuel, of rw1 "\<lambda>i. kss (Suc i)"]
      by (auto simp: OpWrite)
  qed
qed simp

text \<open>
  C12. A client connection handed to the router with its first bytes put back in front is the
  connection before those bytes were read: any sequence of full reads and writes through \<open>readWriteConn\<close>
  ends, each read after at most one more turn of \<open>io.ReadFull\<close> than bytes wanted, and gives the same
  results and the same connection as on a connection that still has to deliver those bytes, however the
  network cuts the data.
\<close>
theorem first_bytes_put_back:
  assumes "\<forall>n. OpReadFull n \<in> set ops \<longrightarrow> n < fuel"
  shows "\<exists>rs rw. rw_run fuel kss ops (prepend firstBytes c) = Some (rs, rw)
    \<and> conn_run ops (c\<lparr>cin := firstBytes @ cin c\<rparr>) = (rs, rw_abs rw)"
  using rw_run_refines [OF rw_ok_prepend assms] by simp

theorem first_bytes_put_back_witness:
  "\<exists>rw. rw_run 6 (\<lambda>_ _. 0) [OpReadFull 4, OpWrite [9], OpReadFull 5] (prepend [1, 2] \<lparr>cin = [3, 4, 5], cout = [], cwok = 1\<rparr>)
     = Some ([Inr [1, 2, 3, 4], Inr [], Inl ErrEOF], rw) \<and> cout (rw_abs rw) = [9]"
proof -
  let ?ops = "[OpReadFull 4, OpWrite [9], OpReadFull 5]"
  have "\<forall>n. OpReadFull n \<in> set ?ops \<longrightarrow> n < 6" by auto
  from first_bytes_put_back [OF this, of "\<lambda>_ _. 0" "[1, 2]" "\<lparr>cin = [3, 4, 5], cout = [], cwok = 1\<rparr>"] obtain rs rw
    where "rw_run 6 (\<lambda>_ _. 0) ?ops (prepend [1, 2] \<lparr>cin = [3, 4, 5], cout = [], cwok = 1\<rparr>) = Some (rs, rw)"
      and "rs = [Inr [1, 2, 3, 4], Inr [], Inl ErrEOF]" and "rw_abs rw = \<lparr>cin = [], cout = [9], cwok = 0\<rparr>"
    by (auto simp: ReadFull_def conn_Write_def simp del: rw_run.simps)
  then show ?thesis by (intro exI [of _ rw]) simp
qed

end
