(* ===== verification/Connection.thy ===== *)
theory Connection
  imports DR_System Rebalancer Synthetic_Metadata Sasl Listener Readers
begin

text \<open>
  The life of one client connection, \<^verbatim>\<open>internal/proxy/connection.go\<close>: choosing and dialling the
  upstream, the SASL exchange, the interception of the first Metadata request, the routing of a
  first Produce or Fetch request, and the copying of everything else. The outcomes of dialling,
  the times, the random roll and how far the copying goes are in \<open>conn_env\<close>; what connections share
  is in \<open>ProxyState\<close>. The listener always passes a router, so the router's nil checks succeed.
\<close>

section \<open>State\<close>

record ProxyState =
  pxRebalancers :: "string \<rightharpoonup> Rebalancer"
  pxCounter :: uint64
  pxDrain :: "dm_callback DrainManager option"
  pxRouter :: Router
  pxTopics :: topic_stats
  pxClusters :: cluster_stats

text \<open>
  \<open>ceDial\<close> dials the upstream of the connection, \<open>ceDialMeta\<close> the two clusters of a merged Metadata
  request and \<open>ceDialLeader\<close> the router's connections. \<open>ceId\<close> identifies the connection, \<open>cePut\<close> is
  the time the router puts its connection back, \<open>ceUp\<close> and \<open>ceDown\<close> bound the final copying.
\<close>

record conn_env =
  ceNow :: Time
  cePut :: Time
  ceRoll :: int
  ceId :: nat
  ceDial :: "string \<Rightarrow> error + conn"
  ceDialTLS :: "string \<Rightarrow> error + conn"
  ceDialMeta :: "string \<Rightarrow> error + conn"
  ceDialLeader :: "string \<Rightarrow> error + conn"
  ceUp :: nat
  ceDown :: nat

definition MaxFrameSize :: int where "MaxFrameSize = 104857600"

definition dialUpstream :: "(string \<Rightarrow> error + conn) \<Rightarrow> (string \<Rightarrow> error + conn) \<Rightarrow> string \<Rightarrow> bool \<Rightarrow> error + conn" where
  "dialUpstream tls tcp addr useTLS = (if useTLS then tls addr else tcp addr)"

definition endpointUsesTLS :: "ClusterConfig \<Rightarrow> string \<Rightarrow> bool" where
  "endpointUsesTLS cfg target = False"

section \<open>The upstream of a connection\<close>

definition getRebalancer :: "Time \<Rightarrow> string \<Rightarrow> ClusterConfig \<Rightarrow> ProxyState \<Rightarrow> Rebalancer \<times> ProxyState" where
  "getRebalancer now name cfg s =
     (case pxRebalancers s name of
        Some rb \<Rightarrow> (rb, s)
      | None \<Rightarrow> let rb = NewRebalancer now cfg in (rb, s\<lparr>pxRebalancers := (pxRebalancers s)(name \<mapsto> rb)\<rparr>))"

text \<open>A coordinator: its state machine, its drain manager and the optional controller lookup.\<close>

type_synonym coordinator = "sm_callback StateMachine \<times> dm_callback DrainManager \<times> (string \<Rightarrow> Controller option) option"

definition upstreamTarget :: "ClusterConfig \<Rightarrow> coordinator option \<Rightarrow> string \<Rightarrow> string \<times> string \<times> bool" where
  "upstreamTarget cfg drCoord name =
     (if Mode cfg = ModeActivePassive then
        let fallback = (if Active cfg = ActivePrimary then (Bootstrap (Primary cfg), ''primary'', True)
                        else (Bootstrap (Secondary cfg), ''secondary'', True))
        in (case drCoord of
              None \<Rightarrow> fallback
            | Some (sm, dm, look) \<Rightarrow>
                (case TargetForRouting sm dm look name of (target, ok) \<Rightarrow>
                   if ok then (if target = ActivePrimary then (Bootstrap (Primary cfg), ''primary'', True)
                               else (Bootstrap (Secondary cfg), ''secondary'', True))
                   else fallback))
      else if Mode cfg = ModeLoadBalance then (Bootstrap (Primary cfg), ''primary'', True)
      else if Mode cfg = ModeSingle then (Bootstrap (Primary cfg), ''primary'', True)
      else ('''', '''', False))"

text \<open>\<open>atomic.AddUint64(&selectCounter, 1)\<close> followed by \<open>int(n%100)\<close>.\<close>

definition nextSelect :: "ProxyState \<Rightarrow> int \<times> ProxyState" where
  "nextSelect s = (let n = pxCounter s + 1 in (uint (n mod 100), s\<lparr>pxCounter := n\<rparr>))"

definition hashToPrimary :: "ClusterConfig \<Rightarrow> ProxyState \<Rightarrow> bool \<times> ProxyState" where
  "hashToPrimary cfg s = (case nextSelect s of (n, s) \<Rightarrow> (n < Weight (Primary cfg), s))"

definition selectLoadBalanceTarget :: "Time \<Rightarrow> int \<Rightarrow> string \<Rightarrow> ClusterConfig \<Rightarrow> ProxyState \<Rightarrow>
    (error + string \<times> string \<times> bool) \<times> ProxyState" where
  "selectLoadBalanceTarget now roll name cfg s =
     (let toPrimary = Inr (Bootstrap (Primary cfg), ActivePrimary, True);
          toSecondary = Inr (Bootstrap (Secondary cfg), ActiveSecondary, True) in
      case GetEffectiveWeights name cfg (pxRouter s) of (primW, secW) \<Rightarrow>
        if primW = 0 \<and> 0 < secW then (toSecondary, s)
        else if secW = 0 \<and> 0 < primW then (toPrimary, s)
        else if 0 < primW \<and> 0 < secW then
          (case nextSelect s of (n, s) \<Rightarrow> if n < primW then (toPrimary, s) else (toSecondary, s))
        else
          (case getRebalancer now name cfg s of (rb, s) \<Rightarrow>
             case SelectTarget roll rb of
               Inl e \<Rightarrow> (Inl e, s)
             | Inr addr \<Rightarrow>
                 if addr = epAddr (rbPrimary rb) then (Inr (addr, ActivePrimary, True), s)
                 else (Inr (addr, ActiveSecondary, True), s)))"

definition recordLoadBalanceSuccess :: "Time \<Rightarrow> string \<Rightarrow> ClusterConfig \<Rightarrow> string \<Rightarrow> ProxyState \<Rightarrow> ProxyState" where
  "recordLoadBalanceSuccess now name cfg addr s =
     (if Mode cfg = ModeLoadBalance then
        (case getRebalancer now name cfg s of (rb, s) \<Rightarrow>
           s\<lparr>pxRebalancers := (pxRebalancers s)(name \<mapsto> RB_RecordSuccess now addr rb)\<rparr>)
      else s)"

definition recordLoadBalanceFailure :: "Time \<Rightarrow> string \<Rightarrow> ClusterConfig \<Rightarrow> string \<Rightarrow> ProxyState \<Rightarrow> ProxyState" where
  "recordLoadBalanceFailure now name cfg addr s =
     (if Mode cfg = ModeLoadBalance then
        (case getRebalancer now name cfg s of (rb, s) \<Rightarrow>
           s\<lparr>pxRebalancers := (pxRebalancers s)(name \<mapsto> RB_RecordFailure now addr rb)\<rparr>)
      else s)"

text \<open>The common start of both handlers: choose, register, dial, record.\<close>

definition chooseUpstream :: "conn_env \<Rightarrow> coordinator option \<Rightarrow> string \<Rightarrow> ClusterConfig \<Rightarrow> ProxyState \<Rightarrow>
    (error + string \<times> string \<times> bool) \<times> ProxyState" where
  "chooseUpstream env drCoord name cfg s =
     (if Mode cfg = ModeLoadBalance then selectLoadBalanceTarget (ceNow env) (ceRoll env) name cfg s
      else (Inr (upstreamTarget cfg drCoord name), s))"

definition enterConn :: "string \<Rightarrow> nat \<Rightarrow> string \<Rightarrow> ProxyState \<Rightarrow> uint64 option \<times> ProxyState" where
  "enterConn name i target s =
     (case pxDrain s of
        None \<Rightarrow> (None, s)
      | Some dm \<Rightarrow> (case Register name i target dm of (regID, dm) \<Rightarrow> (Some regID, s\<lparr>pxDrain := Some dm\<rparr>)))"

definition leaveConn :: "string \<Rightarrow> uint64 option \<Rightarrow> ProxyState \<Rightarrow> ProxyState" where
  "leaveConn name reg s =
     (case reg of None \<Rightarrow> s | Some regID \<Rightarrow> s\<lparr>pxDrain := map_option (Unregister name regID) (pxDrain s)\<rparr>)"

definition openUpstream :: "conn_env \<Rightarrow> string \<Rightarrow> ClusterConfig \<Rightarrow> string \<Rightarrow> string \<Rightarrow> ProxyState \<Rightarrow> conn option \<times> ProxyState" where
  "openUpstream env name cfg addr target s =
     (case dialUpstream (ceDialTLS env) (ceDial env) addr (endpointUsesTLS cfg target) of
        Inl _ \<Rightarrow> (None, recordLoadBalanceFailure (ceNow env) name cfg addr s)
      | Inr up \<Rightarrow> (Some up, recordLoadBalanceSuccess (ceNow env) name cfg addr s))"

section \<open>Metadata interception\<close>

text \<open>
  The results: whether the request was intercepted, or a panic. The whole request is the header that
  was already read and the rest of the frame, whose length may come out negative.
\<close>

definition readRequestRest :: "byte list \<Rightarrow> int32 \<Rightarrow> conn \<Rightarrow> (error + byte list) \<times> conn" where
  "readRequestRest firstBytes frameSize client =
     (case make_bytes (sint (frameSize - word_of_nat (length firstBytes - 4))) of
        Inl e \<Rightarrow> (Inl e, client)
      | Inr n \<Rightarrow>
          (case ReadFull n client of
             (Inl e, client) \<Rightarrow> (Inl e, client)
           | (Inr remaining, client) \<Rightarrow> (Inr (firstBytes @ remaining), client)))"

definition handleMetadataActivePassive :: "conn \<Rightarrow> conn \<Rightarrow> byte list \<Rightarrow> int32 \<Rightarrow> string \<Rightarrow> int32 \<Rightarrow> (error + bool) \<times> conn \<times> conn" where
  "handleMetadataActivePassive client up firstBytes frameSize advertiseHost proxyPort =
     (case readRequestRest firstBytes frameSize client of
        (Inl e, client) \<Rightarrow> (if is_panic e then Inl e else Inr False, client, up)
      | (Inr fullReq, client) \<Rightarrow>
          (case conn_Write fullReq up of
             (Some e, up) \<Rightarrow> (Inr False, client, up)
           | (None, up) \<Rightarrow>
               (case ReadFull 4 up of
                  (Inl e, up) \<Rightarrow> (Inr False, client, up)
                | (Inr respSizeBuf, up) \<Rightarrow>
                    let respSize = sint (Uint32 respSizeBuf) in
                    if respSize < 0 \<or> int pool_MaxMetadataResponseSize < respSize then (Inr False, client, up)
                    else
                      (case ReadFull (nat respSize) up of
                         (Inl e, up) \<Rightarrow> (Inr False, client, up)
                       | (Inr respBody, up) \<Rightarrow>
                           let rawResp = respSizeBuf @ respBody; apiVersion = Uint16 (drop 6 fullReq) in
                           (case RewriteMetadataResponse rawResp advertiseHost proxyPort apiVersion of
                              Inl e \<Rightarrow> (Inr True, snd (conn_Write rawResp client), up)
                            | Inr rewritten \<Rightarrow> (Inr True, snd (conn_Write rewritten client), up))))))"

text \<open>The deadline of the exchange is one way in which the answer can end early.\<close>

definition forwardMetadataRequest :: "(string \<Rightarrow> error + conn) \<Rightarrow> string \<Rightarrow> byte list \<Rightarrow> error + byte list" where
  "forwardMetadataRequest dial bootstrap requestFrame =
     (case dial bootstrap of
        Inl e \<Rightarrow> Inl (Wrap ''dial'' e)
      | Inr c \<Rightarrow>
          (case conn_Write requestFrame c of
             (Some e, c) \<Rightarrow> Inl (Wrap ''write request'' e)
           | (None, c) \<Rightarrow>
               (case ReadFull 4 c of
                  (Inl e, c) \<Rightarrow> Inl (Wrap ''read response size'' e)
                | (Inr sizeBuf, c) \<Rightarrow>
                    let respSize = sint (Uint32 sizeBuf) in
                    if respSize < 4 \<or> int pool_MaxMetadataResponseSize < respSize then Inl (Errorf ''invalid response size'')
                    else
                      (case ReadFull (nat respSize) c of
                         (Inl e, c) \<Rightarrow> Inl (Wrap ''read response body'' e)
                       | (Inr respBody, c) \<Rightarrow> Inr (sizeBuf @ respBody)))))"

definition forwardOne :: "(string \<Rightarrow> error + conn) \<Rightarrow> string \<Rightarrow> byte list \<Rightarrow> byte list option" where
  "forwardOne dial bootstrap fullReq =
     (case forwardMetadataRequest dial bootstrap fullReq of Inl _ \<Rightarrow> None | Inr resp \<Rightarrow> Some resp)"

text \<open>A nil primary answer is the empty slice to \<open>SynthesizeMetadataResponse\<close>.\<close>

definition handleMetadataLoadBalance :: "(string \<Rightarrow> error + conn) \<Rightarrow> conn \<Rightarrow> byte list \<Rightarrow> int32 \<Rightarrow> string \<Rightarrow> ClusterConfig \<Rightarrow> int32 \<Rightarrow>
    (error + bool) \<times> conn" where
  "handleMetadataLoadBalance dial client firstBytes frameSize advertiseHost cfg proxyPort =
     (case readRequestRest firstBytes frameSize client of
        (Inl e, client) \<Rightarrow> (if is_panic e then Inl e else Inr False, client)
      | (Inr fullReq, client) \<Rightarrow>
          let apiVersion = Uint16 (drop 6 fullReq);
              priResp = forwardOne dial (Bootstrap (Primary cfg)) fullReq;
              secResp = forwardOne dial (Bootstrap (Secondary cfg)) fullReq
          in if priResp = None \<and> secResp = None then (Inr False, client)
             else
               (case SynthesizeMetadataResponse (case priResp of None \<Rightarrow> [] | Some r \<Rightarrow> r) secResp advertiseHost proxyPort apiVersion of
                  Inl e \<Rightarrow>
                    (case priResp of
                       Some r \<Rightarrow> (Inr True, snd (conn_Write r client))
                     | None \<Rightarrow> (Inr True, snd (conn_Write (the secResp) client)))
                | Inr synthetic \<Rightarrow> (Inr True, snd (conn_Write synthetic client))))"

section \<open>The connection handlers\<close>

text \<open>What the dispatch of the first frame leads to, and how a handler ends.\<close>

datatype frame_end = FrameReturn | FramePanic error | FrameStuck | FrameCopy
datatype conn_end = Ended | Crashed error | Stuck

definition interceptMetadata :: "conn_env \<Rightarrow> ClusterConfig \<Rightarrow> int32 \<Rightarrow> string \<Rightarrow> byte list \<Rightarrow> conn \<Rightarrow> conn \<Rightarrow> (error + bool) \<times> conn \<times> conn" where
  "interceptMetadata env cfg proxyPort advertiseHost firstBytes client up =
     (if Mode cfg = ModeActivePassive
      then handleMetadataActivePassive client up firstBytes (Uint32 firstBytes) advertiseHost proxyPort
      else if Mode cfg = ModeLoadBalance
      then (case handleMetadataLoadBalance (ceDialMeta env) client firstBytes (Uint32 firstBytes) advertiseHost cfg proxyPort of
              (r, client) \<Rightarrow> (r, client, up))
      else (Inr False, client, up))"

text \<open>
  The router gets the client through a \<open>readWriteConn\<close> that has the first bytes in front; it is the connection
  \<open>rw_abs (prepend firstBytes client)\<close>.
\<close>

definition routeFirst :: "conn_env \<Rightarrow> string \<Rightarrow> ClusterConfig \<Rightarrow> byte list \<Rightarrow> conn \<Rightarrow> ProxyState \<Rightarrow> frame_end \<times> conn \<times> ProxyState" where
  "routeFirst env name cfg firstBytes client s =
     (case Route (ceNow env) (cePut env) (ceDialLeader env) (ceUp env) (ceDown env) name cfg
             (rw_abs (prepend firstBytes client)) (pxRouter s) (pxTopics s) of
        (res, client, r, topics) \<Rightarrow>
          let s = s\<lparr>pxRouter := r, pxTopics := topics\<rparr> in
          (case res of
             RouteErr e \<Rightarrow> if is_panic e then (FramePanic e, client, s) else (FrameReturn, client, s)
           | RouteOk \<Rightarrow> (FrameReturn, client, s)
           | RouteBlocked \<Rightarrow> (FrameStuck, client, s)))"

definition countFirst :: "string \<Rightarrow> int16 \<Rightarrow> ProxyState \<Rightarrow> ProxyState" where
  "countFirst target apiKey s =
     (if apiKey = APIKeyProduce then s\<lparr>pxClusters := RecordClusterProduce target (pxClusters s)\<rparr>
      else if apiKey = APIKeyFetch then s\<lparr>pxClusters := RecordClusterFetch target (pxClusters s)\<rparr>
      else s)"

definition handleFirstFrame :: "conn_env \<Rightarrow> string \<Rightarrow> ClusterConfig \<Rightarrow> int32 \<Rightarrow> string \<Rightarrow> string \<Rightarrow> byte list \<Rightarrow> conn \<Rightarrow> conn \<Rightarrow> ProxyState \<Rightarrow>
    frame_end \<times> conn \<times> conn \<times> ProxyState" where
  "handleFirstFrame env name cfg proxyPort advertiseHost target firstBytes client up s =
     (let apiKey = Uint16 (drop 4 firstBytes); frameSize = sint (Uint32 firstBytes);
          s = countFirst target apiKey s; isMeta = (apiKey = APIKeyMetadata \<and> 2 \<le> frameSize) in
      if isMeta \<and> (frameSize < 14 \<or> MaxFrameSize < frameSize) then (FrameReturn, client, up, s)
      else
        (case (if isMeta then interceptMetadata env cfg proxyPort advertiseHost firstBytes client up
               else (Inr False, client, up)) of
           (Inl e, client, up) \<Rightarrow> (FramePanic e, client, up, s)
         | (Inr didIntercept, client, up) \<Rightarrow>
             if \<not> didIntercept \<and> (apiKey = APIKeyProduce \<or> apiKey = APIKeyFetch) then
               (case routeFirst env name cfg firstBytes client s of (e, client, s) \<Rightarrow> (e, client, conn_Close up, s))
             else if \<not> didIntercept then (FrameCopy, client, snd (conn_Write firstBytes up), s)
             else (FrameCopy, client, up, s)))"

text \<open>The copying in both directions; the counters get the number of bytes each one wrote.\<close>

definition copyBoth :: "conn_env \<Rightarrow> string \<Rightarrow> conn \<Rightarrow> conn \<Rightarrow> ProxyState \<Rightarrow> conn \<times> conn \<times> ProxyState" where
  "copyBoth env target client up s =
     (case passthrough (ceUp env) (ceDown env) client up of (client', up') \<Rightarrow>
        (client', up',
         s\<lparr>pxClusters := RecordClusterFetchBytes target (word_of_nat (length (cout client') - length (cout client)))
             (RecordClusterProduceBytes target (word_of_nat (length (cout up') - length (cout up))) (pxClusters s))\<rparr>))"

text \<open>\<open>serve\<close> is the part between the deferred calls: from the SASL exchange on.\<close>

definition serve :: "conn_env \<Rightarrow> string \<Rightarrow> ClusterConfig \<Rightarrow> int32 \<Rightarrow> string \<Rightarrow> string \<Rightarrow> conn \<Rightarrow> conn \<Rightarrow> ProxyState \<Rightarrow>
    conn_end \<times> conn \<times> conn \<times> ProxyState" where
  "serve env name cfg proxyPort advertiseHost target client up s =
     (case HandleSASLExchange False client up of
        (Inl e, _, client, up) \<Rightarrow> (Ended, client, up, s)
      | (Inr result, _, client, up) \<Rightarrow>
          (case handleFirstFrame env name cfg proxyPort advertiseHost target (seHeader result) client up s of
             (FrameReturn, client, up, s) \<Rightarrow> (Ended, client, up, s)
           | (FramePanic e, client, up, s) \<Rightarrow> (Crashed e, client, up, s)
           | (FrameStuck, client, up, s) \<Rightarrow> (Stuck, client, up, s)
           | (FrameCopy, client, up, s) \<Rightarrow>
               (case copyBoth env target client up s of (client, up, s) \<Rightarrow> (Ended, client, up, s))))"

definition serve_plain :: "conn_env \<Rightarrow> string \<Rightarrow> conn \<Rightarrow> conn \<Rightarrow> ProxyState \<Rightarrow> conn_end \<times> conn \<times> conn \<times> ProxyState" where
  "serve_plain env target client up s =
     (case passthrough (ceUp env) (ceDown env) client up of (client, up) \<Rightarrow> (Ended, client, up, s))"

text \<open>
  The frame around them: choose and open the upstream, then run the deferred calls in reverse order.
  The result has the upstream connection when one was opened. A handler that is stuck has not run
  its deferred calls; a panic ends the process.
\<close>

definition withUpstream :: "(string \<Rightarrow> conn \<Rightarrow> conn \<Rightarrow> ProxyState \<Rightarrow> conn_end \<times> conn \<times> conn \<times> ProxyState) \<Rightarrow>
    conn_env \<Rightarrow> coordinator option \<Rightarrow> string \<Rightarrow> ClusterConfig \<Rightarrow> conn \<Rightarrow> ProxyState \<Rightarrow>
    conn_end \<times> conn \<times> conn option \<times> ProxyState" where
  "withUpstream body env drCoord name cfg client s =
     (case chooseUpstream env drCoord name cfg s of
        (Inl e, s) \<Rightarrow> (Crashed e, client, None, s)
      | (Inr (addr, target, ok), s) \<Rightarrow>
          if \<not> ok \<or> addr = '''' then (Ended, conn_Close client, None, s)
          else
            (case enterConn name (ceId env) target s of
               (reg, s) \<Rightarrow>
                 (case openUpstream env name cfg addr target s of
                    (None, s) \<Rightarrow> (Ended, conn_Close client, None, leaveConn name reg s)
                  | (Some up, s) \<Rightarrow>
                      (case body target client up s of
                         (Ended, client, up, s) \<Rightarrow> (Ended, conn_Close client, Some (conn_Close up), leaveConn name reg s)
                       | (e, client, up, s) \<Rightarrow> (e, client, Some up, s)))))"

definition handleConnection :: "conn_env \<Rightarrow> string \<Rightarrow> ClusterConfig \<Rightarrow> int32 \<Rightarrow> string \<Rightarrow> coordinator option \<Rightarrow> conn \<Rightarrow> ProxyState \<Rightarrow>
    conn_end \<times> conn \<times> conn option \<times> ProxyState" where
  "handleConnection env name cfg proxyPort advertiseHost drCoord client s =
     withUpstream (serve env name cfg proxyPort advertiseHost) env drCoord name cfg client s"

definition handlePlaintextConnection :: "conn_env \<Rightarrow> string \<Rightarrow> ClusterConfig \<Rightarrow> coordinator option \<Rightarrow> conn \<Rightarrow> ProxyState \<Rightarrow>
    conn_end \<times> conn \<times> conn option \<times> ProxyState" where
  "handlePlaintextConnection env name cfg drCoord client s = withUpstream (serve_plain env) env drCoord name cfg client s"

text \<open>The listener's part: the cluster of the port, looked up in the current configuration.\<close>

definition ls_handleConnection :: "conn_env \<Rightarrow> Config \<Rightarrow> string \<Rightarrow> coordinator option \<Rightarrow> conn \<Rightarrow> ProxyState \<Rightarrow>
    conn_end \<times> conn \<times> conn option \<times> ProxyState" where
  "ls_handleConnection env cfg name drCoord client s =
     (case map_of (Clusters cfg) name of
        None \<Rightarrow> (Ended, conn_Close client, None, s)
      | Some cc \<Rightarrow>
          handleConnection env name cc (word_of_int (Port cc)) (ResolvedAdvertiseHost (Proxy cfg)) drCoord client s)"

section \<open>Tracking by the drain manager\<close>

lemma getRebalancer_drain: "getRebalancer now name cfg s = (rb, s') \<Longrightarrow> pxDrain s' = pxDrain s"
  by (auto simp: getRebalancer_def Let_def split: option.splits)

lemma record_drain [simp]:
  "pxDrain (recordLoadBalanceSuccess now name cfg addr s) = pxDrain s"
  "pxDrain (recordLoadBalanceFailure now name cfg addr s) = pxDrain s"
  by (auto simp: recordLoadBalanceSuccess_def recordLoadBalanceFailure_def dest: getRebalancer_drain split: prod.splits)

lemma select_drain: "selectLoadBalanceTarget now roll name cfg s = (r, s') \<Longrightarrow> pxDrain s' = pxDrain s"
  by (auto simp: selectLoadBalanceTarget_def nextSelect_def Let_def dest: getRebalancer_drain split: prod.splits sum.splits if_splits)

lemma choose_drain: "chooseUpstream env dr name cfg s = (r, s') \<Longrightarrow> pxDrain s' = pxDrain s"
  by (auto simp: chooseUpstream_def dest: select_drain split: if_splits)

lemma open_drain: "openUpstream env name cfg addr target s = (r, s') \<Longrightarrow> pxDrain s' = pxDrain s"
  by (auto simp: openUpstream_def split: sum.splits)

lemma route_drain: "routeFirst env name cfg fb client s = (e, client', s') \<Longrightarrow> pxDrain s' = pxDrain s"
  by (auto simp: routeFirst_def Let_def split: prod.splits route_result.splits if_splits)

lemma first_drain: "handleFirstFrame env name cfg port host target fb client up s = (e, client', up', s') \<Longrightarrow> pxDrain s' = pxDrain s"
  by (auto simp: handleFirstFrame_def countFirst_def Let_def dest: route_drain split: prod.splits sum.splits if_splits)

lemma copy_drain: "copyBoth env target client up s = (client', up', s') \<Longrightarrow> pxDrain s' = pxDrain s"
  by (auto simp: copyBoth_def split: prod.splits)

lemma serve_drain: "serve env name cfg port host target client up s = (e, client', up', s') \<Longrightarrow> pxDrain s' = pxDrain s"
  by (auto simp: serve_def dest!: first_drain copy_drain split: prod.splits sum.splits frame_end.splits)

text \<open>Registering a connection and unregistering it leaves every gauge as it was.\<close>

lemma Register_Unregister_gauge:
  assumes "Register name i target dm = (k, dm1)"
  shows "ActiveConnections (Unregister name k dm1) c = ActiveConnections dm c"
  using assms
  by (auto simp: Register_def Unregister_def trackConn_def newTracker_def ActiveConnections_def Let_def split: option.splits)

lemma enter_leave_gauge:
  assumes "enterConn name i target s = (reg, s1)" and "pxDrain s2 = pxDrain s1"
  shows "rel_option (\<lambda>dm dm'. \<forall>c. ActiveConnections dm' c = ActiveConnections dm c) (pxDrain s) (pxDrain (leaveConn name reg s2))"
  using assms Register_Unregister_gauge
  by (auto simp: enterConn_def leaveConn_def split: option.splits prod.splits)

lemma connection_gauge:
  assumes "handleConnection env name cfg port host dr client s = (Ended, client', up', s')"
  shows "rel_option (\<lambda>dm dm'. \<forall>c. ActiveConnections dm' c = ActiveConnections dm c) (pxDrain s) (pxDrain s')"
proof -
  obtain r s1 where c: "chooseUpstream env dr name cfg s = (r, s1)" by fastforce
  have d: "pxDrain s1 = pxDrain s" using choose_drain [OF c] .
  obtain addr target ok where r: "r = Inr (addr, target, ok)"
    using assms c by (cases r) (auto simp: handleConnection_def withUpstream_def)
  have refl: "rel_option (\<lambda>dm dm'. \<forall>c. ActiveConnections dm' c = ActiveConnections dm c) x x" for x :: "dm_callback DrainManager option"
    by (cases x) simp_all
  obtain reg s2 where e: "enterConn name (ceId env) target s1 = (reg, s2)" by fastforce
  obtain u s3 where o: "openUpstream env name cfg addr target s2 = (u, s3)" by fastforce
  have "s' = s1 \<and> \<not> (ok \<and> addr \<noteq> '''') \<or> s' = leaveConn name reg s3
      \<or> (\<exists>up c2 u2 s4. serve env name cfg port host target client up s3 = (Ended, c2, u2, s4) \<and> s' = leaveConn name reg s4)"
    using assms by (auto simp: handleConnection_def withUpstream_def c r e o split: if_splits option.splits prod.splits conn_end.splits)
  then show ?thesis
    using refl d enter_leave_gauge [OF e] open_drain [OF o] serve_drain by (auto simp: d)
qed

section \<open>The copying\<close>

definition capacity :: "conn \<Rightarrow> nat" where
  "capacity c = length (cout c) + cwok c"

lemma relay_capacity:
  "relaySASL peek auth c u = (None, auth', c', u') \<Longrightarrow> capacity c' = capacity c \<and> capacity u' = capacity u"
  by (auto simp: relaySASL_def capacity_def Let_def conn_io ReadFull_def conn_Write_def split: if_splits)

lemma readPlainHeader_capacity: "readPlainHeader peek c = (r, c') \<Longrightarrow> capacity c' = capacity c"
  by (auto simp: readPlainHeader_def capacity_def Let_def ReadFull_def split: if_splits)

lemma exchange_capacity:
  "HandleSASLExchange auth c u = (Inr res, auth', c', u') \<Longrightarrow> capacity c' = capacity c \<and> capacity u' = capacity u"
proof (induction auth c u rule: HandleSASLExchange.induct)
  case (1 auth c u)
  obtain r c1 where r: "ReadFull 6 c = (r, c1)" by fastforce
  then obtain peek where p: "r = Inr peek" using "1.prems" by (cases r) (auto simp: HandleSASLExchange.simps [of auth c u])
  have c1: "capacity c1 = capacity c" using r by (auto simp: ReadFull_def capacity_def split: if_splits)
  show ?case
  proof (cases "Uint16 (drop 4 peek) \<noteq> APIKeySaslHandshake \<and> Uint16 (drop 4 peek) \<noteq> APIKeySaslAuthenticate")
    case True
    then show ?thesis using "1.prems" c1 readPlainHeader_capacity
      by (auto simp: HandleSASLExchange.simps [of auth c u] r p split: prod.splits)
  next
    case False
    obtain e a2 c2 u2 where x: "relaySASL peek auth c1 u = (e, a2, c2, u2)" by (metis prod_cases4)
    then have e: "e = None" using "1.prems" False by (cases e) (auto simp: HandleSASLExchange.simps [of auth c u] r p)
    have "HandleSASLExchange a2 c2 u2 = (Inr res, auth', c', u')"
      using "1.prems" False by (auto simp: HandleSASLExchange.simps [of auth c u] r p x e)
    from "1.IH" [OF r [symmetric] p False x [symmetric, unfolded e] refl refl refl this] show ?thesis
      using relay_capacity [OF x [unfolded e]] c1 by simp
  qed
qed

lemma passthrough_all:
  assumes "passthrough n1 n2 c u = (c', u')"
  shows "cout u' = cout u @ take (min n1 (cwok u)) (cin c)" and "cout c' = cout c @ take (min n2 (cwok c)) (cin u)"
  using assms by (auto simp: passthrough_def io_CopyN_def conn_Close_def Let_def min_def)

lemma write_then_copy: "\<exists>i. p @ take w h @ take (min n (w - length h)) xs = take i (p @ h @ xs)"
proof (cases "w < length h")
  case True
  then show ?thesis by (intro exI [of _ "length p + w"]) simp
next
  case False
  then show ?thesis by (intro exI [of _ "length p + length h + min n (w - length h)"]) simp
qed

lemma conn_Write_cout: "cout (snd (conn_Write bs c)) = cout c @ take (cwok c) bs"
  and conn_Write_cwok: "cwok (snd (conn_Write bs c)) = cwok c - length bs"
  and conn_Write_cin: "cin (snd (conn_Write bs c)) = cin c"
  by (simp_all add: conn_Write_def)

text \<open>The way of a connection up to its first frame that is not SASL.\<close>

lemma connection_steps:
  assumes "handleConnection env name cfg port host dr client s = (Ended, client', Some up', s')"
    and "chooseUpstream env dr name cfg s = (Inr (addr, target, ok), s0)" and "ceDial env addr = Inr up"
    and "HandleSASLExchange False client up = (Inr res, auth, client1, up1)"
  obtains s1 e c2 u2 s2 where "handleFirstFrame env name cfg port host target (seHeader res) client1 up1 s1 = (e, c2, u2, s2)"
    and "e = FrameReturn \<and> client' = conn_Close c2 \<and> up' = conn_Close u2
      \<or> e = FrameCopy \<and> (\<exists>c3 u3 s3. copyBoth env target c2 u2 s2 = (c3, u3, s3) \<and> client' = conn_Close c3 \<and> up' = conn_Close u3)"
proof -
  obtain reg s1 where e: "enterConn name (ceId env) target s0 = (reg, s1)" by fastforce
  obtain s2 where o: "openUpstream env name cfg addr target s1 = (Some up, s2)"
    using assms(3) by (simp add: openUpstream_def dialUpstream_def endpointUsesTLS_def)
  obtain c3 u3 s3 where v: "serve env name cfg port host target client up s2 = (Ended, c3, u3, s3)"
    and cl: "client' = conn_Close c3" "up' = conn_Close u3"
    using assms(1) unfolding handleConnection_def withUpstream_def assms(2)
    by (auto simp: e o split: if_splits prod.splits conn_end.splits)
  obtain e c2 u2 s2' where f: "handleFirstFrame env name cfg port host target (seHeader res) client1 up1 s2 = (e, c2, u2, s2')"
    by (metis prod_cases4)
  show thesis
    by (rule that [OF f]) (use v cl in \<open>auto simp: serve_def assms(4) f split: frame_end.splits prod.splits\<close>)
qed

section \<open>What an intercepted Metadata request does\<close>

lemma sint_minus_of_nat:
  assumes "sint (w :: int32) = int n" and "m < 2 ^ 31"
  shows "sint (w - word_of_nat m) = int n - int m"
proof -
  have m: "sint (word_of_nat m :: int32) = int m" by (rule sint_int32_nonneg [OF assms(2)])
  have "n < 2 ^ 31" using assms(1) sint_int32_range(2) [of w] by simp
  then show ?thesis using assms(2) unfolding sint_word_diff m assms(1) by (simp add: signed_take_bit_int_eq_self)
qed

text \<open>A header of a complete request, the rest of that request on the client, a whole answer.\<close>

definition header_of :: "byte list \<Rightarrow> nat \<Rightarrow> bool" where
  "header_of fb sz \<longleftrightarrow> Uint16 (drop 4 fb) = APIKeyMetadata \<and> 14 \<le> length fb \<and> length fb \<le> 32781
     \<and> sint (Uint32 fb) = int sz \<and> 14 \<le> sz \<and> int sz \<le> MaxFrameSize"

definition answer_of :: "byte list \<Rightarrow> bool" where
  "answer_of raw \<longleftrightarrow> 4 \<le> length raw \<and> int (length raw) = 4 + sint (Uint32 raw)
     \<and> sint (Uint32 raw) \<le> int pool_MaxMetadataResponseSize"

lemma rest_panics:
  assumes "header_of fb sz" and "sz + 4 < length fb"
  shows "readRequestRest fb (Uint32 fb) c = (Inl (Panic ''makeslice: len out of range''), c)"
proof -
  have "sint (Uint32 fb - word_of_nat (length fb - 4)) = int sz - int (length fb - 4)"
    using assms(1) by (intro sint_minus_of_nat) (auto simp: header_of_def)
  then show ?thesis using assms(2) by (simp add: readRequestRest_def make_bytes_def)
qed

lemma rest_read:
  assumes "header_of fb sz" and "length fb + length rest = 4 + sz" and "cin c = rest @ w"
  shows "readRequestRest fb (Uint32 fb) c = (Inr (fb @ rest), c\<lparr>cin := w\<rparr>)"
proof -
  have "sint (Uint32 fb - word_of_nat (length fb - 4)) = int sz - int (length fb - 4)"
    using assms(1) by (intro sint_minus_of_nat) (auto simp: header_of_def)
  moreover have "int sz - int (length fb - 4) = int (length rest)" using assms(1,2) by (auto simp: header_of_def)
  ultimately show ?thesis using assms(3) by (simp add: readRequestRest_def make_bytes_def ReadFull_def)
qed

lemma answer_read:
  assumes "answer_of raw" and "cin c = raw @ x"
  shows "ReadFull 4 c = (Inr (take 4 raw), c\<lparr>cin := drop 4 raw @ x\<rparr>)" and "Uint32 (take 4 raw) = Uint32 raw"
    and "ReadFull (nat (sint (Uint32 raw))) (c\<lparr>cin := drop 4 raw @ x\<rparr>) = (Inr (drop 4 raw), c\<lparr>cin := x\<rparr>)"
proof -
  have l: "4 \<le> length raw" "nat (sint (Uint32 raw)) = length raw - 4" using assms(1) by (auto simp: answer_of_def)
  then show "ReadFull 4 c = (Inr (take 4 raw), c\<lparr>cin := drop 4 raw @ x\<rparr>)"
    "ReadFull (nat (sint (Uint32 raw))) (c\<lparr>cin := drop 4 raw @ x\<rparr>) = (Inr (drop 4 raw), c\<lparr>cin := x\<rparr>)"
    using assms(2) by (simp_all add: ReadFull_def)
  show "Uint32 (take 4 raw) = Uint32 raw" using l(1) Uint32_append [of "take 4 raw" "drop 4 raw"] by simp
qed

lemma active_passive_answer:
  assumes "header_of fb sz" and "length fb + length rest = 4 + sz" and "cin c = rest @ w" and "4 + sz \<le> cwok u"
    and "answer_of raw" and "cin u = raw @ x"
  shows "handleMetadataActivePassive c u fb (Uint32 fb) host port
    = (Inr True, snd (conn_Write (case RewriteMetadataResponse raw host port (Uint16 (drop 6 fb)) of Inl _ \<Rightarrow> raw | Inr out \<Rightarrow> out) (c\<lparr>cin := w\<rparr>)),
       u\<lparr>cin := x, cout := cout u @ fb @ rest, cwok := cwok u - (4 + sz)\<rparr>)"
proof -
  let ?u = "u\<lparr>cout := cout u @ fb @ rest, cwok := cwok u - (4 + sz)\<rparr>"
  have wr: "conn_Write (fb @ rest) u = (None, ?u)" using assms(2,4) by (simp add: conn_Write_def)
  have "cin ?u = raw @ x" using assms(6) by simp
  note a = answer_read [OF assms(5) this]
  have "14 \<le> length fb" using assms(1) by (simp add: header_of_def)
  then have v: "Uint16 (drop 6 (fb @ rest)) = Uint16 (drop 6 fb)" by (simp add: Uint16_append)
  have r: "\<not> sint (Uint32 raw) < 0" "\<not> int pool_MaxMetadataResponseSize < sint (Uint32 raw)"
    using assms(5) by (auto simp: answer_of_def)
  show ?thesis
    unfolding handleMetadataActivePassive_def rest_read [OF assms(1-3)] wr prod.case sum.case option.case a(1,2) Let_def v a(3)
    using r by (simp split: sum.split)
qed

lemma active_passive_no_answer:
  assumes "header_of fb sz" and "length fb + length rest = 4 + sz" and "cin c = rest @ w" and "4 + sz \<le> cwok u"
    and "length (cin u) < 4"
  shows "handleMetadataActivePassive c u fb (Uint32 fb) host port
    = (Inr False, c\<lparr>cin := w\<rparr>, u\<lparr>cin := [], cout := cout u @ fb @ rest, cwok := cwok u - (4 + sz)\<rparr>)"
proof -
  have "conn_Write (fb @ rest) u = (None, u\<lparr>cout := cout u @ fb @ rest, cwok := cwok u - (4 + sz)\<rparr>)"
    using assms(2,4) by (simp add: conn_Write_def)
  then show ?thesis unfolding handleMetadataActivePassive_def rest_read [OF assms(1-3)] using assms(5) by (simp add: ReadFull_def)
qed

lemma no_primary_no_synthesis: "\<exists>e. SynthesizeMetadataResponse [] sr host port v = Inl e"
  by (simp add: SynthesizeMetadataResponse_def parseResponseFrame_def)

lemma forward_answer:
  assumes "dial b = Inr d" and "length req \<le> cwok d" and "answer_of raw" and "cin d = raw @ x" and "8 \<le> length raw"
  shows "forwardOne dial b req = Some raw"
proof -
  let ?d = "d\<lparr>cout := cout d @ req, cwok := cwok d - length req\<rparr>"
  have "cin ?d = raw @ x" using assms(4) by simp
  note a = answer_read [OF assms(3) this]
  have w: "conn_Write req d = (None, ?d)" using assms(2) by (simp add: conn_Write_def)
  have r: "\<not> sint (Uint32 raw) < 4" "\<not> int pool_MaxMetadataResponseSize < sint (Uint32 raw)"
    using assms(3,5) by (auto simp: answer_of_def)
  show ?thesis
    unfolding forwardOne_def forwardMetadataRequest_def assms(1) sum.case w prod.case option.case a(1,2) Let_def a(3)
    using r by simp
qed

lemma load_balance_secondary_only:
  assumes "header_of fb sz" and "length fb + length rest = 4 + sz" and "cin c = rest @ w"
    and "dial (Bootstrap (Primary cfg)) = Inl e" and "dial (Bootstrap (Secondary cfg)) = Inr d" and "4 + sz \<le> cwok d"
    and "answer_of raw" and "cin d = raw @ x" and "8 \<le> length raw"
  shows "handleMetadataLoadBalance dial c fb (Uint32 fb) host cfg port = (Inr True, snd (conn_Write raw (c\<lparr>cin := w\<rparr>)))"
proof -
  have p: "forwardOne dial (Bootstrap (Primary cfg)) (fb @ rest) = None"
    using assms(4) by (simp add: forwardOne_def forwardMetadataRequest_def)
  have s: "forwardOne dial (Bootstrap (Secondary cfg)) (fb @ rest) = Some raw"
    using assms(2,6) by (intro forward_answer [of dial _ d _ raw x, OF assms(5) _ assms(7-9)]) simp
  obtain e where "SynthesizeMetadataResponse [] (Some raw) host port (Uint16 (drop 6 (fb @ rest))) = Inl e"
    using no_primary_no_synthesis by blast
  then show ?thesis unfolding handleMetadataLoadBalance_def rest_read [OF assms(1-3)] by (simp add: p s Let_def)
qed

lemma first_metadata:
  assumes "header_of fb sz"
  shows "handleFirstFrame env name cfg port host target fb c u s =
    (case interceptMetadata env cfg port host fb c u of
       (Inl e, c, u) \<Rightarrow> (FramePanic e, c, u, s)
     | (Inr did, c, u) \<Rightarrow> (FrameCopy, c, if did then u else snd (conn_Write fb u), s))"
  using assms by (auto simp: handleFirstFrame_def header_of_def countFirst_def Let_def split: sum.split prod.split)

text \<open>The router follows the configured active cluster.\<close>

lemma upstreamFor_primary:
  assumes "Mode cfg = ModeActivePassive" and "Active cfg = ActivePrimary"
    and "upstreamFor dial name cfg hdr req r st = (Inr addr, r1, st1)"
  shows "addr = Bootstrap (Primary cfg) \<or> (\<exists>t p. GetLeader (rtCache r) (Bootstrap (Primary cfg)) t p = Some addr)"
  using assms(3)
  by (auto simp: upstreamFor_def resolveClusterBootstrap_def assms(1,2) router_leader_def leaderOrBootstrap_def Let_def
      split: if_splits sum.splits option.splits prod.splits)

section \<open>Properties\<close>

text \<open>
  C4. After authentication, a connection whose first other request is not Metadata, Produce or
  Fetch (Kafka clients usually start with ApiVersions) is a transparent pipe for its whole
  life: what the upstream got is a prefix of the client's bytes and the other way round, with nothing
  altered, and when neither side stops accepting bytes and the copying runs to the end, everything
  arrives. In particular a later Metadata response reaches the client with the brokers' own
  addresses. The same holds for a Metadata request of acceptable size in \<open>single\<close> mode. When the
  handler has returned, the drain manager's gauges are what they were.
\<close>
theorem connection_transparent:
  assumes "handleConnection env name cfg port host dr client s = (Ended, client', Some up', s')"
    and "chooseUpstream env dr name cfg s = (Inr (addr, target, ok), s0)" and "ceDial env addr = Inr up"
    and "HandleSASLExchange False client up = (Inr res, auth, client1, up1)"
    and "Uint16 (drop 4 (seHeader res)) \<notin> {APIKeyProduce, APIKeyFetch}"
    and "Uint16 (drop 4 (seHeader res)) \<noteq> APIKeyMetadata
      \<or> Mode cfg = ModeSingle \<and> sint (Uint32 (seHeader res)) \<in> {14..MaxFrameSize}"
  shows "(\<exists>i. cout up' = cout up @ take i (cin client)) \<and> (\<exists>j. cout client' = cout client @ take j (cin up))
    \<and> (length (cin client) \<le> min (cwok up) (ceUp env) \<longrightarrow> cout up' = cout up @ cin client)
    \<and> (length (cin up) \<le> min (cwok client) (ceDown env) \<longrightarrow> cout client' = cout client @ cin up)
    \<and> rel_option (\<lambda>dm dm'. \<forall>c. ActiveConnections dm' c = ActiveConnections dm c) (pxDrain s) (pxDrain s')"
proof -
  let ?h = "seHeader res"
  obtain P R where P: "cin client = P @ ?h @ cin client1" "cout up1 = cout up @ P"
    and R: "cin up = R @ cin up1" "cout client1 = cout client @ R"
    using exchange_success [OF assms(4)] by metis
  obtain s1 e c2 u2 s2 where f: "handleFirstFrame env name cfg port host target ?h client1 up1 s1 = (e, c2, u2, s2)"
    and x: "e = FrameReturn \<and> client' = conn_Close c2 \<and> up' = conn_Close u2
      \<or> e = FrameCopy \<and> (\<exists>c3 u3 s3. copyBoth env target c2 u2 s2 = (c3, u3, s3) \<and> client' = conn_Close c3 \<and> up' = conn_Close u3)"
    using connection_steps [OF assms(1-4)] .
  have a: "e = FrameCopy" "c2 = client1" "u2 = snd (conn_Write ?h up1)"
    using f assms(5,6) by (auto simp: handleFirstFrame_def interceptMetadata_def Let_def mode_defs split: if_splits)
  obtain c3 u3 where p: "passthrough (ceUp env) (ceDown env) client1 (snd (conn_Write ?h up1)) = (c3, u3)"
    "client' = conn_Close c3" "up' = conn_Close u3"
    using x a by (auto simp: copyBoth_def split: prod.splits)
  have up': "cout up' = cout up @ P @ take (cwok up1) ?h @ take (min (ceUp env) (cwok up1 - length ?h)) (cin client1)"
    using passthrough_all(1) [OF p(1)] p(3) P(2) by (simp add: conn_Write_cout conn_Write_cwok conn_Close_def)
  have client': "cout client' = cout client @ R @ take (min (ceDown env) (cwok client1)) (cin up1)"
    using passthrough_all(2) [OF p(1)] p(2) R(2) by (simp add: conn_Write_cin conn_Close_def)
  have cap: "capacity client1 = capacity client" "capacity up1 = capacity up" using exchange_capacity [OF assms(4)] by auto
  show ?thesis
  proof (intro conjI impI)
    show "\<exists>i. cout up' = cout up @ take i (cin client)"
      using write_then_copy [of P "cwok up1" ?h "ceUp env" "cin client1"] unfolding up' P(1) by auto
    show "\<exists>j. cout client' = cout client @ take j (cin up)"
      unfolding client' R(1) by (intro exI [of _ "length R + min (ceDown env) (cwok client1)"]) simp
    show "rel_option (\<lambda>dm dm'. \<forall>c. ActiveConnections dm' c = ActiveConnections dm c) (pxDrain s) (pxDrain s')"
      using connection_gauge [OF assms(1)] .
  next
    assume "length (cin client) \<le> min (cwok up) (ceUp env)"
    then have "length ?h + length (cin client1) \<le> cwok up1" "length (cin client1) \<le> ceUp env"
      using cap(2) P by (simp_all add: capacity_def)
    then show "cout up' = cout up @ cin client" using P(1) by (simp add: up')
  next
    assume "length (cin up) \<le> min (cwok client) (ceDown env)"
    then show "cout client' = cout client @ cin up"
      using cap(1) R by (simp add: client' capacity_def)
  qed
qed

text \<open>
  C10. Metadata interception of a first Metadata request of acceptable size.
  (1) If the announced size is smaller than the header that was read (a long client id), the handler
  panics, in every mode that intercepts.
  (2) In active/passive mode with a complete request and a complete answer, the upstream gets exactly
  the request and the client the rewritten answer, or the answer as it is when it cannot be
  rewritten; then the copying goes on from there.
  (3) If the upstream ends without an answer, it has been sent the request and then its header once
  more, before the copying.
  (4) In load-balance mode with the primary unreachable, the client gets the secondary's answer as it
  is, with the brokers' own addresses: the merge needs the primary.
\<close>
theorem metadata_interception:
  assumes "header_of fb sz"
  shows "(Mode cfg \<in> {ModeActivePassive, ModeLoadBalance} \<and> sz + 4 < length fb \<longrightarrow>
        (\<exists>e. handleFirstFrame env name cfg port host target fb client up s = (FramePanic e, client, up, s)))
    \<and> (\<forall>rest w raw x. Mode cfg = ModeActivePassive \<and> length fb + length rest = 4 + sz \<and> cin client = rest @ w
        \<and> 4 + sz \<le> cwok up \<and> answer_of raw \<and> cin up = raw @ x \<longrightarrow>
        (\<exists>client' up'. handleFirstFrame env name cfg port host target fb client up s = (FrameCopy, client', up', s)
          \<and> cout up' = cout up @ fb @ rest \<and> cin up' = x \<and> cin client' = w
          \<and> cout client' = cout client @ take (cwok client)
              (case RewriteMetadataResponse raw host port (Uint16 (drop 6 fb)) of Inl _ \<Rightarrow> raw | Inr out \<Rightarrow> out)))
    \<and> (\<forall>rest w. Mode cfg = ModeActivePassive \<and> length fb + length rest = 4 + sz \<and> cin client = rest @ w
        \<and> 4 + sz + length fb \<le> cwok up \<and> length (cin up) < 4 \<longrightarrow>
        (\<exists>client' up'. handleFirstFrame env name cfg port host target fb client up s = (FrameCopy, client', up', s)
          \<and> cout up' = cout up @ fb @ rest @ fb \<and> cout client' = cout client))
    \<and> (\<forall>rest w e d raw x. Mode cfg = ModeLoadBalance \<and> length fb + length rest = 4 + sz \<and> cin client = rest @ w
        \<and> ceDialMeta env (Bootstrap (Primary cfg)) = Inl e \<and> ceDialMeta env (Bootstrap (Secondary cfg)) = Inr d
        \<and> 4 + sz \<le> cwok d \<and> answer_of raw \<and> cin d = raw @ x \<and> 8 \<le> length raw \<longrightarrow>
        (\<exists>client'. handleFirstFrame env name cfg port host target fb client up s = (FrameCopy, client', up, s)
          \<and> cout client' = cout client @ take (cwok client) raw))"
proof (intro conjI allI impI; (elim conjE)?)
  assume "Mode cfg \<in> {ModeActivePassive, ModeLoadBalance}" "sz + 4 < length fb"
  then show "\<exists>e. handleFirstFrame env name cfg port host target fb client up s = (FramePanic e, client, up, s)"
    using rest_panics [OF assms]
    by (auto simp: first_metadata [OF assms] interceptMetadata_def handleMetadataActivePassive_def handleMetadataLoadBalance_def)
next
  fix rest w raw x
  assume m: "Mode cfg = ModeActivePassive" and r: "length fb + length rest = 4 + sz" "cin client = rest @ w"
    "4 + sz \<le> cwok up" "answer_of raw" "cin up = raw @ x"
  show "\<exists>client' up'. handleFirstFrame env name cfg port host target fb client up s = (FrameCopy, client', up', s)
          \<and> cout up' = cout up @ fb @ rest \<and> cin up' = x \<and> cin client' = w
          \<and> cout client' = cout client @ take (cwok client)
              (case RewriteMetadataResponse raw host port (Uint16 (drop 6 fb)) of Inl _ \<Rightarrow> raw | Inr out \<Rightarrow> out)"
    unfolding first_metadata [OF assms] by (simp add: interceptMetadata_def m active_passive_answer [OF assms r] conn_Write_cout conn_Write_cin)
next
  fix rest w
  assume m: "Mode cfg = ModeActivePassive" and r: "length fb + length rest = 4 + sz" "cin client = rest @ w"
    and u: "4 + sz + length fb \<le> cwok up" and n: "length (cin up) < 4"
  have k: "4 + sz \<le> cwok up" "length fb \<le> cwok up - (4 + sz)" using u by simp_all
  show "\<exists>client' up'. handleFirstFrame env name cfg port host target fb client up s = (FrameCopy, client', up', s)
          \<and> cout up' = cout up @ fb @ rest @ fb \<and> cout client' = cout client"
    unfolding first_metadata [OF assms]
    using k by (simp add: interceptMetadata_def m active_passive_no_answer [OF assms r k(1) n] conn_Write_cout)
next
  fix rest w e d raw x
  assume m: "Mode cfg = ModeLoadBalance" and r: "length fb + length rest = 4 + sz" "cin client = rest @ w"
    "ceDialMeta env (Bootstrap (Primary cfg)) = Inl e" "ceDialMeta env (Bootstrap (Secondary cfg)) = Inr d"
    "4 + sz \<le> cwok d" "answer_of raw" "cin d = raw @ x" "8 \<le> length raw"
  show "\<exists>client'. handleFirstFrame env name cfg port host target fb client up s = (FrameCopy, client', up, s)
          \<and> cout client' = cout client @ take (cwok client) raw"
    unfolding first_metadata [OF assms]
    by (simp add: interceptMetadata_def m load_balance_secondary_only [OF assms r] conn_Write_cout)
qed

text \<open>The primary's bootstrap, or a leader known for the primary.\<close>

definition primary_addr :: "ClusterConfig \<Rightarrow> Router \<Rightarrow> string \<Rightarrow> bool" where
  "primary_addr cfg r addr \<longleftrightarrow> addr = Bootstrap (Primary cfg)
     \<or> (\<exists>t p. GetLeader (rtCache r) (Bootstrap (Primary cfg)) t p = Some addr)"

text \<open>
  C3. Failover does not reach the routed requests. For an active/passive cluster whose configuration says
  \<open>primary\<close> while the DR state machine has failed it over (state SECUNDARIO), a new connection dials
  the secondary and is tracked there. When its first request after authentication is Produce or Fetch,
  that connection is closed, the request is counted for the secondary, and \<open>Route\<close> takes the
  request over: however it ends, the only address it can choose, and the only one whose pooled connections
  it touches, is the primary's bootstrap or a leader known for the primary, and when it succeeds the
  exchange was with such a connection. (A connection that starts with another request than these and
  Metadata is copied to the secondary as a whole, its later Produce and Fetch requests included.)
\<close>
theorem failover_misses_data_path:
  assumes "Mode cfg = ModeActivePassive" and "Active cfg = ActivePrimary" and "SM_State sm name = StateSecondary"
    and "Uint16 (drop 4 fb) \<in> {APIKeyProduce, APIKeyFetch}"
  shows "chooseUpstream env (Some (sm, dm, look)) name cfg s0 = (Inr (Bootstrap (Secondary cfg), ''secondary'', True), s0)
    \<and> (\<exists>res client' r' topics' e s'.
        Route (ceNow env) (cePut env) (ceDialLeader env) (ceUp env) (ceDown env) name cfg (client\<lparr>cin := fb @ cin client\<rparr>)
          (pxRouter s) (pxTopics s) = (res, client', r', topics')
      \<and> handleFirstFrame env name cfg port host ''secondary'' fb client up s = (e, client', conn_Close up, s')
      \<and> pxRouter s' = r' \<and> pxClusters s' = (if Uint16 (drop 4 fb) = APIKeyProduce then RecordClusterProduce else RecordClusterFetch)
          ''secondary'' (pxClusters s)
      \<and> (\<forall>addr. route_target (ceDialLeader env) name cfg (client\<lparr>cin := fb @ cin client\<rparr>) (pxRouter s) (pxTopics s) = Some addr
           \<longrightarrow> primary_addr cfg (pxRouter s) addr)
      \<and> (\<forall>addr. \<not> primary_addr cfg (pxRouter s) addr \<longrightarrow> cpPools (rtPool r') addr = cpPools (rtPool (pxRouter s)) addr)
      \<and> (res = RouteOk \<longrightarrow> (\<exists>frame hdr addr r1 up1 cp. prefix frame (fb @ cin client)
          \<and> upstreamFor (ceDialLeader env) name cfg hdr frame (pxRouter s) (pxTopics s) = (Inr addr, r1, topics')
          \<and> pool_Get (ceNow env) (ceDialLeader env addr) addr (rtPool r1) = (GetConn up1, cp)
          \<and> primary_addr cfg (pxRouter s) addr)))"
proof
  show "chooseUpstream env (Some (sm, dm, look)) name cfg s0 = (Inr (Bootstrap (Secondary cfg), ''secondary'', True), s0)"
    using assms(1,3) by (simp add: chooseUpstream_def upstreamTarget_def TargetForRouting_def)
next
  let ?c = "client\<lparr>cin := fb @ cin client\<rparr>"
  obtain res client' r' topics' where R: "Route (ceNow env) (cePut env) (ceDialLeader env) (ceUp env) (ceDown env) name cfg ?c
      (pxRouter s) (pxTopics s) = (res, client', r', topics')" by (metis prod_cases4)
  have h: "\<exists>e s'. handleFirstFrame env name cfg port host ''secondary'' fb client up s = (e, client', conn_Close up, s')
      \<and> pxRouter s' = r' \<and> pxClusters s' = (if Uint16 (drop 4 fb) = APIKeyProduce then RecordClusterProduce else RecordClusterFetch)
          ''secondary'' (pxClusters s)"
    using assms(4) R by (auto simp: handleFirstFrame_def routeFirst_def countFirst_def Let_def split: route_result.split)
  have target: "primary_addr cfg (pxRouter s) addr"
    if "route_target (ceDialLeader env) name cfg ?c (pxRouter s) (pxTopics s) = Some addr" for addr
    using route_target_Some [OF that] upstreamFor_primary [OF assms(1,2)] unfolding primary_addr_def by metis
  have frame: "cpPools (rtPool r') addr = cpPools (rtPool (pxRouter s)) addr" if "\<not> primary_addr cfg (pxRouter s) addr" for addr
    using Route_frame [OF R] target [of addr] that unfolding pool_frame_def by blast
  have ok: "\<exists>frame hdr addr r1 up1 cp. prefix frame (fb @ cin client)
      \<and> upstreamFor (ceDialLeader env) name cfg hdr frame (pxRouter s) (pxTopics s) = (Inr addr, r1, topics')
      \<and> pool_Get (ceNow env) (ceDialLeader env addr) addr (rtPool r1) = (GetConn up1, cp)
      \<and> primary_addr cfg (pxRouter s) addr"
    if "res = RouteOk"
  proof -
    note R' = R [unfolded that]
    obtain frame k hdr addr r1 up1 cp where f: "readFrame ?c = (Inr frame, k)"
      and u: "upstreamFor (ceDialLeader env) name cfg hdr frame (pxRouter s) (pxTopics s) = (Inr addr, r1, topics')"
      and g: "pool_Get (ceNow env) (ceDialLeader env addr) addr (rtPool r1) = (GetConn up1, cp)"
      using Route_ok_cases [OF R'] by metis
    have "prefix frame (fb @ cin client)" using readFrame_Inr [OF f] by simp
    then show ?thesis using u g upstreamFor_primary [OF assms(1,2) u] unfolding primary_addr_def by blast
  qed
  obtain e s' where h': "handleFirstFrame env name cfg port host ''secondary'' fb client up s = (e, client', conn_Close up, s')"
    "pxRouter s' = r'" "pxClusters s' = (if Uint16 (drop 4 fb) = APIKeyProduce then RecordClusterProduce else RecordClusterFetch)
          ''secondary'' (pxClusters s)" using h by (elim exE conjE) (rule that)
  show "\<exists>res client' r' topics' e s'.
        Route (ceNow env) (cePut env) (ceDialLeader env) (ceUp env) (ceDown env) name cfg (client\<lparr>cin := fb @ cin client\<rparr>)
          (pxRouter s) (pxTopics s) = (res, client', r', topics')
      \<and> handleFirstFrame env name cfg port host ''secondary'' fb client up s = (e, client', conn_Close up, s')
      \<and> pxRouter s' = r' \<and> pxClusters s' = (if Uint16 (drop 4 fb) = APIKeyProduce then RecordClusterProduce else RecordClusterFetch)
          ''secondary'' (pxClusters s)
      \<and> (\<forall>addr. route_target (ceDialLeader env) name cfg (client\<lparr>cin := fb @ cin client\<rparr>) (pxRouter s) (pxTopics s) = Some addr
           \<longrightarrow> primary_addr cfg (pxRouter s) addr)
      \<and> (\<forall>addr. \<not> primary_addr cfg (pxRouter s) addr \<longrightarrow> cpPools (rtPool r') addr = cpPools (rtPool (pxRouter s)) addr)
      \<and> (res = RouteOk \<longrightarrow> (\<exists>frame hdr addr r1 up1 cp. prefix frame (fb @ cin client)
          \<and> upstreamFor (ceDialLeader env) name cfg hdr frame (pxRouter s) (pxTopics s) = (Inr addr, r1, topics')
          \<and> pool_Get (ceNow env) (ceDialLeader env addr) addr (rtPool r1) = (GetConn up1, cp)
          \<and> primary_addr cfg (pxRouter s) addr))"
    by (intro exI [of _ res] exI [of _ client'] exI [of _ r'] exI [of _ topics'] exI [of _ e] exI [of _ s'] conjI allI impI R h' ok target frame)
qed

section \<open>Witnesses\<close>

text \<open>A client that sends an ApiVersions request and then ten more bytes.\<close>

definition pipe_client :: conn where
  "pipe_client = \<lparr>cin = demo_frame @ [0,0,0,6, 0,3, 0,0, 0,0], cout = [], cwok = 99\<rparr>"

definition pipe_upstream :: conn where
  "pipe_upstream = \<lparr>cin = [0,0,0,4, 0,0,0,1, 7,7], cout = [], cwok = 99\<rparr>"

definition demo_env :: conn_env where
  "demo_env = \<lparr>ceNow = 5, cePut = 6, ceRoll = 0, ceId = 1, ceDial = (\<lambda>_. Inr pipe_upstream), ceDialTLS = (\<lambda>_. Inl ErrEOF),
     ceDialMeta = (\<lambda>_. Inl ErrEOF), ceDialLeader = (\<lambda>_. Inl ErrEOF), ceUp = 50, ceDown = 50\<rparr>"

definition demo_proxy :: ProxyState where
  "demo_proxy = \<lparr>pxRebalancers = Map.empty, pxCounter = 0, pxDrain = Some (NewDrainManager 0), pxRouter = demo_router,
     pxTopics = Map.empty, pxClusters = Map.empty\<rparr>"

abbreviation single_cluster :: ClusterConfig where
  "single_cluster \<equiv> sample_logistics\<lparr>Mode := ModeSingle\<rparr>"

definition demo_exchange :: SASLExchangeResult where
  "demo_exchange = \<lparr>seHeader = demo_frame, seCorrelationID = 1, seClientID = ''''\<rparr>"

lemma pipe_exchange:
  "HandleSASLExchange False pipe_client pipe_upstream
     = (Inr demo_exchange, False, pipe_client\<lparr>cin := [0,0,0,6, 0,3, 0,0, 0,0]\<rparr>, pipe_upstream)"
  by (simp add: pipe_client_def demo_exchange_def HandleSASLExchange.simps ReadFull_def readPlainHeader_def Uint16_def
      Uint32_def be_nat_def btos_def)

lemma demo_key: "Uint16 (drop 4 (seHeader demo_exchange)) = 18"
  by (simp add: demo_exchange_def Uint16_def be_nat_def)

lemma demo_first:
  "handleFirstFrame env name cfg port host target (seHeader demo_exchange) c u s
     = (FrameCopy, c, snd (conn_Write (seHeader demo_exchange) u), s)"
  by (simp add: handleFirstFrame_def demo_key countFirst_def Let_def)

lemma demo_open: "openUpstream demo_env name single_cluster addr target s = (Some pipe_upstream, s)"
  by (simp add: openUpstream_def dialUpstream_def endpointUsesTLS_def demo_env_def recordLoadBalanceSuccess_def)

theorem connection_transparent_witness:
  "\<exists>client' up' s'. handleConnection demo_env ''b'' single_cluster 9092 ''proxy'' None pipe_client demo_proxy
       = (Ended, client', Some up', s') \<and> cout up' = cin pipe_client \<and> cout client' = cin pipe_upstream"
proof -
  let ?run = "handleConnection demo_env ''b'' single_cluster 9092 ''proxy'' None pipe_client demo_proxy"
  have ch: "chooseUpstream demo_env None ''b'' single_cluster demo_proxy = (Inr (''k1:9092'', ''primary'', True), demo_proxy)"
    by (simp add: chooseUpstream_def upstreamTarget_def sample_logistics_def)
  have d: "ceDial demo_env ''k1:9092'' = Inr pipe_upstream" by (simp add: demo_env_def)
  have k: "Uint16 (drop 4 (seHeader demo_exchange)) \<notin> {APIKeyProduce, APIKeyFetch}"
    "Uint16 (drop 4 (seHeader demo_exchange)) \<noteq> APIKeyMetadata"
    by (simp_all add: demo_key)
  have "\<exists>client' up' s'. ?run = (Ended, client', Some up', s')"
    by (simp add: handleConnection_def withUpstream_def ch demo_open serve_def pipe_exchange demo_first split: prod.splits)
  then obtain client' up' s' where r: "?run = (Ended, client', Some up', s')" by blast
  have "cout up' = cin pipe_client \<and> cout client' = cin pipe_upstream"
    using connection_transparent [OF r ch d pipe_exchange k(1)] k(2)
    by (simp add: demo_env_def pipe_client_def pipe_upstream_def)
  then show ?thesis using r by blast
qed

abbreviation meta_header :: "byte list" where
  "meta_header \<equiv> [0,0,0,14, 0,3, 0,0, 0,0,0,1, 255,255]"

abbreviation passive_cluster :: ClusterConfig where
  "passive_cluster \<equiv> sample_logistics\<lparr>Mode := ModeActivePassive, Active := ActivePrimary\<rparr>"

lemma demo_answer: "answer_of sample_response"
proof -
  let ?bs = "[\<lparr>NodeID = 1, Host = ''kafka-1'', BrokerPort = 9092, Rack = '''', RackIsSet = False\<rparr>]"
  let ?body = "encodeBrokers 0 ?bs @ [0, 0, 0, 0]"
  have l: "length ?body = 25" by (simp add: encodeBrokers_def encodeBroker_def writeBroker_def)
  then have "length ?body \<le> MaxMetadataResponseSize" by (simp add: MaxMetadataResponseSize_def)
  from frame_fields(1,2) [OF this, of 7] show ?thesis
    unfolding answer_of_def sample_response_def l by (simp add: pool_MaxMetadataResponseSize_def)
qed

theorem metadata_interception_witness:
  "\<exists>out client' up'. RewriteMetadataResponse sample_response ''proxy'' 9093 0 = Inr out
     \<and> handleFirstFrame demo_env ''b'' passive_cluster 9093 ''proxy'' ''primary'' meta_header
         \<lparr>cin = [0,0,0,0], cout = [], cwok = MaxMetadataResponseSize\<rparr> \<lparr>cin = sample_response, cout = [], cwok = 99\<rparr> demo_proxy
       = (FrameCopy, client', up', demo_proxy)
     \<and> cout client' = out \<and> cout up' = meta_header @ [0,0,0,0]"
proof -
  obtain out where out: "RewriteMetadataResponse sample_response ''proxy'' 9093 0 = Inr out"
    using sample_rewrites by blast
  then have le: "length out \<le> MaxMetadataResponseSize" using RewriteMetadataResponse_Inr [OF out] by metis
  have h: "header_of meta_header 14"
    by (simp add: header_of_def Uint16_def Uint32_def be_nat_def MaxFrameSize_def)
  have v: "Uint16 (drop 6 meta_header) = 0" by (simp add: Uint16_def be_nat_def)
  let ?c = "\<lparr>cin = [0,0,0,0], cout = [], cwok = MaxMetadataResponseSize\<rparr>"
  let ?u = "\<lparr>cin = sample_response, cout = [], cwok = 99\<rparr>"
  have r: "Mode passive_cluster = ModeActivePassive \<and> length meta_header + length [0,0,0,0::byte] = 4 + 14
      \<and> cin ?c = [0,0,0,0] @ [] \<and> 4 + 14 \<le> cwok ?u \<and> answer_of sample_response \<and> cin ?u = sample_response @ []"
    using demo_answer by simp
  obtain client' up' where "handleFirstFrame demo_env ''b'' passive_cluster 9093 ''proxy'' ''primary'' meta_header ?c ?u demo_proxy
      = (FrameCopy, client', up', demo_proxy)" "cout up' = cout ?u @ meta_header @ [0,0,0,0]"
    "cout client' = cout ?c @ take (cwok ?c)
        (case RewriteMetadataResponse sample_response ''proxy'' 9093 (Uint16 (drop 6 meta_header)) of Inl _ \<Rightarrow> sample_response | Inr out \<Rightarrow> out)"
    using metadata_interception [OF h, where env = demo_env and name = "''b''" and port = 9093 and host = "''proxy''"
        and target = "''primary''" and s = demo_proxy, THEN conjunct2, THEN conjunct1, THEN spec, THEN spec, THEN spec, THEN spec, THEN mp, OF r]
    by (elim exE conjE) (rule that)
  then show ?thesis using out le unfolding v by (intro exI [of _ out] exI [of _ client'] exI [of _ up']) simp
qed

text \<open>A Produce request for a partition whose leader is known for the primary.\<close>

abbreviation produce_header :: "byte list" where
  "produce_header \<equiv> [0,0,0,31, 0,0, 0,0, 0,0,0,1, 255,255]"

definition produce_client :: conn where
  "produce_client = \<lparr>cin = demo_produce, cout = [], cwok = 99\<rparr>"

definition produce_env :: conn_env where
  "produce_env = demo_env\<lparr>ceDialLeader := demo_dial\<rparr>"

lemma length_demo_produce: "length demo_produce = 21"
  by (simp add: produce_prefix_def enc_topics_def)

lemma produce_read:
  "readFrame (produce_client\<lparr>cin := produce_header @ cin produce_client\<rparr>) = (Inr (produce_header @ demo_produce), produce_client\<lparr>cin := []\<rparr>)"
proof -
  have "readFrame (k\<lparr>cin := produce_header @ w\<rparr>) = (Inr (produce_header @ w), k\<lparr>cin := []\<rparr>)" if "length w = 21" for k w
  proof -
    have u: "Uint32 [0, 0, 0, 31] = 31" by (simp add: Uint32_def be_nat_def)
    have p: "PutUint32 31 = [0, 0, 0, 31]" by code_simp
    show ?thesis using that by (simp add: readFrame_def ReadFull_def u p make_bytes_def Let_def)
  qed
  note r = this [OF length_demo_produce]
  have "cin produce_client = demo_produce" by (simp only: produce_client_def conn.simps)
  then show ?thesis using r by (simp only:)
qed

lemma produce_parse:
  "ParseRequestHeader (produce_header @ w) = Inr \<lparr>rhSize = 31, rhAPIKey = 0, rhAPIVersion = 0, rhCorrelationID = 1, rhClientID = ''''\<rparr>"
  by (simp add: ParseRequestHeader_def slice_def Uint32_def Uint16_def be_nat_def fixedHeaderLen_def Let_def)

lemma upstreamFor_leader:
  assumes "Mode cfg = ModeActivePassive" and "rhAPIKey h = APIKeyProduce"
    and "ParseRequestBody (rhAPIKey h) (rhAPIVersion h) (drop (14 + length (rhClientID h)) req) = Inr q"
    and "resolveClusterBootstrap cfg = b" and "b \<noteq> ''''"
    and "GetLeader (rtCache r) b (rrTopicName q) (rrPartitionID q) = Some a"
  shows "\<exists>st. upstreamFor dial name cfg h req r st0 = (Inr a, r, st)"
  using assms(1,2,4,5,6) unfolding upstreamFor_def assms(3) by (simp add: router_leader_def leaderOrBootstrap_def Let_def)

lemma produce_upstream:
  "\<exists>st. upstreamFor dial ''b'' passive_cluster \<lparr>rhSize = 31, rhAPIKey = 0, rhAPIVersion = 0, rhCorrelationID = 1, rhClientID = ''''\<rparr>
     (produce_header @ demo_produce) demo_router st0 = (Inr ''b1:9092'', demo_router, st)"
proof -
  have g: "GetLeader (rtCache demo_router) ''k1:9092'' ''t'' 0 = Some ''b1:9092''"
    by (simp add: demo_router_def GetLeader_def SetLeader_def NewPartitionLeaderCache_def)
  have b: "resolveClusterBootstrap passive_cluster = ''k1:9092''" by (simp add: resolveClusterBootstrap_def sample_logistics_def)
  have d: "drop (14 + 0) (produce_header @ w) = w" for w by simp
  have p: "ParseRequestBody 0 0 (drop (14 + 0) (produce_header @ demo_produce))
      = Inr \<lparr>rrAPIKey = 0, rrAPIVersion = 0, rrClientID = '''', rrTopicName = ''t'', rrPartitionID = 0\<rparr>"
    unfolding d by (rule demo_bodies(1))
  show ?thesis
    by (rule upstreamFor_leader [where q = "\<lparr>rrAPIKey = 0, rrAPIVersion = 0, rrClientID = '''', rrTopicName = ''t'', rrPartitionID = 0\<rparr>"
          and b = "''k1:9092''"]) (simp_all only: RequestHeader.simps list.size p b g RoutedRequest.simps, simp_all)
qed

lemma produce_exchange:
  assumes "length f \<le> 99"
  shows "\<exists>c u. exchangeFrame 50 50 f \<lparr>cin = [], cout = [], cwok = 99\<rparr>
     \<lparr>cin = [0,0,0,4, 0,0,0,1], cout = [], cwok = 99\<rparr> = (None, c, u)"
  using assms by (simp add: exchangeFrame_def conn_Write_def ReadFull_def Uint32_def be_nat_def io_CopyN_def passthrough_def
      Let_def split: prod.splits)

lemma produce_route:
  "\<exists>client' r' topics'. Route 5 6 demo_dial 50 50 ''b'' passive_cluster
     (produce_client\<lparr>cin := produce_header @ cin produce_client\<rparr>) demo_router Map.empty = (RouteOk, client', r', topics')"
proof -
  obtain st where u: "upstreamFor demo_dial ''b'' passive_cluster \<lparr>rhSize = 31, rhAPIKey = 0, rhAPIVersion = 0, rhCorrelationID = 1, rhClientID = ''''\<rparr>
     (produce_header @ demo_produce) demo_router Map.empty = (Inr ''b1:9092'', demo_router, st)"
    using produce_upstream [of demo_dial Map.empty] by (elim exE) (rule that)
  obtain c up' where x: "exchangeFrame 50 50 (produce_header @ demo_produce) \<lparr>cin = [], cout = [], cwok = 99\<rparr>
     \<lparr>cin = [0,0,0,4, 0,0,0,1], cout = [], cwok = 99\<rparr> = (None, c, up')" 
    using produce_exchange [of "produce_header @ demo_produce"] length_demo_produce by auto
  obtain cp where g: "pool_Get 5 (Inr \<lparr>cin = [0,0,0,4, 0,0,0,1], cout = [], cwok = 99\<rparr>) ''b1:9092'' (rtPool demo_router)
      = (GetConn \<lparr>cin = [0,0,0,4, 0,0,0,1], cout = [], cwok = 99\<rparr>, cp)"
    by (simp add: demo_router_def pool_New_def pool_Get_def getOrCreatePool_def run_get_def Let_def)
  have k: "produce_client\<lparr>cin := []\<rparr> = \<lparr>cin = [], cout = [], cwok = 99\<rparr>" by (simp add: produce_client_def)
  have "Route 5 6 demo_dial 50 50 ''b'' passive_cluster (produce_client\<lparr>cin := produce_header @ cin produce_client\<rparr>) demo_router Map.empty
      = (RouteOk, conn_Close c, demo_router\<lparr>rtPool := snd (pool_Put 6 ''b1:9092'' up' cp)\<rparr>, st)"
    unfolding Route_def produce_read k by (simp only: prod.case sum.case produce_parse wrap_err.simps u g x get_result.case option.case)
  then show ?thesis by blast
qed

theorem failover_misses_data_path_witness:
  "chooseUpstream produce_env (Some (snd (Initialize (NewStateMachine :: sm_callback StateMachine) ''b'' StateSecondary), NewDrainManager 0, None)) ''b'' passive_cluster demo_proxy
     = (Inr (''k2:9092'', ''secondary'', True), demo_proxy)
   \<and> (\<exists>client' r' topics'. Route 5 6 demo_dial 50 50 ''b'' passive_cluster
         (produce_client\<lparr>cin := produce_header @ cin produce_client\<rparr>) demo_router Map.empty = (RouteOk, client', r', topics')
     \<and> (\<exists>e s'. handleFirstFrame produce_env ''b'' passive_cluster 9093 ''proxy'' ''secondary'' produce_header
          produce_client pipe_upstream demo_proxy = (e, client', conn_Close pipe_upstream, s'))
     \<and> (\<exists>frame hdr addr r1. upstreamFor demo_dial ''b'' passive_cluster hdr frame demo_router Map.empty = (Inr addr, r1, topics')
          \<and> primary_addr passive_cluster demo_router addr))"
proof -
  let ?sm = "snd (Initialize (NewStateMachine :: sm_callback StateMachine) ''b'' StateSecondary)"
  have m: "Mode passive_cluster = ModeActivePassive" "Active passive_cluster = ActivePrimary" by simp_all
  have s: "SM_State ?sm ''b'' = StateSecondary" by (simp add: SM_State_def Initialize_def NewStateMachine_def)
  have k: "Uint16 (drop 4 produce_header) \<in> {APIKeyProduce, APIKeyFetch}"
    by (simp add: Uint16_def be_nat_def)
  have b: "Bootstrap (Secondary passive_cluster) = ''k2:9092''" by (simp add: sample_logistics_def)
  have env: "ceNow produce_env = 5" "cePut produce_env = 6" "ceDialLeader produce_env = demo_dial" "ceUp produce_env = 50" "ceDown produce_env = 50"
    "pxRouter demo_proxy = demo_router" "pxTopics demo_proxy = Map.empty"
    by (simp_all add: produce_env_def demo_env_def demo_proxy_def)
  note f = failover_misses_data_path [OF m s k, of produce_env "NewDrainManager 0" None demo_proxy produce_client demo_proxy 9093 "''proxy''" pipe_upstream,
      unfolded env b]
  obtain client' r' topics' where R: "Route 5 6 demo_dial 50 50 ''b'' passive_cluster
         (produce_client\<lparr>cin := produce_header @ cin produce_client\<rparr>) demo_router Map.empty = (RouteOk, client', r', topics')"
    using produce_route by (elim exE) (rule that)
  obtain res c2 r2 t2 e s' where q: "(RouteOk, client', r', topics') = (res, c2, r2, t2)"
    and h: "handleFirstFrame produce_env ''b'' passive_cluster 9093 ''proxy'' ''secondary'' produce_header
          produce_client pipe_upstream demo_proxy = (e, c2, conn_Close pipe_upstream, s')"
    and a: "res = RouteOk \<longrightarrow> (\<exists>frame hdr addr r1 up1 cp. prefix frame (produce_header @ cin produce_client)
          \<and> upstreamFor demo_dial ''b'' passive_cluster hdr frame demo_router Map.empty = (Inr addr, r1, t2)
          \<and> pool_Get 5 (demo_dial addr) addr (rtPool r1) = (GetConn up1, cp) \<and> primary_addr passive_cluster demo_router addr)"
    using f [THEN conjunct2] unfolding R by (elim exE conjE) (rule that)
  have e: "res = RouteOk" "c2 = client'" "t2 = topics'" using q by (simp_all only: prod.inject)
  from a [unfolded e, rule_format, OF refl] obtain frame hdr addr r1
    where "upstreamFor demo_dial ''b'' passive_cluster hdr frame demo_router Map.empty = (Inr addr, r1, topics')"
    "primary_addr passive_cluster demo_router addr" by (elim exE conjE) (rule that)
  then show ?thesis using f [THEN conjunct1] R h [unfolded e]
    by (intro conjI exI [of _ client'] exI [of _ r'] exI [of _ topics'] exI [of _ e] exI [of _ s'] exI [of _ frame] exI [of _ hdr] exI [of _ addr] exI [of _ r1])
qed

end
