(* ===== verification/Config_Watch.thy ===== *)
theory Config_Watch
  imports Config "HOL-Library.Sublist"
begin

text \<open>
  Watching the configuration file: \<open>Reloader.Watch\<close> of \<^verbatim>\<open>internal/config/reloader.go\<close> and the
  \<open>Watcher\<close> of \<^verbatim>\<open>internal/config/watcher.go\<close>. Both debounce file events with a timer. A run is
  the list of what the select statement received, with the times; a timer whose deadline has come by
  the time of the next input has fired. The events themselves come from fsnotify.
\<close>

section \<open>File events\<close>

record fs_event =
  evName :: string
  evWrite :: bool
  evCreate :: bool

datatype watch_input =
    FsEvent fs_event
  | FsEventsClosed
  | FsError error
  | FsErrorsClosed
  | CtxDone
  | StopClosed

definition isRelevantEvent :: "fs_event \<Rightarrow> string \<Rightarrow> bool" where
  "isRelevantEvent event configPath = (if evName event \<noteq> configPath then False else evWrite event \<or> evCreate event)"

text \<open>A pending timer, with its deadline: what fired by time \<open>t\<close> and what is still pending.\<close>

fun expire :: "Time \<Rightarrow> Time option \<Rightarrow> Time list \<times> Time option" where
  "expire t None = ([], None)"
| "expire t (Some d) = (if d \<le> t then ([d], None) else ([], Some d))"

fun pending :: "Time option \<Rightarrow> Time list" where
  "pending None = []"
| "pending (Some d) = [d]"

section \<open>The reloader's loop\<close>

definition watchDebounce :: Duration where
  "watchDebounce = 200 * 1000000"

text \<open>
  The result: the times at which \<open>Reload\<close> is called, and the error \<open>Watch\<close> returns. Returning does not
  stop a pending timer.
\<close>

fun Watch :: "string \<Rightarrow> (Time \<times> watch_input) list \<Rightarrow> Time option \<Rightarrow> Time list \<times> error option" where
  "Watch path [] timer = (pending timer, None)"
| "Watch path ((t, i) # inputs) timer =
     (case expire t timer of (fired, timer) \<Rightarrow>
        case i of
          CtxDone \<Rightarrow> (fired @ pending timer, Some (Errorf ''context canceled''))
        | StopClosed \<Rightarrow> (fired @ pending timer, None)
        | FsEventsClosed \<Rightarrow> (fired @ pending timer, None)
        | FsErrorsClosed \<Rightarrow> (fired @ pending timer, None)
        | FsError _ \<Rightarrow> (case Watch path inputs timer of (rs, e) \<Rightarrow> (fired @ rs, e))
        | FsEvent event \<Rightarrow>
            (case Watch path inputs (if isRelevantEvent event path then Some (t + watchDebounce) else timer) of
               (rs, e) \<Rightarrow> (fired @ rs, e)))"

text \<open>\<open>Stop\<close> closes a channel, which panics the second time.\<close>

definition Reloader_Stop :: "bool \<Rightarrow> error + bool" where
  "Reloader_Stop stopped = (if stopped then Inl (Panic ''close of closed channel'') else Inr True)"

section \<open>The watcher's loop\<close>

record Watcher =
  wtPath :: string
  wtEvents :: "(string \<times> Time) list"
  wtErrs :: "error list"
  wtDebounce :: Duration
  wtTimer :: "Time option"

definition NewWatcher :: "string \<Rightarrow> Watcher" where
  "NewWatcher path = \<lparr>wtPath = path, wtEvents = [], wtErrs = [], wtDebounce = 100 * 1000000, wtTimer = None\<rparr>"

text \<open>\<open>filepath.Base\<close>: the last element of the path, without trailing slashes.\<close>

definition stripSlashes :: "string \<Rightarrow> string" where
  "stripSlashes p = rev (dropWhile (\<lambda>c. c = CHR ''/'') (rev p))"

definition filepath_Base :: "string \<Rightarrow> string" where
  "filepath_Base p =
     (if p = '''' then ''.''
      else let s = stripSlashes p in
        if s = '''' then ''/'' else rev (takeWhile (\<lambda>c. c \<noteq> CHR ''/'') (rev s)))"

text \<open>Both channels hold one element; a send that would block is dropped.\<close>

definition offer :: "'a \<Rightarrow> 'a list \<Rightarrow> 'a list" where
  "offer x ch = (if length ch < 1 then ch @ [x] else ch)"

definition timerFired :: "Time \<Rightarrow> Watcher \<Rightarrow> Watcher" where
  "timerFired t w =
     (case wtTimer w of
        Some d \<Rightarrow> if d \<le> t then w\<lparr>wtEvents := offer (wtPath w, d) (wtEvents w), wtTimer := None\<rparr> else w
      | None \<Rightarrow> w)"

definition watcherEvent :: "Time \<Rightarrow> fs_event \<Rightarrow> Watcher \<Rightarrow> Watcher" where
  "watcherEvent t event w =
     (if filepath_Base (evName event) \<noteq> filepath_Base (wtPath w) then w
      else if evWrite event \<or> evCreate event then w\<lparr>wtTimer := Some (t + wtDebounce w)\<rparr>
      else w)"

text \<open>The loop of \<open>Start\<close>, after the directory was added; the consumer takes nothing meanwhile.\<close>

fun Watcher_Start :: "(Time \<times> watch_input) list \<Rightarrow> Watcher \<Rightarrow> Watcher \<times> error option" where
  "Watcher_Start [] w = (w, None)"
| "Watcher_Start ((t, i) # inputs) w =
     (let w = timerFired t w in
      case i of
        CtxDone \<Rightarrow> (w, Some (Errorf ''context canceled''))
      | FsEventsClosed \<Rightarrow> (w, None)
      | FsErrorsClosed \<Rightarrow> (w, None)
      | FsError e \<Rightarrow> Watcher_Start inputs (w\<lparr>wtErrs := offer e (wtErrs w)\<rparr>)
      | FsEvent event \<Rightarrow> Watcher_Start inputs (watcherEvent t event w)
      | StopClosed \<Rightarrow> Watcher_Start inputs w)"

section \<open>Debouncing\<close>

text \<open>The specification: one firing for each burst, \<open>d\<close> after its last event.\<close>

fun burst_ends :: "Duration \<Rightarrow> Time list \<Rightarrow> Time list" where
  "burst_ends d [] = []"
| "burst_ends d [t] = [t + d]"
| "burst_ends d (t # u # ts) = (if t + d \<le> u then [t + d] else []) @ burst_ends d (u # ts)"

fun ends_watch :: "watch_input \<Rightarrow> bool" where
  "ends_watch (FsEvent _) = False"
| "ends_watch (FsError _) = False"
| "ends_watch _ = True"

text \<open>The times of the relevant events up to the end of the loop.\<close>

fun relevant_times :: "string \<Rightarrow> (Time \<times> watch_input) list \<Rightarrow> Time list" where
  "relevant_times path [] = []"
| "relevant_times path ((t, i) # inputs) =
     (if ends_watch i then []
      else (case i of FsEvent event \<Rightarrow> if isRelevantEvent event path then [t] else [] | _ \<Rightarrow> []) @ relevant_times path inputs)"

lemma relevant_times_later: "t \<in> set (relevant_times path inputs) \<Longrightarrow> t \<in> fst ` set inputs"
  by (induction inputs) (auto split: if_splits watch_input.splits)

lemma burst_ends_gap:
  assumes "t + d \<le> u" and "\<forall>v \<in> set ts. u \<le> v"
  shows "burst_ends d (t # ts) = (t + d) # burst_ends d ts"
  using assms by (cases ts) auto

lemma watch_bursts:
  assumes "sorted (map fst inputs)"
  shows "fst (Watch path inputs None) = burst_ends watchDebounce (relevant_times path inputs)
    \<and> (\<forall>s. (\<forall>i \<in> set inputs. s \<le> fst i) \<longrightarrow>
        fst (Watch path inputs (Some (s + watchDebounce))) = burst_ends watchDebounce (s # relevant_times path inputs))"
  using assms
proof (induction inputs)
  case Nil
  show ?case by simp
next
  case (Cons x inputs)
  obtain t i where x: "x = (t, i)" by fastforce
  have later: "\<forall>v \<in> set (relevant_times path inputs). t \<le> v" "\<forall>j \<in> set inputs. t \<le> fst j"
    using Cons.prems relevant_times_later by (auto simp: x)
  note IH = Cons.IH [OF sorted_tl [OF Cons.prems, simplified]]
  have d: "0 < watchDebounce" by (simp add: watchDebounce_def)
  note IHN = conjunct1 [OF IH] and IHS = conjunct2 [OF IH, rule_format]
  have "fst (Watch path (x # inputs) None) = burst_ends watchDebounce (relevant_times path (x # inputs))"
    using IHN IHS [of t] later(2) by (cases i) (auto simp: x split: prod.splits)
  moreover have "fst (Watch path (x # inputs) (Some (s + watchDebounce))) = burst_ends watchDebounce (s # relevant_times path (x # inputs))"
    if s: "\<forall>j \<in> set (x # inputs). s \<le> fst j" for s
  proof (cases "s + watchDebounce \<le> t")
    case True
    show ?thesis
      using True IHN IHS [of t] later burst_ends_gap [OF True, of "relevant_times path inputs"]
      by (cases i) (auto simp: x split: prod.splits)
  next
    case False
    show ?thesis
      using False IHS [of s] IHS [of t] later s by (cases i) (auto simp: x split: prod.splits)
  qed
  ultimately show ?case by blast
qed

section \<open>Directories\<close>

lemma parentDir_from_slash:
  assumes "k < n" and "p ! k = CHR ''/''" and "\<forall>i. k < i \<and> i < n \<longrightarrow> p ! i \<noteq> CHR ''/''"
  shows "parentDir_from p n = take k p"
  using assms
proof (induction n)
  case 0
  then show ?case by simp
next
  case (Suc n)
  then show ?case by (cases "k = n") auto
qed

lemma parentDir_join: "CHR ''/'' \<notin> set file \<Longrightarrow> parentDir (dir @ ''/'' @ file) = dir"
  unfolding parentDir_def
  by (subst parentDir_from_slash [of "length dir"]) (auto simp: nth_append nth_Cons in_set_conv_nth split: nat.splits)

section \<open>The watcher's channel\<close>

lemma offer_bounded: "length ch \<le> 1 \<Longrightarrow> length (offer x ch) \<le> 1"
  by (simp add: offer_def)

definition chans_ok :: "Watcher \<Rightarrow> bool" where
  "chans_ok w \<longleftrightarrow> length (wtEvents w) \<le> 1 \<and> length (wtErrs w) \<le> 1"

lemma chans_ok_steps:
  assumes "chans_ok w"
  shows "chans_ok (timerFired t w)" and "chans_ok (watcherEvent t e w)" and "chans_ok (w\<lparr>wtErrs := offer x (wtErrs w)\<rparr>)"
  using assms offer_bounded by (auto simp: chans_ok_def timerFired_def watcherEvent_def offer_def split: option.split)

text \<open>A slow consumer finds at most one event, however many bursts there were.\<close>

lemma watcher_bounded: "chans_ok w \<Longrightarrow> chans_ok (fst (Watcher_Start inputs w))"
proof (induction inputs arbitrary: w)
  case (Cons x inputs)
  obtain t i where x: "x = (t, i)" by fastforce
  have "chans_ok (timerFired t w)" using Cons.prems by (rule chans_ok_steps)
  then show ?case using Cons.IH chans_ok_steps by (cases i) (simp_all add: x Let_def)
qed simp

section \<open>Properties\<close>

lemma burst_ends_lower: "sorted (u # ts) \<Longrightarrow> r \<in> set (burst_ends d (u # ts)) \<Longrightarrow> u + d \<le> r"
proof (induction ts arbitrary: u)
  case (Cons v ts)
  then show ?case by (fastforce split: if_splits)
qed simp

lemma burst_ends_ne: "burst_ends d (u # ts) \<noteq> []"
  by (induction ts arbitrary: u) auto

lemma burst_ends_after: "sorted ts \<Longrightarrow> t \<in> set ts \<Longrightarrow> \<exists>r \<in> set (burst_ends d ts). t + d \<le> r"
proof (induction ts)
  case (Cons u ts)
  show ?case
  proof (cases "t = u")
    case True
    obtain r where "r \<in> set (burst_ends d (u # ts))" using burst_ends_ne [of d u ts] by (meson last_in_set)
    then show ?thesis using burst_ends_lower [OF Cons.prems(1)] True by blast
  next
    case False
    then obtain r where "r \<in> set (burst_ends d ts)" "t + d \<le> r" using Cons by auto
    then show ?thesis by (cases ts) auto
  qed
qed simp

lemma burst_ends_apart: "sorted ts \<Longrightarrow> sorted_wrt (\<lambda>r r'. r + d \<le> r') (burst_ends d ts)"
proof (induction d ts rule: burst_ends.induct)
  case (3 d t u ts)
  have "t + d + d \<le> r" if "t + d \<le> u" "r \<in> set (burst_ends d (u # ts))" for r
    using burst_ends_lower [OF _ that(2)] "3.prems" that(1) by fastforce
  then show ?case using 3 by (auto simp: sorted_wrt_append)
qed auto

lemma relevant_times_sorted: "sorted (map fst inputs) \<Longrightarrow> sorted (relevant_times path inputs)"
proof (induction inputs)
  case (Cons x inputs)
  have "\<forall>v \<in> set (relevant_times path inputs). fst x \<le> v" using Cons.prems relevant_times_later by fastforce
  then show ?case using Cons by (cases x) (auto split: watch_input.splits)
qed simp

lemma irrelevant_run: "\<forall>(t, i) \<in> set inputs. \<forall>e. i = FsEvent e \<longrightarrow> \<not> isRelevantEvent e path \<Longrightarrow> relevant_times path inputs = []"
  by (induction inputs) (auto split: watch_input.splits)

lemma slash_irrelevant: "evName e = dir @ ''/'' @ file \<Longrightarrow> CHR ''/'' \<notin> set path \<Longrightarrow> \<not> isRelevantEvent e path"
  by (auto simp: isRelevantEvent_def)

text \<open>
  C33. Watching the configuration file. For inputs in time order, \<open>Watch\<close> reloads exactly once per
  burst of relevant events, 200 ms after the last of the burst: every relevant event before the loop
  ends is followed by a reload, and reloads are at least 200 ms apart. With fsnotify's event
  names, which are the watched directory, a slash and the file, a write to a configuration file given
  with a directory is relevant; but for a path without a slash (the default \<^verbatim>\<open>config.yaml\<close>) the directory
  is ``.'', no event is relevant, and the file is never reloaded.
\<close>
theorem watch_reloads:
  assumes "sorted (map fst inputs)"
    and "\<forall>(t, i) \<in> set inputs. \<forall>e. i = FsEvent e \<longrightarrow> (\<exists>file. evName e = parentDir path @ ''/'' @ file)"
  shows "fst (Watch path inputs None) = burst_ends watchDebounce (relevant_times path inputs)
    \<and> (\<forall>t \<in> set (relevant_times path inputs). \<exists>r \<in> set (fst (Watch path inputs None)). t + watchDebounce \<le> r)
    \<and> sorted_wrt (\<lambda>r r'. r + watchDebounce \<le> r') (fst (Watch path inputs None))
    \<and> (\<forall>dir file. path = dir @ ''/'' @ file \<and> CHR ''/'' \<notin> set file \<longrightarrow>
        isRelevantEvent \<lparr>evName = parentDir path @ ''/'' @ file, evWrite = True, evCreate = c\<rparr> path)
    \<and> (CHR ''/'' \<notin> set path \<longrightarrow> fst (Watch path inputs None) = [])"
proof -
  have w: "fst (Watch path inputs None) = burst_ends watchDebounce (relevant_times path inputs)"
    using watch_bursts [OF assms(1)] by blast
  note s = relevant_times_sorted [OF assms(1), of path]
  have "relevant_times path inputs = []" if "CHR ''/'' \<notin> set path"
    using assms(2) slash_irrelevant [OF _ that] by (intro irrelevant_run) blast
  then have n: "CHR ''/'' \<notin> set path \<longrightarrow> fst (Watch path inputs None) = []" unfolding w by simp
  have r: "isRelevantEvent \<lparr>evName = parentDir path @ ''/'' @ f, evWrite = True, evCreate = c\<rparr> path"
    if "path = dir @ ''/'' @ f \<and> CHR ''/'' \<notin> set f" for dir f
    using that parentDir_join [of f dir] by (simp add: isRelevantEvent_def)
  have a: "\<forall>t \<in> set (relevant_times path inputs). \<exists>r \<in> set (fst (Watch path inputs None)). t + watchDebounce \<le> r"
    using burst_ends_after [OF s] unfolding w by blast
  have g: "sorted_wrt (\<lambda>r r'. r + watchDebounce \<le> r') (fst (Watch path inputs None))"
    using burst_ends_apart [OF s] unfolding w .
  show ?thesis using w a g n r by (intro conjI allI impI) (assumption | blast)+
qed

abbreviation demo_write :: "string \<Rightarrow> watch_input" where
  "demo_write name \<equiv> FsEvent \<lparr>evName = name, evWrite = True, evCreate = False\<rparr>"

theorem watch_reloads_witness:
  "fst (Watch ''config.yaml'' [(5, demo_write ''./config.yaml'')] None) = []
   \<and> fst (Watch ''/etc/c.yaml'' [(5, demo_write ''/etc/c.yaml''), (6, demo_write ''/etc/c.yaml'')] None) = [200000006]"
proof
  have p: "parentDir ''config.yaml'' = ''.''" by code_simp
  have "\<forall>(t, i) \<in> set [(5, demo_write ''./config.yaml'')]. \<forall>e. i = FsEvent e \<longrightarrow> (\<exists>file. evName e = parentDir ''config.yaml'' @ ''/'' @ file)"
    by (simp add: p)
  from watch_reloads [OF _ this] show "fst (Watch ''config.yaml'' [(5, demo_write ''./config.yaml'')] None) = []"
    by (simp add: isRelevantEvent_def)
  have q: "parentDir ''/etc/c.yaml'' = ''/etc''" by code_simp
  have "\<forall>(t, i) \<in> set [(5, demo_write ''/etc/c.yaml''), (6, demo_write ''/etc/c.yaml'')].
      \<forall>e. i = FsEvent e \<longrightarrow> (\<exists>file. evName e = parentDir ''/etc/c.yaml'' @ ''/'' @ file)"
    by (simp add: q)
  from watch_reloads [OF _ this]
  show "fst (Watch ''/etc/c.yaml'' [(5, demo_write ''/etc/c.yaml''), (6, demo_write ''/etc/c.yaml'')] None) = [200000006]"
    by (simp add: isRelevantEvent_def watchDebounce_def)
qed

end
