(* ===== verification/Observability.thy ===== *)
theory Observability
  imports Complex_Main Connection
begin

text \<open>
  The observability server, \<^verbatim>\<open>internal/server/server.go\<close> and \<^verbatim>\<open>adapter.go\<close>: the metrics of a scrape,
  the status snapshot and the small HTTP handlers. A provider is what it answers at the time of the
  request, and \<open>None\<close> for a nil one. Values that the code converts to \<^verbatim>\<open>float64\<close> are exact rationals
  here. HTTP and JSON encoding, and the Prometheus registry, are libraries; a handler's result is the
  status code and the value that is encoded.
\<close>

section \<open>Health in the server's format\<close>

record EndpointHealth =
  ehHealthy :: bool
  ehConsecutiveFailures :: int
  ehConsecutiveSuccesses :: int
  ehLastCheckLatency :: Duration
  ehLastStatus :: string
  ehLastError :: string
  ehUpSince :: Time
  ehBootstrap :: string

record ClusterHealthSnapshot =
  cnName :: string
  cnPrimary :: EndpointHealth
  cnSecondary :: EndpointHealth

fun Status_string :: "Status \<Rightarrow> string" where
  "Status_string StatusUnset = ''''"
| "Status_string StatusHealthy = ''healthy''"
| "Status_string StatusDegraded = ''degraded''"
| "Status_string StatusUnreachable = ''unreachable''"

definition convertSnapshot :: "Snapshot \<Rightarrow> EndpointHealth" where
  "convertSnapshot s =
     \<lparr>ehHealthy = snHealthy s, ehConsecutiveFailures = snConsecutiveFailures s,
      ehConsecutiveSuccesses = snConsecutiveSuccesses s, ehLastCheckLatency = snLastCheckLatency s,
      ehLastStatus = Status_string (snLastStatus s), ehLastError = snLastError s, ehUpSince = snUpSince s,
      ehBootstrap = snBootstrap s\<rparr>"

text \<open>The adapter holds a checker, given by its answer; a nil map reads as the empty one.\<close>

type_synonym HealthCheckerAdapter = "(string \<rightharpoonup> ClusterHealth) option"

definition NewHealthCheckerAdapter :: "(string \<rightharpoonup> ClusterHealth) option \<Rightarrow> HealthCheckerAdapter" where
  "NewHealthCheckerAdapter checker = checker"

definition UpdateChecker :: "(string \<rightharpoonup> ClusterHealth) option \<Rightarrow> HealthCheckerAdapter \<Rightarrow> HealthCheckerAdapter" where
  "UpdateChecker checker a = checker"

definition Adapter_Health :: "HealthCheckerAdapter \<Rightarrow> (string \<rightharpoonup> ClusterHealthSnapshot)" where
  "Adapter_Health a =
     (case a of
        None \<Rightarrow> Map.empty
      | Some raw \<Rightarrow> (\<lambda>name. map_option (\<lambda>ch.
          \<lparr>cnName = chName ch, cnPrimary = convertSnapshot (chPrimary ch), cnSecondary = convertSnapshot (chSecondary ch)\<rparr>) (raw name)))"

section \<open>The server\<close>

definition FM_Snapshot :: "FailoverMetrics \<Rightarrow> int \<times> (string \<rightharpoonup> string)" where
  "FM_Snapshot fm = (totalFailovers fm, circuitBreaker fm)"

record Server =
  svPort :: int
  svHealth :: "(string \<rightharpoonup> ClusterHealthSnapshot) option"
  svDrain :: "dm_callback DrainManager option"
  svCfg :: "Config option"
  svWeights :: "(string \<Rightarrow> int \<times> int \<times> bool) option"
  svFailover :: "(string \<Rightarrow> string \<times> bool) option"
  svMetrics :: "FailoverMetrics option"
  svStart :: Time

definition Server_New :: "Time \<Rightarrow> int \<Rightarrow> (string \<rightharpoonup> ClusterHealthSnapshot) option \<Rightarrow> dm_callback DrainManager option \<Rightarrow>
    Config option \<Rightarrow> FailoverMetrics option \<Rightarrow> Server" where
  "Server_New now port healthProv drainProv cfgProv fm =
     \<lparr>svPort = (if port \<le> 0 then 8080 else port), svHealth = healthProv, svDrain = drainProv, svCfg = cfgProv,
      svWeights = None, svFailover = None, svMetrics = fm, svStart = now\<rparr>"

definition SetWeightProvider :: "(string \<Rightarrow> int \<times> int \<times> bool) \<Rightarrow> Server \<Rightarrow> Server" where
  "SetWeightProvider wp s = s\<lparr>svWeights := Some wp\<rparr>"

definition SetFailoverStateProvider :: "(string \<Rightarrow> string \<times> bool) \<Rightarrow> Server \<Rightarrow> Server" where
  "SetFailoverStateProvider fp s = s\<lparr>svFailover := Some fp\<rparr>"

definition failoverMetrics :: "Server \<Rightarrow> int \<times> (string \<rightharpoonup> string)" where
  "failoverMetrics s = (case svMetrics s of None \<Rightarrow> (0, Map.empty) | Some fm \<Rightarrow> FM_Snapshot fm)"

text \<open>The handlers of the mux: the pattern \<^verbatim>\<open>/\<close> gets every path that no other pattern is.\<close>

datatype endpoint = EpHealth | EpMetrics | EpStatus | EpTopicStats | EpDashboard | EpNotFound

definition serveMux :: "string \<Rightarrow> endpoint" where
  "serveMux path =
     (if path = ''/health'' then EpHealth
      else if path = ''/metrics'' then EpMetrics
      else if path = ''/status'' then EpStatus
      else if path = ''/topic-stats'' then EpTopicStats
      else if path \<noteq> ''/'' then EpNotFound else EpDashboard)"

definition handleHealth :: "string \<Rightarrow> int \<times> string" where
  "handleHealth meth = (if meth \<noteq> ''GET'' then (405, ''method not allowed'') else (200, ''{\"status\":\"ok\"}''))"

section \<open>Metrics\<close>

datatype metric_kind = GaugeValue | CounterValue

record Metric =
  mtName :: string
  mtKind :: metric_kind
  mtValue :: rat
  mtLabels :: "string list"

definition Seconds :: "Duration \<Rightarrow> rat" where
  "Seconds d = rat_of_int d / 1000000000"

text \<open>The descriptors with their label names, in the order of \<open>Describe\<close>.\<close>

definition metricDescs :: "(string \<times> string list) list" where
  "metricDescs =
     [(''proxy_up'', []), (''proxy_uptime_seconds'', []), (''proxy_connections_active'', [''bu'']),
      (''proxy_failover_total'', []), (''proxy_health_status'', [''bu'', ''endpoint'']),
      (''proxy_health_consecutive_failures'', [''bu'', ''endpoint'']),
      (''proxy_health_consecutive_successes'', [''bu'', ''endpoint'']),
      (''proxy_health_last_check_latency_seconds'', [''bu'', ''endpoint'']),
      (''proxy_health_up_since_seconds'', [''bu'', ''endpoint'']),
      (''proxy_circuit_breaker'', [''bu'']), (''proxy_drain_active'', [''bu'']), (''proxy_build_info'', [''version''])]"

definition gauge :: "string \<Rightarrow> rat \<Rightarrow> string list \<Rightarrow> Metric" where
  "gauge name v labels = \<lparr>mtName = name, mtKind = GaugeValue, mtValue = v, mtLabels = labels\<rparr>"

definition emitEndpointMetrics :: "Time \<Rightarrow> string \<Rightarrow> string \<Rightarrow> EndpointHealth \<Rightarrow> Metric list" where
  "emitEndpointMetrics now bu endpoint h =
     [gauge ''proxy_health_status'' (if ehHealthy h then 1 else 0) [bu, endpoint],
      gauge ''proxy_health_consecutive_failures'' (rat_of_int (ehConsecutiveFailures h)) [bu, endpoint],
      gauge ''proxy_health_consecutive_successes'' (rat_of_int (ehConsecutiveSuccesses h)) [bu, endpoint],
      gauge ''proxy_health_last_check_latency_seconds'' (Seconds (ehLastCheckLatency h)) [bu, endpoint],
      gauge ''proxy_health_up_since_seconds'' (if ehUpSince h = zero_time then 0 else Seconds (Since now (ehUpSince h))) [bu, endpoint]]"

definition clusterMetrics :: "Time \<Rightarrow> dm_callback DrainManager option \<Rightarrow> string \<Rightarrow> ClusterHealthSnapshot \<Rightarrow> Metric list" where
  "clusterMetrics now drainProv name ch =
     emitEndpointMetrics now name ''primary'' (cnPrimary ch) @ emitEndpointMetrics now name ''secondary'' (cnSecondary ch)
     @ (case drainProv of
          None \<Rightarrow> []
        | Some dm \<Rightarrow> [gauge ''proxy_drain_active'' (if IsDraining dm name then 1 else 0) [name],
                      gauge ''proxy_connections_active'' (rat_of_int (ActiveConnections dm name)) [name]])"

text \<open>The maps are visited in the orders \<open>hs\<close> (health), \<open>bus\<close> (trackers) and \<open>cbs\<close> (breakers).\<close>

definition Metrics_Collect :: "Time \<Rightarrow> string list \<Rightarrow> string list \<Rightarrow> string list \<Rightarrow> Server \<Rightarrow> Metric list" where
  "Metrics_Collect now hs bus cbs s =
     (case failoverMetrics s of (failoverTotal, cbStates) \<Rightarrow>
        [gauge ''proxy_up'' 1 [], gauge ''proxy_uptime_seconds'' (Seconds (Since now (svStart s))) [],
         \<lparr>mtName = ''proxy_failover_total'', mtKind = CounterValue, mtValue = rat_of_int failoverTotal, mtLabels = []\<rparr>]
        @ (case svDrain s of
             None \<Rightarrow> []
           | Some dm \<Rightarrow> [gauge ''proxy_connections_active'' (rat_of_int (TotalActiveConnections bus dm)) ['''']])
        @ (case svHealth s of
             None \<Rightarrow> []
           | Some health \<Rightarrow> concat (map (\<lambda>name. clusterMetrics now (svDrain s) name (the (health name))) hs))
        @ map (\<lambda>bu. gauge ''proxy_circuit_breaker'' (if cbStates bu = Some ''broken'' then 1 else 0) [bu]) cbs
        @ [gauge ''proxy_build_info'' 1 [''1.0.0'']])"

section \<open>The status snapshot\<close>

record endpointStatusDetail =
  esHealthy :: bool
  esConsecutiveFailures :: int
  esConsecutiveSuccesses :: int
  esLastCheckLatencyMS :: rat
  esLastStatus :: string
  esLastError :: string
  esBootstrap :: string
  esWeight :: int

record clusterStatus =
  ctName :: string
  ctMode :: string
  ctActive :: string
  ctPrimary :: endpointStatusDetail
  ctSecondary :: endpointStatusDetail
  ctDraining :: bool

record statusResponse =
  srUptimeSeconds :: rat
  srTotal :: int
  srPerBU :: "string \<rightharpoonup> int"
  srClusters :: "clusterStatus list"
  srTotalFailovers :: int
  srCircuitBreaker :: "string \<rightharpoonup> string"

text \<open>Go's \<open>Microseconds\<close>: the duration divided by 1000, towards zero.\<close>

definition Microseconds :: "Duration \<Rightarrow> int" where
  "Microseconds d = sgn d * (\<bar>d\<bar> div 1000)"

definition endpointToDetail :: "EndpointHealth \<Rightarrow> int \<Rightarrow> endpointStatusDetail" where
  "endpointToDetail h weight =
     \<lparr>esHealthy = ehHealthy h, esConsecutiveFailures = ehConsecutiveFailures h,
      esConsecutiveSuccesses = ehConsecutiveSuccesses h,
      esLastCheckLatencyMS = rat_of_int (Microseconds (ehLastCheckLatency h)) / 1000,
      esLastStatus = ehLastStatus h, esLastError = ehLastError h, esBootstrap = ehBootstrap h, esWeight = weight\<rparr>"

definition zeroDetail :: endpointStatusDetail where
  "zeroDetail = \<lparr>esHealthy = False, esConsecutiveFailures = 0, esConsecutiveSuccesses = 0, esLastCheckLatencyMS = 0,
     esLastStatus = '''', esLastError = '''', esBootstrap = '''', esWeight = 0\<rparr>"

definition statusActive :: "Server \<Rightarrow> string \<Rightarrow> ClusterConfig \<Rightarrow> string" where
  "statusActive s name cc =
     (if Mode cc = ModeActivePassive then
        (case svFailover s of
           None \<Rightarrow> Active cc
         | Some fp \<Rightarrow> (case fp name of (eff, ok) \<Rightarrow> if ok then eff else Active cc))
      else '''')"

definition statusWeights :: "Server \<Rightarrow> string \<Rightarrow> ClusterConfig \<Rightarrow> int \<times> int" where
  "statusWeights s name cc =
     (case svWeights s of
        Some wp \<Rightarrow>
          if Mode cc = ModeLoadBalance then
            (case wp name of (p, sec, ok) \<Rightarrow> if ok then (p, sec) else (Weight (Primary cc), Weight (Secondary cc)))
          else (Weight (Primary cc), Weight (Secondary cc))
      | None \<Rightarrow> (Weight (Primary cc), Weight (Secondary cc)))"

definition statusOf :: "Server \<Rightarrow> (string \<rightharpoonup> ClusterHealthSnapshot) \<Rightarrow> string \<Rightarrow> ClusterConfig \<Rightarrow> clusterStatus" where
  "statusOf s health name cc =
     (case statusWeights s name cc of (primaryWeight, secondaryWeight) \<Rightarrow>
        \<lparr>ctName = name, ctMode = Mode cc, ctActive = statusActive s name cc,
         ctPrimary = (case health name of None \<Rightarrow> zeroDetail | Some ch \<Rightarrow> endpointToDetail (cnPrimary ch) primaryWeight),
         ctSecondary = (case health name of None \<Rightarrow> zeroDetail | Some ch \<Rightarrow> endpointToDetail (cnSecondary ch) secondaryWeight),
         ctDraining = (case svDrain s of None \<Rightarrow> False | Some dm \<Rightarrow> IsDraining dm name)\<rparr>)"

definition handleStatus :: "Time \<Rightarrow> string list \<Rightarrow> string \<Rightarrow> Server \<Rightarrow> int \<times> statusResponse option" where
  "handleStatus now bus meth s =
     (if meth \<noteq> ''GET'' then (405, None)
      else
        (case failoverMetrics s of (failoverTotal, cbStates) \<Rightarrow>
           let resp = \<lparr>srUptimeSeconds = Seconds (Since now (svStart s)),
                       srTotal = (case svDrain s of None \<Rightarrow> 0 | Some dm \<Rightarrow> TotalActiveConnections bus dm),
                       srPerBU = Map.empty, srClusters = [], srTotalFailovers = failoverTotal, srCircuitBreaker = cbStates\<rparr>
           in (200, Some (case (svCfg s, svHealth s) of
                (Some cfg, Some health) \<Rightarrow>
                  fold (\<lambda>(name, cc) resp.
                     resp\<lparr>srClusters := srClusters resp @ [statusOf s health name cc],
                          srPerBU := (case svDrain s of
                              None \<Rightarrow> srPerBU resp
                            | Some dm \<Rightarrow> (srPerBU resp)(name \<mapsto> ActiveConnections dm name))\<rparr>)
                    (Clusters cfg) resp
              | _ \<Rightarrow> resp))))"

definition handleTopicStats :: "string list \<Rightarrow> string list \<Rightarrow> topic_stats \<Rightarrow> cluster_stats \<Rightarrow> TopicStats list \<times> ClusterStats list" where
  "handleTopicStats ts cs topics clusters = (GetTopicStats ts topics, GetClusterStats cs clusters)"

section \<open>What a scrape emits\<close>

definition metric_key :: "Metric \<Rightarrow> string \<times> string list" where
  "metric_key m = (mtName m, mtLabels m)"

lemma metric_key_gauge [simp]: "metric_key (gauge name v ls) = (name, ls)"
  by (simp add: metric_key_def gauge_def)

lemma distinct_concat_tagged:
  assumes "distinct xs" and "\<And>x. x \<in> set xs \<Longrightarrow> distinct (f x)" and "\<And>x y. x \<in> set xs \<Longrightarrow> y \<in> set (f x) \<Longrightarrow> tag y = x"
  shows "distinct (concat (map f xs))"
  using assms
proof (induction xs)
  case (Cons x xs)
  have "y \<notin> set (concat (map f xs))" if y: "y \<in> set (f x)" for y
  proof
    assume "y \<in> set (concat (map f xs))"
    then obtain x' where "x' \<in> set xs" "y \<in> set (f x')" by auto
    then have "x' = x" using Cons.prems(3) [of x' y] Cons.prems(3) [of x y] y by simp
    then show False using \<open>x' \<in> set xs\<close> Cons.prems(1) by simp
  qed
  then have "set (f x) \<inter> set (concat (map f xs)) = {}" by blast
  then show ?case using Cons by simp
qed simp

lemma cluster_keys:
  "map metric_key (clusterMetrics now d n ch) =
     map (\<lambda>k. (k, [n, ''primary''])) (map fst (take 5 (drop 4 metricDescs)))
   @ map (\<lambda>k. (k, [n, ''secondary''])) (map fst (take 5 (drop 4 metricDescs)))
   @ (if d = None then [] else [(''proxy_drain_active'', [n]), (''proxy_connections_active'', [n])])"
  by (cases d) (simp_all add: clusterMetrics_def emitEndpointMetrics_def metricDescs_def)

lemma cluster_keys_distinct: "distinct (map metric_key (clusterMetrics now d n ch))"
  by (simp add: cluster_keys metricDescs_def)

lemma cluster_keys_hd: "k \<in> set (map metric_key (clusterMetrics now d n ch)) \<Longrightarrow> hd (snd k) = n"
  by (auto simp: cluster_keys metricDescs_def split: if_splits)

lemma cluster_keys_conn:
  "(''proxy_connections_active'', ls) \<in> set (map metric_key (clusterMetrics now d n ch)) \<longleftrightarrow> d \<noteq> None \<and> ls = [n]"
  by (auto simp: cluster_keys metricDescs_def)

lemma cluster_keys_names:
  "k \<in> set (map metric_key (clusterMetrics now d n ch)) \<Longrightarrow>
   fst k \<notin> {''proxy_up'', ''proxy_uptime_seconds'', ''proxy_failover_total'', ''proxy_circuit_breaker'', ''proxy_build_info''}"
  by (auto simp: cluster_keys metricDescs_def split: if_splits)

lemma cluster_metrics_described:
  "m \<in> set (clusterMetrics now d n ch) \<Longrightarrow> \<exists>ls. (mtName m, ls) \<in> set metricDescs \<and> length ls = length (mtLabels m)"
  by (cases d) (auto simp: clusterMetrics_def emitEndpointMetrics_def metricDescs_def gauge_def)

definition healthPart :: "Time \<Rightarrow> string list \<Rightarrow> Server \<Rightarrow> Metric list" where
  "healthPart now hs s = (case svHealth s of None \<Rightarrow> []
     | Some health \<Rightarrow> concat (map (\<lambda>name. clusterMetrics now (svDrain s) name (the (health name))) hs))"

lemma healthPart_keys:
  assumes "distinct hs" and "svHealth s = Some health"
  shows "distinct (map metric_key (healthPart now hs s))"
    and "(''proxy_connections_active'', ls) \<in> set (map metric_key (healthPart now hs s)) \<longleftrightarrow> svDrain s \<noteq> None \<and> (\<exists>n \<in> set hs. ls = [n])"
    and "k \<in> set (map metric_key (healthPart now hs s)) \<Longrightarrow>
      fst k \<notin> {''proxy_up'', ''proxy_uptime_seconds'', ''proxy_failover_total'', ''proxy_circuit_breaker'', ''proxy_build_info''}"
proof -
  let ?f = "\<lambda>n. map metric_key (clusterMetrics now (svDrain s) n (the (health n)))"
  have h: "map metric_key (healthPart now hs s) = concat (map ?f hs)"
    by (simp add: healthPart_def assms(2) map_concat comp_def)
  show "distinct (map metric_key (healthPart now hs s))" unfolding h
    by (rule distinct_concat_tagged [where tag = "\<lambda>k. hd (snd k)"]) (use assms(1) cluster_keys_distinct cluster_keys_hd in blast)+
  show "(''proxy_connections_active'', ls) \<in> set (map metric_key (healthPart now hs s)) \<longleftrightarrow> svDrain s \<noteq> None \<and> (\<exists>n \<in> set hs. ls = [n])"
    unfolding h using cluster_keys_conn [of ls now "svDrain s"] by auto
  show "k \<in> set (map metric_key (healthPart now hs s)) \<Longrightarrow>
      fst k \<notin> {''proxy_up'', ''proxy_uptime_seconds'', ''proxy_failover_total'', ''proxy_circuit_breaker'', ''proxy_build_info''}"
    unfolding h using cluster_keys_names by fastforce
qed

lemma Metrics_Collect_keys:
  "map metric_key (Metrics_Collect now hs bus cbs s) =
     [(''proxy_up'', []), (''proxy_uptime_seconds'', []), (''proxy_failover_total'', [])]
   @ (if svDrain s = None then [] else [(''proxy_connections_active'', [''''])])
   @ map metric_key (healthPart now hs s)
   @ map (\<lambda>bu. (''proxy_circuit_breaker'', [bu])) cbs @ [(''proxy_build_info'', [''1.0.0''])]"
  by (cases "svDrain s"; cases "failoverMetrics s") (simp_all add: Metrics_Collect_def healthPart_def metric_key_def gauge_def comp_def)

section \<open>What the status reports\<close>

lemma status_fold:
  "srClusters (fold (\<lambda>(name, cc) resp.
       resp\<lparr>srClusters := srClusters resp @ [F name cc], srPerBU := (srPerBU resp)(name \<mapsto> G name)\<rparr>) cs r)
     = srClusters r @ map (\<lambda>(name, cc). F name cc) cs
   \<and> srPerBU (fold (\<lambda>(name, cc) resp.
       resp\<lparr>srClusters := srClusters resp @ [F name cc], srPerBU := (srPerBU resp)(name \<mapsto> G name)\<rparr>) cs r)
     = (\<lambda>n. if n \<in> fst ` set cs then Some (G n) else srPerBU r n)
   \<and> srTotal (fold (\<lambda>(name, cc) resp.
       resp\<lparr>srClusters := srClusters resp @ [F name cc], srPerBU := (srPerBU resp)(name \<mapsto> G name)\<rparr>) cs r) = srTotal r"
proof (induction cs arbitrary: r)
  case (Cons c cs)
  then show ?case by (cases c) auto
qed (simp add: fun_eq_iff)

text \<open>The target of a new connection as \<open>upstreamTarget\<close> computes it under a coordinator.\<close>

lemma TargetForRouting_ok: "snd (TargetForRouting sm dm look bu)"
  by (auto simp: TargetForRouting_def split: BUState.split option.split)

lemma upstreamTarget_passive:
  assumes "Mode cc = ModeActivePassive"
  shows "fst (snd (upstreamTarget cc (Some (sm, dm, look)) name))
    = (if fst (TargetForRouting sm dm look name) = ActivePrimary then ''primary'' else ''secondary'')"
  using assms TargetForRouting_ok [of sm dm look name] by (auto simp: upstreamTarget_def split: prod.split)

lemma no_opinion_routes_primary:
  assumes "dr_reach cfg0 m" and "\<not> snd (EffectiveActive m name)"
  shows "fst (TargetForRouting (mgSM m) (mgDM m) (Some (mgControllers m)) name) = ActivePrimary"
proof -
  have "SM_State (mgSM m) name = StateBothDown" using effective_active_agrees [OF assms(1), of name] assms(2) by blast
  then show ?thesis using assms(2) by (auto simp: EffectiveActive_def TargetForRouting_def split: option.splits if_splits)
qed

lemma opinion_is_real:
  assumes "dr_reach cfg0 m" and "snd (EffectiveActive m name)"
  shows "fst (EffectiveActive m name) \<in> {ActivePrimary, ActiveSecondary}"
proof -
  have "dr_inv (mgSM m, mgDM m)" using dr_reach_inv [OF assms(1)] by (simp add: mgr_inv_def)
  then show ?thesis using assms(2)
    by (auto simp: EffectiveActive_def DrainNewActive_def DrainState_def dr_inv_def split: BUState.splits option.splits if_splits)
qed

lemma status_active_routed:
  assumes "dr_reach cfg0 m" and "svFailover s = Some (EffectiveActive m)" and "Mode cc = ModeActivePassive"
    and "Active cc \<in> {ActivePrimary, ActiveSecondary}"
  shows "statusActive s name cc = fst (snd (upstreamTarget cc (Some (mgSM m, mgDM m, Some (mgControllers m))) name))
    \<longleftrightarrow> snd (EffectiveActive m name) \<or> Active cc = ActivePrimary"
proof (cases "snd (EffectiveActive m name)")
  case True
  have "EffectiveActive m name = TargetForRouting (mgSM m) (mgDM m) (Some (mgControllers m)) name"
    using effective_active_agrees [OF assms(1), of name] True by blast
  then show ?thesis using True assms(2-4) opinion_is_real [OF assms(1) True]
    by (auto simp: statusActive_def upstreamTarget_passive ActivePrimary_def ActiveSecondary_def split: prod.splits)
next
  case False
  then show ?thesis using no_opinion_routes_primary [OF assms(1) False] assms(2-4)
    by (auto simp: statusActive_def upstreamTarget_passive ActivePrimary_def ActiveSecondary_def split: prod.splits)
qed

section \<open>Properties\<close>

text \<open>
  C40. A scrape is well formed. Every metric that \<open>Collect\<close> emits has a descriptor of \<open>Describe\<close> and as
  many label values as that descriptor has labels, so \<open>MustNewConstMetric\<close> does not panic; and no two
  metrics have the same name and labels, which the registry would reject with the whole scrape,
  exactly if no cluster with an empty name is under health checks while connections are tracked: its
  connection gauge collides with the total.
\<close>
theorem scrape_well_formed:
  assumes "svHealth s = Some health" and "enumerates hs health" and "enumerates cbs (snd (failoverMetrics s))"
  shows "(\<forall>m \<in> set (Metrics_Collect now hs bus cbs s). \<exists>ls. (mtName m, ls) \<in> set metricDescs \<and> length ls = length (mtLabels m))
    \<and> (distinct (map (\<lambda>m. (mtName m, mtLabels m)) (Metrics_Collect now hs bus cbs s)) \<longleftrightarrow> svDrain s = None \<or> health '''' = None)"
proof
  show "\<forall>m \<in> set (Metrics_Collect now hs bus cbs s). \<exists>ls. (mtName m, ls) \<in> set metricDescs \<and> length ls = length (mtLabels m)"
    using cluster_metrics_described
    by (auto simp: Metrics_Collect_def assms(1) gauge_def metricDescs_def split: prod.split option.split)
  have d: "distinct hs" "set hs = dom health" "distinct cbs" using assms(2,3) by (auto simp: enumerates_def)
  note h = healthPart_keys [OF d(1) assms(1)]
  let ?h = "map metric_key (healthPart now hs s)"
  have c: "(''proxy_circuit_breaker'', ls) \<notin> set ?h" "(''proxy_build_info'', ls) \<notin> set ?h" "(''proxy_up'', ls) \<notin> set ?h"
    "(''proxy_uptime_seconds'', ls) \<notin> set ?h" "(''proxy_failover_total'', ls) \<notin> set ?h" for ls
    using h(3) by fastforce+
  let ?b = "map (\<lambda>bu. (''proxy_circuit_breaker'', [bu])) cbs"
  have b: "(k, ls) \<in> set ?b \<Longrightarrow> k = ''proxy_circuit_breaker''" for k :: string and ls :: "string list" by auto
  have db: "distinct ?b" using d(3) by (simp add: distinct_map inj_on_def)
  have disj: "set ?h \<inter> set ?b = {}" using c(1) by auto
  have conn: "(''proxy_connections_active'', ['''']) \<in> set ?h \<longleftrightarrow> svDrain s \<noteq> None \<and> health '''' \<noteq> None"
    using h(2) [where now = now and ls = "['''']"] d(2) by (auto simp: dom_def)
  have "distinct ([(''proxy_up'', []), (''proxy_uptime_seconds'', []), (''proxy_failover_total'', [])]
       @ (if svDrain s = None then [] else [(''proxy_connections_active'', [''''])]) @ H @ B @ [(''proxy_build_info'', [''1.0.0''])])
     \<longleftrightarrow> svDrain s = None \<or> health '''' = None"
    if "distinct H" "distinct B" "set H \<inter> set B = {}"
      "(''proxy_connections_active'', ['''']) \<in> set H \<longleftrightarrow> svDrain s \<noteq> None \<and> health '''' \<noteq> None"
      "\<And>ls. (''proxy_build_info'', ls) \<notin> set H" "\<And>ls. (''proxy_up'', ls) \<notin> set H"
      "\<And>ls. (''proxy_uptime_seconds'', ls) \<notin> set H" "\<And>ls. (''proxy_failover_total'', ls) \<notin> set H"
      "\<And>k ls. (k, ls) \<in> set B \<Longrightarrow> k = ''proxy_circuit_breaker''" for H B :: "(string \<times> string list) list"
    using that(1-8) that(9) [of "''proxy_up''"] that(9) [of "''proxy_uptime_seconds''"] that(9) [of "''proxy_failover_total''"]
      that(9) [of "''proxy_connections_active''"] that(9) [of "''proxy_build_info''"] by auto
  note keys = this [OF h(1) db disj conn c(2-5)]
  have "distinct (map metric_key (Metrics_Collect now hs bus cbs s)) \<longleftrightarrow> svDrain s = None \<or> health '''' = None"
    unfolding Metrics_Collect_keys by (rule keys) (erule b)
  then show "distinct (map (\<lambda>m. (mtName m, mtLabels m)) (Metrics_Collect now hs bus cbs s)) \<longleftrightarrow> svDrain s = None \<or> health '''' = None"
    unfolding metric_key_def [abs_def] .
qed

text \<open>
  C18. What \<^verbatim>\<open>/status\<close> says is what new connections meet. For a server wired to a reachable system, the
  response lists the configured clusters in order with their connection counts and drain flags; for a
  load-balanced cluster under health checks the reported weights are the router's effective ones;
  and for an active/passive cluster the reported active cluster is the one new connections are sent to
  exactly if the failover manager has an opinion or the configured active is the primary: in
  BOTH\_DOWN without an opinion the status falls back to the configuration and routing to the primary.
\<close>
theorem status_reports_routing:
  assumes "dr_reach cfg0 m" and "svFailover s = Some (EffectiveActive m)" and "svDrain s = Some (mgDM m)"
    and "svWeights s = Some (\<lambda>n. ls_EffectiveWeights cfg n l)" and "svCfg s = Some cfg" and "svHealth s = Some health"
    and "distinct (map fst (Clusters cfg))" and "(name, cc) \<in> set (Clusters cfg)"
    and "Active cc \<in> {ActivePrimary, ActiveSecondary} \<or> Mode cc \<noteq> ModeActivePassive"
  shows "\<exists>resp. handleStatus now bus ''GET'' s = (200, Some resp)
    \<and> map ctName (srClusters resp) = map fst (Clusters cfg)
    \<and> srPerBU resp name = Some (ActiveConnections (mgDM m) name) \<and> srTotal resp = TotalActiveConnections bus (mgDM m)
    \<and> (\<exists>cs \<in> set (srClusters resp). ctName cs = name \<and> ctDraining cs = IsDraining (mgDM m) name
        \<and> (Mode cc = ModeLoadBalance \<and> health name \<noteq> None \<longrightarrow>
             (esWeight (ctPrimary cs), esWeight (ctSecondary cs)) = GetEffectiveWeights name cc (lsRouter l))
        \<and> (Mode cc = ModeActivePassive \<longrightarrow>
             (ctActive cs = fst (snd (upstreamTarget cc (Some (mgSM m, mgDM m, Some (mgControllers m))) name))
              \<longleftrightarrow> snd (EffectiveActive m name) \<or> Active cc = ActivePrimary)))"
proof -
  let ?cs = "statusOf s health name cc"
  obtain ft cb where f: "failoverMetrics s = (ft, cb)" by fastforce
  define r0 where "r0 = \<lparr>srUptimeSeconds = Seconds (Since now (svStart s)), srTotal = TotalActiveConnections bus (mgDM m),
      srPerBU = Map.empty, srClusters = [], srTotalFailovers = ft, srCircuitBreaker = cb\<rparr>"
  define resp where "resp = fold (\<lambda>(name, cc) resp.
       resp\<lparr>srClusters := srClusters resp @ [statusOf s health name cc],
            srPerBU := (srPerBU resp)(name \<mapsto> ActiveConnections (mgDM m) name)\<rparr>) (Clusters cfg) r0"
  have h: "handleStatus now bus ''GET'' s = (200, Some resp)"
    by (simp add: handleStatus_def f assms(3,5,6) r0_def resp_def Let_def)
  have r00: "srClusters r0 = []" "srPerBU r0 = Map.empty" "srTotal r0 = TotalActiveConnections bus (mgDM m)" by (simp_all add: r0_def)
  have r: "srClusters resp = map (\<lambda>(n, c). statusOf s health n c) (Clusters cfg)"
    "srPerBU resp = (\<lambda>n. if n \<in> fst ` set (Clusters cfg) then Some (ActiveConnections (mgDM m) n) else None)"
    "srTotal resp = TotalActiveConnections bus (mgDM m)"
    using status_fold [where F = "statusOf s health" and G = "ActiveConnections (mgDM m)" and cs = "Clusters cfg" and r = r0]
    unfolding resp_def [symmetric] r00 by simp_all
  have nm: "map ctName (srClusters resp) = map fst (Clusters cfg)"
    unfolding r(1) by (simp add: statusOf_def comp_def case_prod_unfold)
  have bu: "srPerBU resp name = Some (ActiveConnections (mgDM m) name)" using assms(8) unfolding r(2) by force
  have mem: "?cs \<in> set (srClusters resp)" using assms(8) unfolding r(1) by force
  have c1: "ctName ?cs = name" "ctDraining ?cs = IsDraining (mgDM m) name" "ctActive ?cs = statusActive s name cc"
    by (simp_all add: statusOf_def assms(3) split: prod.split)
  have lk: "map_of (Clusters cfg) name = Some cc" using assms(7,8) by simp
  have wt: "(esWeight (ctPrimary ?cs), esWeight (ctSecondary ?cs)) = GetEffectiveWeights name cc (lsRouter l)"
    if "Mode cc = ModeLoadBalance \<and> health name \<noteq> None"
    using that by (auto simp: statusOf_def statusWeights_def assms(4) ls_EffectiveWeights_def lk endpointToDetail_def split: prod.split)
  have ac: "ctActive ?cs = fst (snd (upstreamTarget cc (Some (mgSM m, mgDM m, Some (mgControllers m))) name))
      \<longleftrightarrow> snd (EffectiveActive m name) \<or> Active cc = ActivePrimary" if "Mode cc = ModeActivePassive"
    unfolding c1(3) by (rule status_active_routed [OF assms(1,2) that]) (use assms(9) that in blast)
  have wt': "Mode cc = ModeLoadBalance \<and> health name \<noteq> None \<longrightarrow>
      (esWeight (ctPrimary ?cs), esWeight (ctSecondary ?cs)) = GetEffectiveWeights name cc (lsRouter l)" using wt by blast
  show ?thesis by (intro exI [of _ resp] conjI bexI [of _ ?cs] h nm bu r(3) mem c1(1,2) wt' impI [OF ac])
qed

definition demo_server :: Server where
  "demo_server = \<lparr>svPort = 8080, svHealth = Some (Adapter_Health (Some healthy_map)), svDrain = Some (mgDM draining_manager),
     svCfg = Some sample_config, svWeights = Some (\<lambda>n. ls_EffectiveWeights sample_config n demo_listener),
     svFailover = Some (EffectiveActive draining_manager), svMetrics = None, svStart = 0\<rparr>"

theorem scrape_well_formed_witness:
  "\<exists>hs. enumerates hs (Adapter_Health (Some [''finance'' \<mapsto> demo_down]))
     \<and> distinct (map (\<lambda>m. (mtName m, mtLabels m)) (Metrics_Collect 9 hs [] [] (demo_server\<lparr>svHealth := Some (Adapter_Health (Some [''finance'' \<mapsto> demo_down]))\<rparr>)))"
proof -
  let ?h = "Adapter_Health (Some [''finance'' \<mapsto> demo_down])"
  have e: "enumerates [''finance''] ?h" by (auto simp: enumerates_def Adapter_Health_def split: if_splits)
  have m: "enumerates [] (snd (failoverMetrics (demo_server\<lparr>svHealth := Some ?h\<rparr>)))"
    by (simp add: enumerates_def failoverMetrics_def demo_server_def)
  have n: "?h '''' = None" by (simp add: Adapter_Health_def)
  have h: "svHealth (demo_server\<lparr>svHealth := Some ?h\<rparr>) = Some ?h" by simp
  have "distinct (map (\<lambda>m. (mtName m, mtLabels m)) (Metrics_Collect 9 [''finance''] [] [] (demo_server\<lparr>svHealth := Some ?h\<rparr>)))"
    using scrape_well_formed [OF h e m, of 9 "[]", THEN conjunct2] n by blast
  then show ?thesis using e by (intro exI [of _ "[''finance'']"] conjI)
qed

theorem status_reports_routing_witness:
  "\<exists>resp. handleStatus 9 [] ''GET'' demo_server = (200, Some resp) \<and> map ctName (srClusters resp) = [''finance'', ''logistics'']"
proof -
  have s: "svFailover demo_server = Some (EffectiveActive draining_manager)" "svDrain demo_server = Some (mgDM draining_manager)"
    "svWeights demo_server = Some (\<lambda>n. ls_EffectiveWeights sample_config n demo_listener)" "svCfg demo_server = Some sample_config"
    "svHealth demo_server = Some (Adapter_Health (Some healthy_map))" by (simp_all add: demo_server_def)
  have c: "distinct (map fst (Clusters sample_config))" "(''logistics'', sample_logistics) \<in> set (Clusters sample_config)"
    by (simp_all add: sample_config_def)
  have a: "Active sample_logistics \<in> {ActivePrimary, ActiveSecondary} \<or> Mode sample_logistics \<noteq> ModeActivePassive"
    by (simp add: sample_logistics_def mode_defs)
  from status_reports_routing [OF draining_manager_reach s c a, of 9 "[]"] show ?thesis
    by (elim exE conjE) (simp add: sample_config_def)
qed

end
