(* ===== verification/Shutdown.thy ===== *)
theory Shutdown
  imports Config_Watch Connection
begin

text \<open>
  Shutting the process down, \<^verbatim>\<open>cmd/proxy/main.go\<close>: the goroutine that waits for a signal and the main
  goroutine, which is blocked in \<open>Listener.Start\<close> and runs its deferred calls when that returns. Both
  work on the same objects; their steps interleave in any order with clients that leave and with
  time. Each call is one step; \<open>Stop\<close> of the health checker and of the failover manager, whose waits are in \<open>Monitoring\<close>, return at once the second time. The process ends when either goroutine exits or panics.
\<close>

section \<open>State\<close>

datatype sig_pc = SigWait | SigCancelServer | SigCancelWatcher | SigClose | SigIdle | SigStopReloader | SigStopChecker
  | SigStopManager | SigExit

datatype main_pc = MainInStart | MainCancelServer | MainCancelWatcher | MainStopManager | MainStopChecker | MainStopReloader | MainReturn

datatype process_end = ExitCode int | ExitPanic error

text \<open>
  \<open>psFirst\<close> and \<open>psChecker\<close> say whether the first health checker (bound by the deferred call) and the current
  one are stopped; they are the same checker until the first reload.
\<close>

record Process =
  psMain :: main_pc
  psSig :: sig_pc
  psListener :: Listener
  psServerCancelled :: bool
  psWatcherCancelled :: bool
  psReloader :: bool
  psFirst :: bool
  psChecker :: bool
  psManager :: bool
  psActive :: int
  psNow :: Time
  psDeadline :: Time
  psEnd :: "process_end option"

definition shutdownDrainTimeout :: Duration where
  "shutdownDrainTimeout = 30 * second"

text \<open>One poll of \<open>WaitIdle\<close>: whether it returns.\<close>

definition WaitIdle_returns :: "Time \<Rightarrow> Time \<Rightarrow> int \<Rightarrow> bool" where
  "WaitIdle_returns deadline now active \<longleftrightarrow> \<not> now < deadline \<or> active = 0"

definition stopReloader :: "Process \<Rightarrow> Process" where
  "stopReloader p =
     (case Reloader_Stop (psReloader p) of
        Inl e \<Rightarrow> p\<lparr>psEnd := Some (ExitPanic e)\<rparr>
      | Inr b \<Rightarrow> p\<lparr>psReloader := b\<rparr>)"

section \<open>The goroutines\<close>

definition sigStep :: "Process \<Rightarrow> Process option" where
  "sigStep p =
     (case psSig p of
        SigWait \<Rightarrow> Some (p\<lparr>psSig := SigCancelServer\<rparr>)
      | SigCancelServer \<Rightarrow> Some (p\<lparr>psServerCancelled := True, psSig := SigCancelWatcher\<rparr>)
      | SigCancelWatcher \<Rightarrow> Some (p\<lparr>psWatcherCancelled := True, psSig := SigClose\<rparr>)
      | SigClose \<Rightarrow>
          (case ls_Close (psListener p) of
             Done l \<Rightarrow> Some (p\<lparr>psListener := l, psDeadline := psNow p + shutdownDrainTimeout, psSig := SigIdle\<rparr>)
           | Blocks _ \<Rightarrow> None
           | Panics e \<Rightarrow> Some (p\<lparr>psEnd := Some (ExitPanic e)\<rparr>))
      | SigIdle \<Rightarrow> if WaitIdle_returns (psDeadline p) (psNow p) (psActive p) then Some (p\<lparr>psSig := SigStopReloader\<rparr>) else None
      | SigStopReloader \<Rightarrow> Some ((stopReloader p)\<lparr>psSig := SigStopChecker\<rparr>)
      | SigStopChecker \<Rightarrow> Some (p\<lparr>psChecker := True, psSig := SigStopManager\<rparr>)
      | SigStopManager \<Rightarrow> Some (p\<lparr>psManager := True, psSig := SigExit\<rparr>)
      | SigExit \<Rightarrow> Some (p\<lparr>psEnd := Some (ExitCode 0)\<rparr>))"

definition mainStep :: "Process \<Rightarrow> Process option" where
  "mainStep p =
     (case psMain p of
        MainInStart \<Rightarrow> if lsShutdown (psListener p) then Some (p\<lparr>psMain := MainCancelServer\<rparr>) else None
      | MainCancelServer \<Rightarrow> Some (p\<lparr>psServerCancelled := True, psMain := MainCancelWatcher\<rparr>)
      | MainCancelWatcher \<Rightarrow> Some (p\<lparr>psWatcherCancelled := True, psMain := MainStopManager\<rparr>)
      | MainStopManager \<Rightarrow> Some (p\<lparr>psManager := True, psMain := MainStopChecker\<rparr>)
      | MainStopChecker \<Rightarrow> Some (p\<lparr>psFirst := True, psMain := MainStopReloader\<rparr>)
      | MainStopReloader \<Rightarrow> Some ((stopReloader p)\<lparr>psMain := MainReturn\<rparr>)
      | MainReturn \<Rightarrow> Some (p\<lparr>psEnd := Some (ExitCode 0)\<rparr>))"

inductive shutdown_step :: "Process \<Rightarrow> Process \<Rightarrow> bool" where
  sig: "psEnd p = None \<Longrightarrow> sigStep p = Some p' \<Longrightarrow> shutdown_step p p'"
| main: "psEnd p = None \<Longrightarrow> mainStep p = Some p' \<Longrightarrow> shutdown_step p p'"
| leave: "psEnd p = None \<Longrightarrow> 0 < psActive p \<Longrightarrow> shutdown_step p (p\<lparr>psActive := psActive p - 1\<rparr>)"
| tick: "psEnd p = None \<Longrightarrow> 0 < d \<Longrightarrow> shutdown_step p (p\<lparr>psNow := psNow p + d\<rparr>)"

inductive_cases shutdown_stepE: "shutdown_step p p'"

text \<open>A schedule of the two goroutines, run without other steps.\<close>

datatype goroutine = Sig | Main

fun run_schedule :: "goroutine list \<Rightarrow> Process \<Rightarrow> Process option" where
  "run_schedule [] p = Some p"
| "run_schedule (g # gs) p =
     (if psEnd p \<noteq> None then None
      else Option.bind (case g of Sig \<Rightarrow> sigStep p | Main \<Rightarrow> mainStep p) (run_schedule gs))"

lemma run_schedule_steps: "run_schedule gs p = Some p' \<Longrightarrow> shutdown_step\<^sup>*\<^sup>* p p'"
proof (induction gs arbitrary: p)
  case (Cons g gs)
  obtain q where q: "psEnd p = None" "(case g of Sig \<Rightarrow> sigStep p | Main \<Rightarrow> mainStep p) = Some q" "run_schedule gs q = Some p'"
    using Cons.prems by (auto split: if_splits bind_splits)
  have "shutdown_step p q" using q(1,2) shutdown_step.sig shutdown_step.main by (cases g) auto
  then show ?case using Cons.IH [OF q(3)] by (meson converse_rtranclp_into_rtranclp)
qed simp

section \<open>What is always true at the end\<close>

text \<open>The main goroutine leaves \<open>Start\<close>, and the other one \<open>Close\<close>, only with the listener shut down.\<close>

definition shutdown_inv :: "Process \<Rightarrow> bool" where
  "shutdown_inv p \<longleftrightarrow> (psMain p \<noteq> MainInStart \<longrightarrow> lsShutdown (psListener p))
     \<and> (psSig p \<notin> {SigWait, SigCancelServer, SigCancelWatcher, SigClose} \<longrightarrow> lsShutdown (psListener p))
     \<and> (psEnd p \<noteq> None \<longrightarrow> lsShutdown (psListener p))"

lemma ls_Close_shutdown:
  "ls_Close l = Done l' \<Longrightarrow> lsShutdown l'" and ls_Close_no_panic: "ls_Close l \<noteq> Panics e"
  by (auto simp: ls_Close_def split: option.splits prod.splits stop_result.splits)

lemma sigStep_inv: "sigStep p = Some p' \<Longrightarrow> shutdown_inv p \<Longrightarrow> shutdown_inv p'"
  using ls_Close_shutdown ls_Close_no_panic
  by (auto simp: sigStep_def shutdown_inv_def stopReloader_def Reloader_Stop_def split: sig_pc.splits outcome.splits if_splits)

lemma mainStep_inv: "mainStep p = Some p' \<Longrightarrow> shutdown_inv p \<Longrightarrow> shutdown_inv p'"
  by (auto simp: mainStep_def shutdown_inv_def stopReloader_def Reloader_Stop_def split: main_pc.splits if_splits)

lemma shutdown_step_inv: "shutdown_step p p' \<Longrightarrow> shutdown_inv p \<Longrightarrow> shutdown_inv p'"
  using sigStep_inv mainStep_inv by (elim shutdown_stepE) (auto simp: shutdown_inv_def)

lemma shutdown_reach_inv: "shutdown_step\<^sup>*\<^sup>* p p' \<Longrightarrow> shutdown_inv p \<Longrightarrow> shutdown_inv p'"
  by (induction rule: rtranclp_induct) (auto intro: shutdown_step_inv)

text \<open>When closing the listener waits for ever, nobody gets any further.\<close>

definition stuck_inv :: "Process \<Rightarrow> bool" where
  "stuck_inv p \<longleftrightarrow> psMain p = MainInStart \<and> psSig p \<in> {SigWait, SigCancelServer, SigCancelWatcher, SigClose}
     \<and> \<not> lsShutdown (psListener p) \<and> (\<exists>l. ls_Close (psListener p) = Blocks l) \<and> psEnd p = None"

lemma stuck_step: "shutdown_step p p' \<Longrightarrow> stuck_inv p \<Longrightarrow> stuck_inv p'"
  by (elim shutdown_stepE) (auto simp: stuck_inv_def sigStep_def mainStep_def)

lemma stuck_reach: "shutdown_step\<^sup>*\<^sup>* p p' \<Longrightarrow> stuck_inv p \<Longrightarrow> stuck_inv p'"
  by (induction rule: rtranclp_induct) (auto intro: stuck_step)

section \<open>Properties\<close>

text \<open>
  C19. Shutdown is not graceful. From the moment the signal arrives: the process never ends without the
  listener shut down first; but as soon as it is, \<open>Start\<close> returns in the main goroutine, which can run its
  deferred calls and end the process with all client connections still open and no time passed,
  although the other goroutine is in \<open>WaitIdle\<close>; with no client connected, both goroutines can reach
  \<open>Reloader.Stop\<close>, and the second call panics. And if closing the listener waits for ever (as it does
  after a reload), the process never ends by itself.
\<close>
theorem shutdown_not_graceful:
  assumes "psMain p = MainInStart" and "psSig p = SigWait" and "psEnd p = None" and "\<not> psReloader p"
    and "\<not> lsShutdown (psListener p)"
  shows "(\<forall>p'. shutdown_step\<^sup>*\<^sup>* p p' \<and> psEnd p' \<noteq> None \<longrightarrow> lsShutdown (psListener p'))
    \<and> (\<forall>l. ls_Close (psListener p) = Done l \<longrightarrow>
        (\<exists>p'. shutdown_step\<^sup>*\<^sup>* p p' \<and> psEnd p' = Some (ExitCode 0) \<and> psSig p' = SigIdle
          \<and> psActive p' = psActive p \<and> psNow p' = psNow p)
      \<and> (psActive p = 0 \<longrightarrow> (\<exists>p' e. shutdown_step\<^sup>*\<^sup>* p p' \<and> psEnd p' = Some (ExitPanic e))))
    \<and> (\<forall>l p'. ls_Close (psListener p) = Blocks l \<and> shutdown_step\<^sup>*\<^sup>* p p' \<longrightarrow> psEnd p' = None)"
proof (intro conjI allI impI)
  fix p'
  assume "shutdown_step\<^sup>*\<^sup>* p p' \<and> psEnd p' \<noteq> None"
  then show "lsShutdown (psListener p')"
    using shutdown_reach_inv [of p p'] assms by (simp add: shutdown_inv_def)
next
  fix l
  assume c: "ls_Close (psListener p) = Done l"
  note run = sigStep_def mainStep_def stopReloader_def Reloader_Stop_def assms c ls_Close_shutdown [OF c]
  have "\<exists>p'. run_schedule [Sig, Sig, Sig, Sig, Main, Main, Main, Main, Main, Main, Main] p = Some p'
      \<and> psEnd p' = Some (ExitCode 0) \<and> psSig p' = SigIdle \<and> psActive p' = psActive p \<and> psNow p' = psNow p"
    by (simp add: run)
  then show "\<exists>p'. shutdown_step\<^sup>*\<^sup>* p p' \<and> psEnd p' = Some (ExitCode 0) \<and> psSig p' = SigIdle
          \<and> psActive p' = psActive p \<and> psNow p' = psNow p" using run_schedule_steps by blast
  assume z: "psActive p = 0"
  have "\<exists>p'. run_schedule [Sig, Sig, Sig, Sig, Sig, Sig, Main, Main, Main, Main, Main, Main] p = Some p'
      \<and> psEnd p' = Some (ExitPanic (Panic ''close of closed channel''))"
    by (simp add: run z WaitIdle_returns_def)
  then show "\<exists>p' e. shutdown_step\<^sup>*\<^sup>* p p' \<and> psEnd p' = Some (ExitPanic e)" using run_schedule_steps by blast
next
  fix l p'
  assume "ls_Close (psListener p) = Blocks l \<and> shutdown_step\<^sup>*\<^sup>* p p'"
  moreover from this have "stuck_inv p" using assms by (auto simp: stuck_inv_def)
  ultimately show "psEnd p' = None" using stuck_reach [of p p'] by (auto simp: stuck_inv_def)
qed

definition demo_process :: Process where
  "demo_process = \<lparr>psMain = MainInStart, psSig = SigWait, psListener = demo_listener, psServerCancelled = False,
     psWatcherCancelled = False, psReloader = False, psFirst = False, psChecker = False, psManager = False,
     psActive = 3, psNow = 0, psDeadline = 0, psEnd = None\<rparr>"

theorem shutdown_not_graceful_witness:
  "\<exists>p'. shutdown_step\<^sup>*\<^sup>* demo_process p' \<and> psEnd p' = Some (ExitCode 0) \<and> psActive p' = 3"
proof -
  have a: "psMain demo_process = MainInStart" "psSig demo_process = SigWait" "psEnd demo_process = None"
    "\<not> psReloader demo_process" "\<not> lsShutdown (psListener demo_process)" "psActive demo_process = 3"
    by (simp_all add: demo_process_def demo_listener_def)
  have "\<exists>l. ls_Close (psListener demo_process) = Done l"
    by (simp add: demo_process_def demo_listener_def ls_Close_def ar_Stop_def ar_Start_def New_AutoRebalancer_def loop_exit_def)
  then show ?thesis using shutdown_not_graceful [OF a(1-5)] a(6) by metis
qed

end
