(* ===== verification/Pool_Lifecycle.thy ===== *)
theory Pool_Lifecycle
  imports Conn_Pool
begin

text \<open>
  The pool as a running object, \<^verbatim>\<open>internal/pool/pool.go\<close>: the clean-up and the keep-alive loops,
  callers that wait in \<open>Get\<close> or are about to send in \<open>Put\<close>, and \<open>Close\<close>. Their steps interleave in any
  order: an event is one step, and an event that is not possible in a state has no result. A tick of
  the keep-alive loop asks the brokers one after the other, and its \<open>Get\<close> can wait like any other.
\<close>

section \<open>State\<close>

datatype health_pc = HealthSelect | HealthNext "string list" | HealthWait string "string list" | HealthExited

datatype close_pc = NotClosing | CloseWaits | CloseDone

text \<open>
  \<open>ppWaiters\<close> are the addresses on whose idle channel a caller's \<open>Get\<close> waits, \<open>ppSenders\<close> the
  \<open>Put\<close> calls that have looked their pool up. \<open>Close\<close> closes the idle channels: \<open>ppOrphanGets\<close> and
  \<open>ppOrphanPuts\<close> are the calls that are still at such a channel. \<open>ppClosed\<close> collects the connections
  \<open>Close\<close> has closed.
\<close>

record PoolProc =
  ppPool :: connectionPool
  ppStop :: bool
  ppCleanup :: bool
  ppHealth :: health_pc
  ppCloser :: close_pc
  ppWaiters :: "string list"
  ppSenders :: "(string \<times> conn) list"
  ppOrphanGets :: "string list"
  ppOrphanPuts :: "(string \<times> conn) list"
  ppClosed :: "conn list"
  ppPanic :: "error option"

definition pp_New :: "ConnectionPoolConfig \<Rightarrow> PoolProc" where
  "pp_New cfg = \<lparr>ppPool = pool_New cfg, ppStop = False, ppCleanup = True, ppHealth = HealthSelect, ppCloser = NotClosing,
     ppWaiters = [], ppSenders = [], ppOrphanGets = [], ppOrphanPuts = [], ppClosed = [], ppPanic = None\<rparr>"

section \<open>Steps\<close>

datatype pool_event =
    EvGet Time "error + conn" string
  | EvGetResume Time "error + conn" string
  | EvPut string conn
  | EvPutSend Time string conn
  | EvCleanupTick Time
  | EvCleanupStop
  | EvHealthTick "string list"
  | EvHealthCheck Time "byte list" "error + conn"
  | EvHealthResume Time "byte list" "error + conn"
  | EvHealthStop
  | EvClose
  | EvCloseDrain "string list"
  | EvOrphanGet string
  | EvOrphanPut "string \<times> conn"

definition finishGet :: "string \<Rightarrow> get_result \<times> connectionPool \<Rightarrow> PoolProc \<Rightarrow> PoolProc option" where
  "finishGet addr res p =
     (case res of
        (GetBlocked, cp) \<Rightarrow> Some (p\<lparr>ppPool := cp, ppWaiters := addr # ppWaiters p\<rparr>)
      | (GetStuck, cp) \<Rightarrow> None
      | (_, cp) \<Rightarrow> Some (p\<lparr>ppPool := cp\<rparr>))"

text \<open>The loop over the brokers, after \<open>Get\<close> answered for \<open>addr\<close>; \<open>rest\<close> are the brokers still to ask.\<close>

definition finishCheck :: "Time \<Rightarrow> byte list \<Rightarrow> string \<Rightarrow> conn \<Rightarrow> connectionPool \<Rightarrow> connectionPool option" where
  "finishCheck now pooled addr c cp =
     (case pool_writeMetadataRequest pooled c of
        (Some _, c) \<Rightarrow> Some (releaseSem addr cp)
      | (None, c) \<Rightarrow>
          (case pool_readMetadataResponse c of
             (Inl _, c) \<Rightarrow> Some (releaseSem addr cp)
           | (Inr _, c) \<Rightarrow> (case pool_Put now addr c cp of (True, cp) \<Rightarrow> Some cp | (False, _) \<Rightarrow> None)))"

definition checkStep :: "Time \<Rightarrow> byte list \<Rightarrow> string \<Rightarrow> string list \<Rightarrow> get_result \<times> connectionPool \<Rightarrow> PoolProc \<Rightarrow> PoolProc option" where
  "checkStep now pooled addr rest res p =
     (case res of
        (GetConn c, cp) \<Rightarrow> map_option (\<lambda>cp. p\<lparr>ppPool := cp, ppHealth := HealthNext rest\<rparr>) (finishCheck now pooled addr c cp)
      | (GetErr _, cp) \<Rightarrow> Some (p\<lparr>ppPool := cp, ppHealth := HealthNext rest\<rparr>)
      | (GetBlocked, cp) \<Rightarrow> Some (p\<lparr>ppPool := cp, ppHealth := HealthWait addr rest\<rparr>)
      | (GetStuck, cp) \<Rightarrow> None)"

definition idleCleanupLoop :: "pool_event \<Rightarrow> PoolProc \<Rightarrow> PoolProc option" where
  "idleCleanupLoop ev p =
     (case ev of
        EvCleanupStop \<Rightarrow> if ppCleanup p \<and> ppStop p then Some (p\<lparr>ppCleanup := False\<rparr>) else None
      | EvCleanupTick now \<Rightarrow> if ppCleanup p then Some (p\<lparr>ppPool := cleanupIdleConns now (ppPool p)\<rparr>) else None
      | _ \<Rightarrow> None)"

definition healthCheckLoop :: "pool_event \<Rightarrow> PoolProc \<Rightarrow> PoolProc option" where
  "healthCheckLoop ev p =
     (case (ppHealth p, ev) of
        (HealthSelect, EvHealthStop) \<Rightarrow> if ppStop p then Some (p\<lparr>ppHealth := HealthExited\<rparr>) else None
      | (HealthSelect, EvHealthTick addrs) \<Rightarrow>
          if distinct addrs \<and> set addrs = dom (cpPools (ppPool p)) then Some (p\<lparr>ppHealth := HealthNext addrs\<rparr>) else None
      | (HealthNext [], EvHealthCheck _ _ _) \<Rightarrow> Some (p\<lparr>ppHealth := HealthSelect\<rparr>)
      | (HealthNext (addr # rest), EvHealthCheck now pooled dialed) \<Rightarrow>
          checkStep now pooled addr rest (pool_Get now dialed addr (ppPool p)) p
      | (HealthWait addr rest, EvHealthResume now pooled dialed) \<Rightarrow>
          checkStep now pooled addr rest (Get_resume now dialed addr (ppPool p)) p
      | _ \<Rightarrow> None)"

text \<open>\<open>drainPool\<close> closes the idle channel and the connections in it.\<close>

definition drainPool :: "brokerPool \<Rightarrow> conn list" where
  "drainPool bp = List.map_filter (\<lambda>pc. snd (pooledConn_close pc)) (bpIdle bp)"

definition closePools :: "string list \<Rightarrow> PoolProc \<Rightarrow> PoolProc" where
  "closePools addrs p =
     p\<lparr>ppPool := (ppPool p)\<lparr>cpPools := Map.empty\<rparr>, ppCloser := CloseDone,
       ppClosed := ppClosed p @ concat (map (\<lambda>addr. case cpPools (ppPool p) addr of None \<Rightarrow> [] | Some bp \<Rightarrow> drainPool bp) addrs),
       ppWaiters := [], ppSenders := [], ppOrphanGets := ppWaiters p @ ppOrphanGets p, ppOrphanPuts := ppSenders p @ ppOrphanPuts p\<rparr>"

text \<open>
  The first half of \<open>Close\<close> closes the stop channel, the second runs when both loops are done. On a
  closed channel \<open>Get\<close> receives no connection and dereferences it, and \<open>Put\<close> sends.
\<close>

definition pool_step :: "pool_event \<Rightarrow> PoolProc \<Rightarrow> PoolProc option" where
  "pool_step ev p =
     (if ppPanic p \<noteq> None then None
      else case ev of
        EvGet now dialed addr \<Rightarrow> finishGet addr (pool_Get now dialed addr (ppPool p)) p
      | EvGetResume now dialed addr \<Rightarrow>
          if addr \<in> set (ppWaiters p)
          then finishGet addr (Get_resume now dialed addr (ppPool p)) (p\<lparr>ppWaiters := remove1 addr (ppWaiters p)\<rparr>) else None
      | EvPut addr c \<Rightarrow>
          (case cpPools (ppPool p) addr of None \<Rightarrow> Some p | Some _ \<Rightarrow> Some (p\<lparr>ppSenders := (addr, c) # ppSenders p\<rparr>))
      | EvPutSend now addr c \<Rightarrow>
          if (addr, c) \<in> set (ppSenders p)
          then (case pool_Put now addr c (ppPool p) of
                  (True, cp) \<Rightarrow> Some (p\<lparr>ppPool := cp, ppSenders := remove1 (addr, c) (ppSenders p)\<rparr>)
                | (False, _) \<Rightarrow> None) else None
      | EvClose \<Rightarrow>
          if ppStop p then Some (p\<lparr>ppPanic := Some (Panic ''close of closed channel'')\<rparr>)
          else Some (p\<lparr>ppStop := True, ppCloser := CloseWaits\<rparr>)
      | EvCloseDrain addrs \<Rightarrow>
          if ppCloser p = CloseWaits \<and> \<not> ppCleanup p \<and> ppHealth p = HealthExited
             \<and> distinct addrs \<and> set addrs = dom (cpPools (ppPool p)) then Some (closePools addrs p) else None
      | EvOrphanGet addr \<Rightarrow>
          if addr \<in> set (ppOrphanGets p) then Some (p\<lparr>ppPanic := Some (Panic ''nil pointer dereference'')\<rparr>) else None
      | EvOrphanPut s \<Rightarrow>
          if s \<in> set (ppOrphanPuts p) then Some (p\<lparr>ppPanic := Some (Panic ''send on closed channel'')\<rparr>) else None
      | EvCleanupTick now \<Rightarrow> idleCleanupLoop ev p
      | EvCleanupStop \<Rightarrow> idleCleanupLoop ev p
      | EvHealthTick addrs \<Rightarrow> healthCheckLoop ev p
      | EvHealthCheck now pooled dialed \<Rightarrow> healthCheckLoop ev p
      | EvHealthResume now pooled dialed \<Rightarrow> healthCheckLoop ev p
      | EvHealthStop \<Rightarrow> healthCheckLoop ev p)"

fun pool_events :: "pool_event list \<Rightarrow> PoolProc \<Rightarrow> PoolProc option" where
  "pool_events [] p = Some p"
| "pool_events (ev # evs) p = Option.bind (pool_step ev p) (pool_events evs)"


text \<open>One broker of \<open>runHealthChecks\<close>, split where it can wait.\<close>

lemma checkBroker_split:
  assumes "pool_Get now dialed addr (ppPool p) = res" and "checkStep now pooled addr rest res p = Some p'"
  shows "ppPool p' = checkBroker now pooled dialed addr (ppPool p)"
  using assms by (auto simp: checkStep_def checkBroker_def finishCheck_def split: get_result.splits option.splits sum.splits prod.splits bool.splits)

section \<open>The addresses and the idle channels\<close>

lemma run_get_dom [simp]: "run_get now d addr bp cp = (r, cp') \<Longrightarrow> dom (cpPools cp') = insert addr (dom (cpPools cp))"
  by (auto simp: run_get_def split: prod.splits)

lemma pool_Get_dom: "pool_Get now d addr cp = (r, cp') \<Longrightarrow> dom (cpPools cp') = insert addr (dom (cpPools cp))"
  by (auto simp: pool_Get_def getOrCreatePool_def Let_def split: option.splits prod.splits)

lemma Get_resume_dom: "Get_resume now d addr cp = (r, cp') \<Longrightarrow> dom (cpPools cp') = dom (cpPools cp)"
  by (auto simp: Get_resume_def split: option.splits if_splits)

lemma pool_Put_dom: "pool_Put now addr c cp = (b, cp') \<Longrightarrow> dom (cpPools cp') = dom (cpPools cp)"
  by (auto simp: pool_Put_def split: option.splits if_splits)

lemma releaseSem_dom: "dom (cpPools (releaseSem addr cp)) = dom (cpPools cp)"
  by (auto simp: releaseSem_def split: option.splits)

lemma cleanup_dom: "dom (cpPools (cleanupIdleConns now cp)) = dom (cpPools cp)"
  by (auto simp: cleanupIdleConns_def)

lemma finishCheck_dom: "finishCheck now pooled addr c cp = Some cp' \<Longrightarrow> dom (cpPools cp') = dom (cpPools cp)"
  using pool_Put_dom releaseSem_dom by (fastforce simp: finishCheck_def split: option.splits sum.splits prod.splits bool.splits)

lemmas pool_doms = pool_Get_dom Get_resume_dom pool_Put_dom releaseSem_dom cleanup_dom finishCheck_dom

definition idle_empty :: "string \<Rightarrow> connectionPool \<Rightarrow> bool" where
  "idle_empty addr cp \<longleftrightarrow> (\<exists>bp. cpPools cp addr = Some bp \<and> bpIdle bp = [])"

lemma run_get_idle_empty: "run_get now d b bp cp = (r, cp') \<Longrightarrow> idle_empty a cp \<Longrightarrow> (b = a \<Longrightarrow> bpIdle bp = []) \<Longrightarrow> idle_empty a cp'"
  by (auto simp: run_get_def idle_empty_def split: prod.splits if_splits sum.splits)

lemma pool_Get_idle_empty: "pool_Get now d b cp = (r, cp') \<Longrightarrow> idle_empty a cp \<Longrightarrow> idle_empty a cp'"
  by (cases "cpPools cp b")
     (auto simp: pool_Get_def getOrCreatePool_def Let_def idle_empty_def elim!: run_get_idle_empty [unfolded idle_empty_def])

lemma Get_resume_idle_empty: "Get_resume now d b cp = (r, cp') \<Longrightarrow> idle_empty a cp \<Longrightarrow> idle_empty a cp'"
  by (auto simp: Get_resume_def idle_empty_def split: option.splits if_splits elim!: run_get_idle_empty [unfolded idle_empty_def])

lemma Get_resume_waits: "idle_empty a cp \<Longrightarrow> Get_resume now d a cp = (GetBlocked, cp)"
  by (auto simp: Get_resume_def idle_empty_def)

lemma cleanup_idle_empty: "idle_empty a cp \<Longrightarrow> idle_empty a (cleanupIdleConns now cp)"
  by (auto simp: cleanupIdleConns_def cleanupBrokerPool_def idle_empty_def)

lemma pool_Put_idle_empty: "pool_Put now b c cp = (r, cp') \<Longrightarrow> idle_empty a cp \<Longrightarrow> b \<noteq> a \<Longrightarrow> idle_empty a cp'"
  by (auto simp: pool_Put_def idle_empty_def split: option.splits if_splits)

section \<open>Invariants\<close>

definition pp_inv :: "PoolProc \<Rightarrow> bool" where
  "pp_inv p \<longleftrightarrow> finite (dom (cpPools (ppPool p))) \<and> (\<not> ppCleanup p \<or> ppHealth p = HealthExited \<longrightarrow> ppStop p)
     \<and> (ppCloser p = NotClosing \<longleftrightarrow> \<not> ppStop p) \<and> (ppCloser p = CloseDone \<longrightarrow> \<not> ppCleanup p \<and> ppHealth p = HealthExited)"

lemma pp_inv_New: "pp_inv (pp_New cfg)"
  by (simp add: pp_inv_def pp_New_def pool_New_def)

lemma finishGet_inv: "finishGet addr (r, cp) p = Some p' \<Longrightarrow> pp_inv p \<Longrightarrow> finite (dom (cpPools cp)) \<Longrightarrow> pp_inv p'"
  by (auto simp: finishGet_def pp_inv_def split: get_result.splits)

lemma checkStep_inv:
  "checkStep now pooled addr rest (r, cp) p = Some p' \<Longrightarrow> pp_inv p \<Longrightarrow> ppHealth p \<noteq> HealthExited \<Longrightarrow> finite (dom (cpPools cp)) \<Longrightarrow> pp_inv p'"
  by (auto simp: checkStep_def pp_inv_def pool_doms split: get_result.splits)

lemma healthCheckLoop_inv:
  assumes "healthCheckLoop ev p = Some p'" and "pp_inv p"
  shows "pp_inv p'"
proof -
  have "finite (dom (cpPools (snd (pool_Get now d a (ppPool p)))))" and "finite (dom (cpPools (snd (Get_resume now d a (ppPool p)))))" for now d a
    using assms(2) pool_Get_dom Get_resume_dom by (metis finite_insert pp_inv_def prod.collapse)+
  then show ?thesis using assms checkStep_inv [of _ _ _ _ "fst r" "snd r" for r]
    by (auto simp: healthCheckLoop_def pp_inv_def split: health_pc.splits list.splits pool_event.splits if_splits)
qed


lemma idleCleanupLoop_inv: "idleCleanupLoop ev p = Some p' \<Longrightarrow> pp_inv p \<Longrightarrow> pp_inv p'"
  by (auto simp: idleCleanupLoop_def pp_inv_def cleanup_dom split: pool_event.splits if_splits)

lemma getSteps_inv:
  assumes "finishGet addr res q = Some p'" and "pp_inv q" and "res = pool_Get now d addr (ppPool q) \<or> res = Get_resume now d addr (ppPool q)"
  shows "pp_inv p'"
proof -
  obtain r cp where res: "res = (r, cp)" by fastforce
  have "finite (dom (cpPools cp))"
    using assms(2,3) pool_Get_dom Get_resume_dom unfolding res pp_inv_def by (metis finite_insert)
  then show ?thesis using finishGet_inv assms(1,2) res by blast
qed

lemma pool_step_inv:
  assumes "pool_step ev p = Some p'" and "pp_inv p"
  shows "pp_inv p'"
proof (cases ev)
  case (EvGet now d addr)
  then show ?thesis using assms getSteps_inv [of addr _ p p' now d] by (auto simp: pool_step_def split: if_splits)
next
  case (EvGetResume now d addr)
  have "pp_inv (p\<lparr>ppWaiters := remove1 addr (ppWaiters p)\<rparr>)" using assms(2) by (simp add: pp_inv_def)
  then show ?thesis using assms(1) EvGetResume getSteps_inv [of addr _ "p\<lparr>ppWaiters := remove1 addr (ppWaiters p)\<rparr>" p' now d]
    by (auto simp: pool_step_def split: if_splits)
next
  case (EvPutSend now addr c)
  then show ?thesis using assms pool_Put_dom by (fastforce simp: pool_step_def pp_inv_def split: if_splits prod.splits bool.splits)
qed (use assms healthCheckLoop_inv idleCleanupLoop_inv in
      \<open>auto simp: pool_step_def pp_inv_def closePools_def split: if_splits option.splits\<close>)

lemma pool_events_inv: "pool_events evs p = Some p' \<Longrightarrow> pp_inv p \<Longrightarrow> pp_inv p'"
  by (induction evs arbitrary: p) (auto intro: pool_step_inv split: bind_splits)

text \<open>The keep-alive loop waits at \<open>addr\<close>, and nobody is about to return a connection there.\<close>

definition starved :: "string \<Rightarrow> PoolProc \<Rightarrow> bool" where
  "starved addr p \<longleftrightarrow> (\<exists>rest. ppHealth p = HealthWait addr rest) \<and> idle_empty addr (ppPool p)
     \<and> (\<forall>c. (addr, c) \<notin> set (ppSenders p)) \<and> ppCloser p \<noteq> CloseDone"

lemma finishGet_starved:
  "finishGet b (r, cp) p = Some p' \<Longrightarrow> starved a p \<Longrightarrow> idle_empty a cp \<Longrightarrow> starved a p'"
  by (auto simp: finishGet_def starved_def split: get_result.splits)

lemma healthCheckLoop_starved: "healthCheckLoop ev p = Some p' \<Longrightarrow> starved a p \<Longrightarrow> starved a p'"
  by (auto simp: healthCheckLoop_def starved_def checkStep_def Get_resume_waits split: pool_event.splits)

lemma pool_step_starved:
  assumes "pool_step ev p = Some p'" and "starved a p" and "\<forall>c. ev \<noteq> EvPut a c"
  shows "starved a p'"
proof (cases ev)
  case (EvGet now d addr)
  obtain r cp where g: "pool_Get now d addr (ppPool p) = (r, cp)" by fastforce
  then show ?thesis using assms EvGet finishGet_starved [of addr r cp p p' a] pool_Get_idle_empty [OF g, of a]
    by (auto simp: pool_step_def starved_def split: if_splits)
next
  case (EvGetResume now d addr)
  obtain r cp where g: "Get_resume now d addr (ppPool p) = (r, cp)" by fastforce
  have "starved a (p\<lparr>ppWaiters := remove1 addr (ppWaiters p)\<rparr>)" using assms(2) by (simp add: starved_def)
  then show ?thesis
    using assms EvGetResume g finishGet_starved [of addr r cp "p\<lparr>ppWaiters := remove1 addr (ppWaiters p)\<rparr>" p' a]
      Get_resume_idle_empty [OF g, of a]
    by (auto simp: pool_step_def starved_def split: if_splits)
next
  case (EvPutSend now addr c)
  then have "addr \<noteq> a" using assms(1,2) by (auto simp: pool_step_def starved_def split: if_splits)
  then show ?thesis using assms(1,2) EvPutSend pool_Put_idle_empty
    by (fastforce simp: pool_step_def starved_def split: if_splits prod.splits bool.splits dest: notin_set_remove1)
next
  case (EvPut addr c)
  then show ?thesis using assms by (auto simp: pool_step_def starved_def split: if_splits option.splits)
next
  case (EvCleanupTick now)
  then show ?thesis using assms(1,2) cleanup_idle_empty by (auto simp: pool_step_def idleCleanupLoop_def starved_def split: if_splits)
next
  case EvCleanupStop
  then show ?thesis using assms(1,2) by (auto simp: pool_step_def idleCleanupLoop_def starved_def split: if_splits)
qed (use assms(1,2) healthCheckLoop_starved in \<open>auto simp: pool_step_def starved_def split: if_splits\<close>)

lemma pool_events_starved:
  "pool_events evs p = Some p' \<Longrightarrow> starved a p \<Longrightarrow> \<forall>c. EvPut a c \<notin> set evs \<Longrightarrow> starved a p'"
proof (induction evs arbitrary: p)
  case (Cons ev evs)
  then obtain q where q: "pool_step ev p = Some q" "pool_events evs q = Some p'" by (auto split: bind_splits)
  have "\<forall>c. ev \<noteq> EvPut a c" using Cons.prems(3) by auto
  then show ?case using Cons.IH [OF q(2)] pool_step_starved [OF q(1) Cons.prems(2)] Cons.prems(3) by simp
qed simp


section \<open>Close\<close>

lemma drainPool_closes: "pc \<in> set (bpIdle bp) \<Longrightarrow> pcConn pc = Some c \<Longrightarrow> conn_Close c \<in> set (drainPool bp)"
  by (force simp: drainPool_def pooledConn_close_def List.map_filter_def)

lemma closeDrain_closes:
  assumes "pool_step (EvCloseDrain addrs) p = Some p'" and "cpPools (ppPool p) a = Some bp" and "pc \<in> set (bpIdle bp)" and "pcConn pc = Some c"
  shows "conn_Close c \<in> set (ppClosed p')"
proof -
  have "a \<in> set addrs" using assms(1,2) by (auto simp: pool_step_def split: if_splits)
  moreover have "p' = closePools addrs p" using assms(1) by (auto simp: pool_step_def split: if_splits)
  ultimately show ?thesis using drainPool_closes [OF assms(3,4)] assms(2) by (force simp: closePools_def)
qed

lemma closes_at_select:
  assumes "pp_inv p" and "ppHealth p = HealthSelect" and "\<not> ppStop p" and "ppPanic p = None"
  shows "\<exists>addrs p'. pool_events [EvClose, EvCleanupStop, EvHealthStop, EvCloseDrain addrs] p = Some p' \<and> ppCloser p' = CloseDone"
proof -
  have "finite (dom (cpPools (ppPool p)))" using assms(1) by (simp add: pp_inv_def)
  from finite_distinct_list [OF this] obtain addrs where addrs: "distinct addrs" "set addrs = dom (cpPools (ppPool p))" by (elim exE conjE)
  have c: "ppCleanup p" using assms(1,3) by (simp add: pp_inv_def)
  define p1 where "p1 = p\<lparr>ppStop := True, ppCloser := CloseWaits\<rparr>"
  define p3 where "p3 = p1\<lparr>ppCleanup := False, ppHealth := HealthExited\<rparr>"
  have "pool_step EvClose p = Some p1" using assms(3,4) by (simp add: pool_step_def p1_def)
  moreover have "pool_step EvCleanupStop p1 = Some (p1\<lparr>ppCleanup := False\<rparr>)"
    using c assms(4) by (simp add: pool_step_def idleCleanupLoop_def p1_def)
  moreover have "pool_step EvHealthStop (p1\<lparr>ppCleanup := False\<rparr>) = Some p3"
    using assms(2,4) by (simp add: pool_step_def healthCheckLoop_def p1_def p3_def)
  moreover have "pool_step (EvCloseDrain addrs) p3 = Some (closePools addrs p3)"
    using addrs assms(4) by (simp add: pool_step_def p1_def p3_def)
  moreover have "ppCloser (closePools addrs p3) = CloseDone" by (simp add: closePools_def)
  ultimately show ?thesis by (intro exI [of _ addrs] exI [of _ "closePools addrs p3"]) simp
qed

lemma closeDrain_panics:
  assumes "pp_inv p" and "pool_step (EvCloseDrain addrs) p = Some p'"
  shows "cpPools (ppPool p') = Map.empty"
    and "\<forall>a\<in>set (ppWaiters p). \<exists>q. pool_step (EvOrphanGet a) p' = Some q \<and> ppPanic q = Some (Panic ''nil pointer dereference'')"
    and "\<forall>s\<in>set (ppSenders p). \<exists>q. pool_step (EvOrphanPut s) p' = Some q \<and> ppPanic q = Some (Panic ''send on closed channel'')"
    and "\<exists>q. pool_step EvClose p' = Some q \<and> ppPanic q = Some (Panic ''close of closed channel'')"
  using assms by (auto simp: pool_step_def closePools_def pp_inv_def split: if_splits)

lemma waits_for_put:
  assumes "pp_inv p" and "ppHealth p = HealthWait a rest" and "idle_empty a (ppPool p)" and "\<forall>c. (a, c) \<notin> set (ppSenders p)"
    and "\<forall>c. EvPut a c \<notin> set evs" and "pool_events evs p = Some p'"
  shows "ppCloser p' \<noteq> CloseDone"
proof -
  have "starved a p" using assms(1-4) by (auto simp: starved_def pp_inv_def)
  then show ?thesis using pool_events_starved [OF assms(6) _ assms(5)] by (simp add: starved_def)
qed

text \<open>
  C29. Closing a connection pool. When \<open>Close\<close> returns, both background loops have ended, the pools
  are gone and every idle connection was closed; and it can always return while the keep-alive loop is
  between two rounds. But the keep-alive loop takes its connections with \<open>Get\<close>: while it waits at a
  broker whose connections are all in use, \<open>Close\<close> does not return before a caller returns a connection
  to that broker, whatever else happens. A caller still waiting in \<open>Get\<close> when \<open>Close\<close> returns receives
  from the closed channel and panics, a \<open>Put\<close> that has found its pool sends on it and panics, and so
  does a second \<open>Close\<close>.
\<close>
theorem pool_close:
  assumes "pool_events evs (pp_New cfg) = Some p"
  shows "(ppCloser p = CloseDone \<longrightarrow> \<not> ppCleanup p \<and> ppHealth p = HealthExited)
    \<and> (\<forall>addrs p'. pool_step (EvCloseDrain addrs) p = Some p' \<longrightarrow>
        cpPools (ppPool p') = Map.empty
      \<and> (\<forall>a bp pc c. cpPools (ppPool p) a = Some bp \<and> pc \<in> set (bpIdle bp) \<and> pcConn pc = Some c \<longrightarrow> conn_Close c \<in> set (ppClosed p'))
      \<and> (\<forall>a\<in>set (ppWaiters p). \<exists>q. pool_step (EvOrphanGet a) p' = Some q \<and> ppPanic q = Some (Panic ''nil pointer dereference''))
      \<and> (\<forall>s\<in>set (ppSenders p). \<exists>q. pool_step (EvOrphanPut s) p' = Some q \<and> ppPanic q = Some (Panic ''send on closed channel''))
      \<and> (\<exists>q. pool_step EvClose p' = Some q \<and> ppPanic q = Some (Panic ''close of closed channel'')))
    \<and> (ppHealth p = HealthSelect \<and> \<not> ppStop p \<and> ppPanic p = None \<longrightarrow>
        (\<exists>addrs p'. pool_events [EvClose, EvCleanupStop, EvHealthStop, EvCloseDrain addrs] p = Some p' \<and> ppCloser p' = CloseDone))
    \<and> (\<forall>a rest evs' p'. ppHealth p = HealthWait a rest \<and> idle_empty a (ppPool p) \<and> (\<forall>c. (a, c) \<notin> set (ppSenders p))
        \<and> (\<forall>c. EvPut a c \<notin> set evs') \<and> pool_events evs' p = Some p' \<longrightarrow> ppCloser p' \<noteq> CloseDone)"
proof (intro conjI)
  have inv: "pp_inv p" using pool_events_inv [OF assms pp_inv_New] .
  show "ppCloser p = CloseDone \<longrightarrow> \<not> ppCleanup p \<and> ppHealth p = HealthExited" using inv by (simp add: pp_inv_def)
  show "ppHealth p = HealthSelect \<and> \<not> ppStop p \<and> ppPanic p = None \<longrightarrow>
      (\<exists>addrs p'. pool_events [EvClose, EvCleanupStop, EvHealthStop, EvCloseDrain addrs] p = Some p' \<and> ppCloser p' = CloseDone)"
    using closes_at_select [OF inv] by blast
next
  show "\<forall>addrs p'. pool_step (EvCloseDrain addrs) p = Some p' \<longrightarrow>
        cpPools (ppPool p') = Map.empty
      \<and> (\<forall>a bp pc c. cpPools (ppPool p) a = Some bp \<and> pc \<in> set (bpIdle bp) \<and> pcConn pc = Some c \<longrightarrow> conn_Close c \<in> set (ppClosed p'))
      \<and> (\<forall>a\<in>set (ppWaiters p). \<exists>q. pool_step (EvOrphanGet a) p' = Some q \<and> ppPanic q = Some (Panic ''nil pointer dereference''))
      \<and> (\<forall>s\<in>set (ppSenders p). \<exists>q. pool_step (EvOrphanPut s) p' = Some q \<and> ppPanic q = Some (Panic ''send on closed channel''))
      \<and> (\<exists>q. pool_step EvClose p' = Some q \<and> ppPanic q = Some (Panic ''close of closed channel''))"
    using closeDrain_closes closeDrain_panics [OF pool_events_inv [OF assms pp_inv_New]] by (intro allI impI conjI) meson+
next
  show "\<forall>a rest evs' p'. ppHealth p = HealthWait a rest \<and> idle_empty a (ppPool p) \<and> (\<forall>c. (a, c) \<notin> set (ppSenders p))
        \<and> (\<forall>c. EvPut a c \<notin> set evs') \<and> pool_events evs' p = Some p' \<longrightarrow> ppCloser p' \<noteq> CloseDone"
    using waits_for_put [OF pool_events_inv [OF assms pp_inv_New]] by blast
qed

text \<open>One connection per broker, in use; the keep-alive loop asks for it.\<close>

definition busy_broker :: "pool_event list" where
  "busy_broker = [EvGet 0 (Inr \<lparr>cin = [], cout = [], cwok = 0\<rparr>) ''b'', EvHealthTick [''b''],
     EvHealthCheck 1 [] (Inl ErrEOF), EvClose, EvCleanupStop]"

theorem pool_close_witness:
  "\<exists>p. pool_events busy_broker (pp_New \<lparr>MaxConnectionsPerBroker = 1, IdleTimeout = 0, KeepAliveInterval = 0\<rparr>) = Some p
    \<and> (\<forall>evs' p'. (\<forall>c. EvPut ''b'' c \<notin> set evs') \<and> pool_events evs' p = Some p' \<longrightarrow> ppCloser p' \<noteq> CloseDone)"
proof -
  obtain p where p: "pool_events busy_broker (pp_New \<lparr>MaxConnectionsPerBroker = 1, IdleTimeout = 0, KeepAliveInterval = 0\<rparr>) = Some p"
      "ppHealth p = HealthWait ''b'' []" "idle_empty ''b'' (ppPool p)" "ppSenders p = []"
    by (simp add: busy_broker_def pp_New_def pool_New_def pool_step_def pool_Get_def getOrCreatePool_def run_get_def
        finishGet_def healthCheckLoop_def checkStep_def idleCleanupLoop_def idle_empty_def Let_def)
  then show ?thesis using pool_close [OF p(1)] by (intro exI [of _ p]) auto
qed

end
