(* ===== verification/Monitoring.thy ===== *)
theory Monitoring
  imports DR_System
begin

text \<open>
  The running health checks and the failover manager together: one goroutine per cluster that probes
  both endpoints (\<^verbatim>\<open>internal/health/checker.go\<close>), the manager's loop that feeds the snapshots to the
  controllers (\<^verbatim>\<open>internal/failover/manager.go\<close>), drain timers, and clients that come and go. Their
  steps interleave in any order; an event is one step, and an event that is not possible in a state has no
  result. A probe is one step, so a sync can fall between the two probes of a round. A probe's dial outcome, like every clock reading, is part of the event.
\<close>

section \<open>The checker's goroutines\<close>

text \<open>\<open>dialHealth\<close>: the TCP dial's outcome and, with TLS, the handshake.\<close>

definition dialHealth :: "error + conn \<Rightarrow> (conn \<Rightarrow> error + conn) \<Rightarrow> bool \<Rightarrow> error + conn" where
  "dialHealth raw handshake useTLS =
     (case raw of
        Inl e \<Rightarrow> Inl (Wrap ''dial'' e)
      | Inr rawConn \<Rightarrow> if \<not> useTLS then Inr rawConn else wrap_err ''TLS handshake'' (handshake rawConn))"

text \<open>Where a goroutine is: before its first probe, between the two probes of a round, or in its \<open>select\<close>.\<close>

datatype ck_phase = CkFirst | CkBetween | CkSelect

text \<open>\<open>ckRunning\<close> are the clusters whose \<open>running\<close> flag is set, \<open>ckLive\<close> the goroutines there are.\<close>

record Checker =
  ckClusters :: "string \<rightharpoonup> clusterRunner"
  ckRunning :: "string set"
  ckLive :: "string \<rightharpoonup> ck_phase"
  ckStop :: bool

definition Checker_New :: "Time \<Rightarrow> (string \<times> ClusterConfig) list \<Rightarrow> Checker" where
  "Checker_New now clusters = \<lparr>ckClusters = NewChecker now clusters, ckRunning = {}, ckLive = Map.empty, ckStop = False\<rparr>"

definition Checker_Start :: "Checker \<Rightarrow> Checker" where
  "Checker_Start c =
     c\<lparr>ckLive := (\<lambda>name. if name \<in> dom (ckClusters c) - ckRunning c then Some CkFirst else ckLive c name),
       ckRunning := ckRunning c \<union> dom (ckClusters c)\<rparr>"

text \<open>\<open>Stop\<close> closes the channel once; it returns when no goroutine is left, and at once the second time.\<close>

definition Checker_Stop :: "Checker \<Rightarrow> Checker" where
  "Checker_Stop c = c\<lparr>ckStop := True\<rparr>"

datatype cluster_event =
    ClusterPrimary Time "error + conn" Duration "byte list"
  | ClusterSecondary Time "error + conn" Duration "byte list"
  | ClusterStop

definition plainProbe :: "error + conn \<Rightarrow> Duration \<Rightarrow> byte list \<Rightarrow> probe" where
  "plainProbe dialed latency pooled = \<lparr>prDial = dialHealth dialed Inr False, prLatency = latency, prPooled = pooled\<rparr>"

text \<open>
  \<open>runCluster\<close>: rounds of two probes, the first round at once and the others when the timer fires, until the
  stop channel is seen in the \<open>select\<close>. The dials are plain TCP.
\<close>

definition runCluster :: "string \<Rightarrow> cluster_event \<Rightarrow> Checker \<Rightarrow> Checker option" where
  "runCluster name ev c =
     (case (ckClusters c name, ckLive c name) of
        (Some r, Some phase) \<Rightarrow>
          (case ev of
             ClusterPrimary now dialed latency pooled \<Rightarrow>
               if phase = CkBetween then None
               else Some (c\<lparr>ckClusters := (ckClusters c)(name \<mapsto>
                      r\<lparr>crPrimary := checkEndpoint now r (plainProbe dialed latency pooled) (crPrimaryAddr r) (crPrimary r)\<rparr>),
                    ckLive := (ckLive c)(name \<mapsto> CkBetween)\<rparr>)
           | ClusterSecondary now dialed latency pooled \<Rightarrow>
               if phase \<noteq> CkBetween then None
               else Some (c\<lparr>ckClusters := (ckClusters c)(name \<mapsto>
                      r\<lparr>crSecondary := checkEndpoint now r (plainProbe dialed latency pooled) (crSecondaryAddr r) (crSecondary r)\<rparr>),
                    ckLive := (ckLive c)(name \<mapsto> CkSelect)\<rparr>)
           | ClusterStop \<Rightarrow> if phase = CkSelect \<and> ckStop c then Some (c\<lparr>ckLive := (ckLive c)(name := None)\<rparr>) else None)
      | _ \<Rightarrow> None)"

text \<open>Both probes in a row are a round of \<open>checkAndReschedule\<close>.\<close>

lemma runCluster_round:
  assumes "ckClusters c name = Some r" and "ckLive c name = Some phase" and "phase \<noteq> CkBetween"
  shows "Option.bind (runCluster name (ClusterPrimary now pd pl pb) c) (runCluster name (ClusterSecondary now sd sl sb))
    = Some (c\<lparr>ckClusters := (ckClusters c)(name \<mapsto> fst (checkAndReschedule now (plainProbe pd pl pb) (plainProbe sd sl sb) r)),
        ckLive := (ckLive c)(name \<mapsto> CkSelect)\<rparr>)"
  using assms by (simp add: runCluster_def checkAndReschedule_def Let_def)

section \<open>The manager's loop\<close>

definition SetDrainReader :: "Manager \<Rightarrow> Manager" where
  "SetDrainReader m = m\<lparr>mgHasDrainReader := True\<rparr>"

definition SetChecker :: "Manager \<Rightarrow> Manager" where
  "SetChecker m = m\<lparr>mgHasChecker := True\<rparr>"

definition SetMetrics :: "FailoverMetrics \<Rightarrow> Manager \<Rightarrow> Manager" where
  "SetMetrics fm m = m\<lparr>mgMetrics := Some fm\<rparr>"

definition Manager_Controller :: "Manager \<Rightarrow> string \<Rightarrow> Controller option" where
  "Manager_Controller m bu = mgControllers m bu"

text \<open>\<open>moLoop\<close> says that the loop runs, \<open>moStop\<close> and \<open>moDone\<close> that the manager's two channels are closed.\<close>

record Monitor =
  moChecker :: Checker
  moManager :: Manager
  moLoop :: bool
  moStop :: bool
  moDone :: bool

definition Manager_Start :: "Monitor \<Rightarrow> Monitor" where
  "Manager_Start s = s\<lparr>moManager := SetChecker (moManager s), moLoop := True\<rparr>"

datatype loop_event = LoopTick Time "string list" | LoopStop

text \<open>One turn of \<open>loop\<close>: a sync over the controllers, in any order, or the end (the code's first turn is always a sync).\<close>

definition Manager_loop :: "loop_event \<Rightarrow> Monitor \<Rightarrow> Monitor option" where
  "Manager_loop ev s =
     (if \<not> moLoop s then None
      else case ev of
        LoopTick now bus \<Rightarrow>
          if distinct bus \<and> set bus = dom (mgControllers (moManager s))
          then Some (s\<lparr>moManager := sync now (Checker_Health (ckClusters (moChecker s))) bus (moManager s)\<rparr>) else None
      | LoopStop \<Rightarrow> if moStop s then Some (s\<lparr>moLoop := False, moDone := True\<rparr>) else None)"

text \<open>\<open>Stop\<close>: a closed stop channel makes it return at once; otherwise it waits for the loop's end.\<close>

definition Manager_Stop :: "Monitor \<Rightarrow> Monitor" where
  "Manager_Stop s = s\<lparr>moStop := True\<rparr>"

definition Manager_Stop_returns :: "Monitor \<Rightarrow> Monitor \<Rightarrow> bool" where
  "Manager_Stop_returns before now \<longleftrightarrow> moStop before \<or> moDone now"

section \<open>The whole system\<close>

datatype mon_event =
    MoCluster string cluster_event
  | MoLoop loop_event
  | MoTimer Time nat
  | MoRegister string nat
  | MoUnregister string uint64
  | MoStopChecker
  | MoStopManager

definition mon_step :: "mon_event \<Rightarrow> Monitor \<Rightarrow> Monitor option" where
  "mon_step ev s =
     (let m = moManager s in
      case ev of
        MoCluster name e \<Rightarrow> map_option (\<lambda>c. s\<lparr>moChecker := c\<rparr>) (runCluster name e (moChecker s))
      | MoLoop e \<Rightarrow> Manager_loop e s
      | MoTimer now i \<Rightarrow>
          (case dmTimers (mgDM m) i of
             None \<Rightarrow> None
           | Some tf \<Rightarrow> if tfDeadline tf \<le> now then Some (s\<lparr>moManager := timerFires now i m\<rparr>) else None)
      | MoRegister c conn \<Rightarrow>
          Some (s\<lparr>moManager := m\<lparr>mgDM := snd (Register c conn
            (fst (TargetForRouting (mgSM m) (mgDM m) (Some (mgControllers m)) c)) (mgDM m))\<rparr>\<rparr>)
      | MoUnregister c i \<Rightarrow> Some (s\<lparr>moManager := m\<lparr>mgDM := Unregister c i (mgDM m)\<rparr>\<rparr>)
      | MoStopChecker \<Rightarrow> Some (s\<lparr>moChecker := Checker_Stop (moChecker s)\<rparr>)
      | MoStopManager \<Rightarrow> Some (Manager_Stop s))"

fun mon_run :: "mon_event list \<Rightarrow> Monitor \<Rightarrow> Monitor option" where
  "mon_run [] s = Some s"
| "mon_run (ev # evs) s = Option.bind (mon_step ev s) (mon_run evs)"

lemma mon_run_append: "mon_run (xs @ ys) s = Option.bind (mon_run xs s) (mon_run ys)"
  by (induction xs arbitrary: s) (auto split: bind_splits)

text \<open>The manager of a monitor moves by steps of the wired system, so its invariant holds throughout.\<close>

lemma mon_step_dr: "mon_step ev s = Some s' \<Longrightarrow> moManager s' = moManager s \<or> dr_step (moManager s) (moManager s')"
  by (auto simp: mon_step_def Manager_loop_def Manager_Stop_def Let_def intro: dr_step.intros
      split: mon_event.splits loop_event.splits option.splits if_splits)

lemma mon_step_inv: "mon_step ev s = Some s' \<Longrightarrow> mgr_inv (moManager s) \<Longrightarrow> mgr_inv (moManager s')"
  using mon_step_dr dr_step_inv by fastforce

section \<open>What a sync does to one BU\<close>

text \<open>All that the manager keeps about a BU.\<close>

definition bu_view :: "string \<Rightarrow> Manager \<Rightarrow> Controller option \<times> BUState option \<times> buDrain option" where
  "bu_view bu m = (mgControllers m bu, entries (mgSM m) bu, drains (mgDM m) bu)"

definition named :: "Manager \<Rightarrow> bool" where
  "named m \<longleftrightarrow> (\<forall>bu c. mgControllers m bu = Some c \<longrightarrow> ctBuName c = bu)"

lemma recordSnapshot_name [simp]: "ctBuName (recordSnapshot now cl sn c) = ctBuName c"
  by (simp add: recordSnapshot_def RecordHealthResult_def healthFor_def setHealthFor_def)

lemma Evaluate_name: "Evaluate now c sm = (a, c', sm', fired) \<Longrightarrow> ctBuName c' = ctBuName c"
  by (auto simp: Evaluate_def evaluateLocked_def enterBothDownLocked_def triggerFailoverLocked_def canFailoverLocked_def Let_def
      split: if_splits prod.splits)

lemma runStateCallbacks_other:
  assumes "SM_Transition sm b to reason = (err, sm', fired)" and "b \<noteq> bu"
  shows "entries sm' bu = entries sm bu \<and> drains (runStateCallbacks now fired dm) bu = drains dm bu"
proof -
  have "drains (wireStateChange now \<lparr>tBU = b, tFrom = frm, tTo = to, tReason = reason\<rparr> dm) bu = drains dm bu" for frm dm
    using assms(2) by (simp add: wireStateChange_def StartDrain_timers Let_def)
  then have "drains (fold (\<lambda>(cb, t). wireStateChange now t) (map (\<lambda>cb. (cb, \<lparr>tBU = b, tFrom = frm, tTo = to, tReason = reason\<rparr>)) cbs) dm) bu
      = drains dm bu" for frm and cbs :: "sm_callback list"
    by (induction cbs arbitrary: dm) auto
  then show ?thesis using SM_Transition_cases [OF assms(1)] assms(2) by (auto simp: runStateCallbacks_def fireCallbacks_def)
qed

lemma syncOne_shape:
  assumes "mgControllers m bu = Some c" and "hm bu = Some ch"
    and "Evaluate now (recordSnapshot now ''secondary'' (chSecondary ch) (recordSnapshot now ''primary'' (chPrimary ch) c)) (mgSM m)
      = (a, c', sm', fired)"
  shows "mgControllers (syncOne now hm bu m) = (mgControllers m)(bu \<mapsto> c')" and "mgSM (syncOne now hm bu m) = sm'"
    and "mgDM (syncOne now hm bu m) = runStateCallbacks now fired (mgDM m)"
    and "mgHasChecker (syncOne now hm bu m) = mgHasChecker m"
  using assms by (simp_all add: syncOne_def Let_def)

lemma syncOne_other:
  assumes "named m"
  shows "bu \<noteq> b \<Longrightarrow> bu_view bu (syncOne now hm b m) = bu_view bu m" and "named (syncOne now hm b m)"
proof -
  have "(bu \<noteq> b \<longrightarrow> bu_view bu (syncOne now hm b m) = bu_view bu m) \<and> named (syncOne now hm b m)"
  proof (cases "mgControllers m b = None \<or> hm b = None")
    case True
    then show ?thesis using assms by (auto simp: syncOne_def split: option.splits)
  next
    case False
    then obtain c ch where c: "mgControllers m b = Some c" "hm b = Some ch" by auto
    let ?c = "recordSnapshot now ''secondary'' (chSecondary ch) (recordSnapshot now ''primary'' (chPrimary ch) c)"
    obtain a c' sm' fired where e: "Evaluate now ?c (mgSM m) = (a, c', sm', fired)" by (metis prod_cases4)
    have n: "ctBuName ?c = b" using assms c(1) by (simp add: named_def)
    have "entries sm' bu = entries (mgSM m) bu \<and> drains (runStateCallbacks now fired (mgDM m)) bu = drains (mgDM m) bu" if "bu \<noteq> b"
      using Evaluate_transition [OF e] runStateCallbacks_other [OF _ that [symmetric]] unfolding n by (auto simp: runStateCallbacks_def)
    then show ?thesis using assms Evaluate_name [OF e] n by (simp add: bu_view_def named_def syncOne_shape [where hm = hm, OF c e])
  qed
  then show "bu \<noteq> b \<Longrightarrow> bu_view bu (syncOne now hm b m) = bu_view bu m" "named (syncOne now hm b m)" by simp_all
qed

lemma sync_view:
  assumes "named m" and "mgHasChecker m" and "distinct bus" and "bu \<in> set bus" and "mgr_inv m"
  obtains m0 where "bu_view bu m0 = bu_view bu m" and "mgr_inv m0"
    and "bu_view bu (sync now hm bus m) = bu_view bu (syncOne now hm bu m0)"
    and "named (sync now hm bus m)" and "mgHasChecker (sync now hm bus m)"
proof -
  have others: "bu_view bu (fold (syncOne now hm) xs m') = bu_view bu m' \<and> named (fold (syncOne now hm) xs m')"
    if "bu \<notin> set xs" "named m'" for xs m'
    using that by (induction xs arbitrary: m') (auto simp: syncOne_other)
  have hc: "mgHasChecker (syncOne now hm b m') = mgHasChecker m'" for b m'
    by (auto simp: syncOne_def Let_def split: option.splits prod.splits)
  have hcs: "mgHasChecker (fold (syncOne now hm) xs m') = mgHasChecker m'" for xs m'
    by (induction xs arbitrary: m') (auto simp: hc)
  obtain xs ys where bus: "bus = xs @ bu # ys" using assms(4) by (auto dest: split_list)
  then have d: "bu \<notin> set xs" "bu \<notin> set ys" using assms(3) by auto
  let ?m0 = "fold (syncOne now hm) xs m"
  have "mgr_inv (sync now hm xs m)" using dr_step_inv [OF dr_step.sync assms(5)] .
  then have inv: "mgr_inv ?m0" using assms(2) by (simp add: sync_def)
  have s: "sync now hm bus m = fold (syncOne now hm) ys (syncOne now hm bu ?m0)" using assms(2) by (simp add: sync_def bus)
  note before = others [OF d(1) assms(1)] and after = others [OF d(2), of "syncOne now hm bu ?m0"]
  show thesis
  proof (rule that)
    show "bu_view bu ?m0 = bu_view bu m" "mgr_inv ?m0" using before inv by simp_all
    show "bu_view bu (sync now hm bus m) = bu_view bu (syncOne now hm bu ?m0)" "named (sync now hm bus m)"
      using before after syncOne_other(2) unfolding s by blast+
    show "mgHasChecker (sync now hm bus m)" using assms(2) hc hcs by (simp add: s)
  qed
qed

section \<open>The two phases of a failover\<close>

text \<open>
  Before it: the BU is on the primary, its controller considers both clusters up and has recorded at least \<open>k\<close>
  failures of the primary in a row; what the limits read is as in \<open>c0\<close>. After it: the primary is down, and new
  connections go to the secondary, during the drain or for good.
\<close>

definition before_failover :: "Controller \<Rightarrow> string \<Rightarrow> int \<Rightarrow> Controller option \<times> BUState option \<times> buDrain option \<Rightarrow> bool" where
  "before_failover c0 bu k v \<longleftrightarrow> (\<exists>c d. v = (Some c, Some StatePrimary, d) \<and> ctBuName c = bu \<and> ctMode c = ModeActivePassive
     \<and> \<not> ctCircuitBroken c \<and> khHealthy (ctPrimaryHealth c) \<and> khHealthy (ctSecondaryHealth c)
     \<and> k \<le> khConsecutiveFailures (ctPrimaryHealth c) \<and> k < controllerFT (ctHcCfg c0)
     \<and> ctHcCfg c = ctHcCfg c0 \<and> ctLastFailoverAt c = ctLastFailoverAt c0 \<and> ctFailoverTimestamps c = ctFailoverTimestamps c0)"

definition after_failover :: "string \<Rightarrow> Controller option \<times> BUState option \<times> buDrain option \<Rightarrow> bool" where
  "after_failover bu v \<longleftrightarrow> (\<exists>c st d. v = (Some c, Some st, d) \<and> ctBuName c = bu
     \<and> \<not> khHealthy (ctPrimaryHealth c) \<and> khHealthy (ctSecondaryHealth c)
     \<and> (st = StateSecondary \<or> st = StateDraining \<and> map_option NewActive d = Some ActiveSecondary))"

lemma after_failover_routes:
  "after_failover bu (bu_view bu m) \<Longrightarrow> TargetForRouting (mgSM m) (mgDM m) look bu = (ActiveSecondary, True)"
  by (auto simp: after_failover_def bu_view_def TargetForRouting_def SM_State_def DrainState_def)

lemma before_failover_routes:
  "before_failover c0 bu k (bu_view bu m) \<Longrightarrow> TargetForRouting (mgSM m) (mgDM m) look bu = (ActivePrimary, True)"
  by (auto simp: before_failover_def bu_view_def TargetForRouting_def SM_State_def)

lemma recordSnapshots:
  "recordSnapshot now ''secondary'' sn2 (recordSnapshot now ''primary'' sn1 c)
    = c\<lparr>ctPrimaryHealth := (if snHealthy sn1 then recordHealthy (controllerRT (ctHcCfg c)) (now, snLastCheckLatency sn1) (ctPrimaryHealth c)
                            else recordUnhealthy (controllerFT (ctHcCfg c)) (now, snLastCheckLatency sn1) (ctPrimaryHealth c)),
        ctSecondaryHealth := (if snHealthy sn2 then recordHealthy (controllerRT (ctHcCfg c)) (now, snLastCheckLatency sn2) (ctSecondaryHealth c)
                            else recordUnhealthy (controllerFT (ctHcCfg c)) (now, snLastCheckLatency sn2) (ctSecondaryHealth c))\<rparr>"
  by (simp add: recordSnapshot_def RecordHealthResult_def healthFor_def setHealthFor_def)


lemma trigger_health:
  "triggerFailoverLocked now frm to c sm = (a, c', sm', fired) \<Longrightarrow>
     ctPrimaryHealth c' = ctPrimaryHealth c \<and> ctSecondaryHealth c' = ctSecondaryHealth c \<and> ctBuName c' = ctBuName c"
  by (auto simp: triggerFailoverLocked_def Let_def split: if_splits prod.splits)

lemma Evaluate_fails_over:
  assumes "wants_failover c StatePrimary" and "entries sm (ctBuName c) = Some StatePrimary" and "\<not> ctCircuitBroken c"
    and "ctMode c = ModeActivePassive" and "may_fail_over now c"
  obtains a c' where "Evaluate now c sm = (a, c', sm\<lparr>entries := (entries sm)(ctBuName c \<mapsto> StateDraining)\<rparr>,
      fireCallbacks sm \<lparr>tBU = ctBuName c, tFrom = StatePrimary, tTo = StateDraining, tReason = ReasonHealthEvent\<rparr>)"
    and "ctPrimaryHealth c' = ctPrimaryHealth c" "ctSecondaryHealth c' = ctSecondaryHealth c" "ctBuName c' = ctBuName c"
proof -
  let ?c1 = "snd (canFailoverLocked now c)"
  obtain a c' sm' fired where e: "Evaluate now c sm = (a, c', sm', fired)" by (metis prod_cases4)
  have st: "SM_State sm (ctBuName c) = StatePrimary" using assms(2) by (simp add: SM_State_def)
  have tr: "triggerFailoverLocked now StatePrimary StateSecondary ?c1 sm = (a, c', sm', fired)"
    using evaluate_fires [OF assms(3-5), of StatePrimary sm] assms(1) e st by (simp add: Evaluate_def)
  have c1: "\<not> ctCircuitBroken ?c1" "ctBuName ?c1 = ctBuName c" "ctPrimaryHealth ?c1 = ctPrimaryHealth c" "ctSecondaryHealth ?c1 = ctSecondaryHealth c"
    using assms(3) by (simp_all add: canFailoverLocked_def Let_def)
  have "isValidTransition StatePrimary StateDraining" by simp
  from SM_Transition_known [OF assms(2) this, of ReasonHealthEvent] trigger_state(6) [OF tr c1(1)]
  have "sm' = sm\<lparr>entries := (entries sm)(ctBuName c \<mapsto> StateDraining)\<rparr>"
    "fired = fireCallbacks sm \<lparr>tBU = ctBuName c, tFrom = StatePrimary, tTo = StateDraining, tReason = ReasonHealthEvent\<rparr>"
    using c1(2) by simp_all
  then show thesis using that e trigger_health [OF tr] c1 by simp
qed

lemma primary_drain:
  "callbacks sm = [WireStartDrain] \<Longrightarrow>
    drains (runStateCallbacks now (fireCallbacks sm \<lparr>tBU = bu, tFrom = StatePrimary, tTo = StateDraining, tReason = r\<rparr>) dm) bu
      = Some \<lparr>OldActive = ActivePrimary, NewActive = ActiveSecondary, StartedAt = now, drainTimer = dmNextTimer dm\<rparr>"
  by (simp add: runStateCallbacks_def fireCallbacks_def wireStateChange_drain StartDrain_timers stateToTarget_def)

lemma tick_before_up:
  assumes "before_failover c0 bu k (bu_view bu m)" and "hm bu = Some ch" and "snHealthy (chPrimary ch)" and "snHealthy (chSecondary ch)"
  shows "before_failover c0 bu 0 (bu_view bu (syncOne now hm bu m))"
proof -
  obtain c where c: "mgControllers m bu = Some c" and e: "entries (mgSM m) bu = Some StatePrimary"
    and rest: "ctBuName c = bu" "ctMode c = ModeActivePassive" "\<not> ctCircuitBroken c" "khHealthy (ctPrimaryHealth c)" "khHealthy (ctSecondaryHealth c)"
      "ctHcCfg c = ctHcCfg c0" "ctLastFailoverAt c = ctLastFailoverAt c0" "ctFailoverTimestamps c = ctFailoverTimestamps c0"
    using assms(1) by (auto simp: before_failover_def bu_view_def)
  let ?c = "recordSnapshot now ''secondary'' (chSecondary ch) (recordSnapshot now ''primary'' (chPrimary ch) c)"
  have up: "khHealthy (ctPrimaryHealth ?c)" "khHealthy (ctSecondaryHealth ?c)" "khConsecutiveFailures (ctPrimaryHealth ?c) = 0"
    using rest assms(3,4) by (simp_all add: recordSnapshots kh.hyst_simps)
  have "Evaluate now ?c (mgSM m) = (ActionNone, ?c, mgSM m, [])"
    using up rest e by (simp add: Evaluate_def evaluateLocked_def SM_State_def Let_def recordSnapshots)
  from syncOne_shape [where hm = hm, OF c assms(2) this] show ?thesis
    using rest e up by (simp add: before_failover_def bu_view_def recordSnapshots controllerFT_def runStateCallbacks_def DefaultFailureThreshold_def)
qed

lemma tick_before_down:
  assumes "before_failover c0 bu k (bu_view bu m)" and "hm bu = Some ch" and "\<not> snHealthy (chPrimary ch)" and "snHealthy (chSecondary ch)"
    and "may_fail_over now c0" and "mgr_inv m"
  shows "before_failover c0 bu (k + 1) (bu_view bu (syncOne now hm bu m)) \<or> after_failover bu (bu_view bu (syncOne now hm bu m))"
proof -
  obtain c where c: "mgControllers m bu = Some c" and e: "entries (mgSM m) bu = Some StatePrimary"
    and rest: "ctBuName c = bu" "ctMode c = ModeActivePassive" "\<not> ctCircuitBroken c" "khHealthy (ctPrimaryHealth c)" "khHealthy (ctSecondaryHealth c)"
      "ctHcCfg c = ctHcCfg c0" "ctLastFailoverAt c = ctLastFailoverAt c0" "ctFailoverTimestamps c = ctFailoverTimestamps c0"
      "k \<le> khConsecutiveFailures (ctPrimaryHealth c)"
    using assms(1) by (auto simp: before_failover_def bu_view_def)
  let ?c = "recordSnapshot now ''secondary'' (chSecondary ch) (recordSnapshot now ''primary'' (chPrimary ch) c)"
  let ?n = "khConsecutiveFailures (ctPrimaryHealth c) + 1"
  have h: "khHealthy (ctPrimaryHealth ?c) \<longleftrightarrow> ?n < controllerFT (ctHcCfg c)" "khHealthy (ctSecondaryHealth ?c)"
      "khConsecutiveFailures (ctPrimaryHealth ?c) = ?n"
    using rest assms(3,4) by (simp_all add: recordSnapshots kh.hyst_simps)
  have same: "ctBuName ?c = bu" "ctMode ?c = ModeActivePassive" "\<not> ctCircuitBroken ?c" "ctHcCfg ?c = ctHcCfg c0"
      "ctLastFailoverAt ?c = ctLastFailoverAt c0" "ctFailoverTimestamps ?c = ctFailoverTimestamps c0"
    using rest by (simp_all add: recordSnapshots)
  show ?thesis
  proof (cases "?n < controllerFT (ctHcCfg c)")
    case True
    then have "Evaluate now ?c (mgSM m) = (ActionNone, ?c, mgSM m, [])"
      using h same e by (simp add: Evaluate_def evaluateLocked_def SM_State_def Let_def)
    from syncOne_shape [where hm = hm, OF c assms(2) this] show ?thesis
      using True rest(6,9) same e h by (simp add: before_failover_def bu_view_def runStateCallbacks_def)
  next
    case False
    then have "wants_failover ?c StatePrimary" "may_fail_over now ?c"
      using h assms(5) same by (simp_all add: wants_defs may_fail_over_def)
    then obtain a c' where ev: "Evaluate now ?c (mgSM m) = (a, c', (mgSM m)\<lparr>entries := (entries (mgSM m))(bu \<mapsto> StateDraining)\<rparr>,
        fireCallbacks (mgSM m) \<lparr>tBU = bu, tFrom = StatePrimary, tTo = StateDraining, tReason = ReasonHealthEvent\<rparr>)"
        and c': "ctPrimaryHealth c' = ctPrimaryHealth ?c" "ctSecondaryHealth c' = ctSecondaryHealth ?c" "ctBuName c' = bu"
      using Evaluate_fails_over [of ?c "mgSM m" now] same e by metis
    have "callbacks (mgSM m) = [WireStartDrain]" using assms(6) by (simp add: mgr_inv_def dr_inv_def)
    from primary_drain [OF this] syncOne_shape [where hm = hm, OF c assms(2) ev] show ?thesis
      using False c' h by (simp add: after_failover_def bu_view_def)
  qed
qed

lemma tick_after:
  assumes "after_failover bu (bu_view bu m)" and "hm bu = Some ch" and "\<not> snHealthy (chPrimary ch)" and "snHealthy (chSecondary ch)" and "mgr_inv m"
  shows "after_failover bu (bu_view bu (syncOne now hm bu m))"
proof -
  obtain c st where c: "mgControllers m bu = Some c" and e: "entries (mgSM m) bu = Some st"
    and rest: "ctBuName c = bu" "\<not> khHealthy (ctPrimaryHealth c)" "khHealthy (ctSecondaryHealth c)"
      "st = StateSecondary \<or> st = StateDraining \<and> map_option NewActive (drains (mgDM m) bu) = Some ActiveSecondary"
    using assms(1) by (auto simp: after_failover_def bu_view_def)
  let ?c = "recordSnapshot now ''secondary'' (chSecondary ch) (recordSnapshot now ''primary'' (chPrimary ch) c)"
  have h: "\<not> khHealthy (ctPrimaryHealth ?c)" "khHealthy (ctSecondaryHealth ?c)" "ctBuName ?c = bu"
    using rest assms(3,4) by (simp_all add: recordSnapshots kh.hyst_simps)
  have ev: "Evaluate now ?c (mgSM m) = (ActionNone, ?c, mgSM m, [])
      \<or> st = StateDraining \<and> Evaluate now ?c (mgSM m) = (ActionNone, ?c, (mgSM m)\<lparr>entries := (entries (mgSM m))(bu \<mapsto> StateSecondary)\<rparr>,
          fireCallbacks (mgSM m) \<lparr>tBU = bu, tFrom = StateDraining, tTo = StateSecondary, tReason = ReasonRecovery\<rparr>)"
    using h rest(4) e SM_Transition_known [of "mgSM m" bu StateDraining StateSecondary ReasonRecovery]
    by (auto simp: Evaluate_def evaluateLocked_def SM_State_def Let_def)
  have cb: "runStateCallbacks now (fireCallbacks (mgSM m) \<lparr>tBU = bu, tFrom = StateDraining, tTo = StateSecondary, tReason = ReasonRecovery\<rparr>) (mgDM m) = mgDM m"
    using assms(5) by (simp add: runStateCallbacks_def fireCallbacks_def wireStateChange_def mgr_inv_def dr_inv_def)
  show ?thesis using ev
  proof
    assume "Evaluate now ?c (mgSM m) = (ActionNone, ?c, mgSM m, [])"
    from syncOne_shape [where hm = hm, OF c assms(2) this] show ?thesis
      using h rest e by (simp add: after_failover_def bu_view_def runStateCallbacks_def)
  next
    assume "st = StateDraining \<and> Evaluate now ?c (mgSM m) = (ActionNone, ?c, (mgSM m)\<lparr>entries := (entries (mgSM m))(bu \<mapsto> StateSecondary)\<rparr>,
          fireCallbacks (mgSM m) \<lparr>tBU = bu, tFrom = StateDraining, tTo = StateSecondary, tReason = ReasonRecovery\<rparr>)"
    then show ?thesis using syncOne_shape [where hm = hm, OF c assms(2)] h cb
      by (simp add: after_failover_def bu_view_def)
  qed
qed


section \<open>Steps that are not syncs\<close>

lemma timer_keeps:
  assumes "mgr_inv m" and "dmTimers (mgDM m) i = Some tf"
  shows "before_failover c0 bu k (bu_view bu m) \<Longrightarrow> before_failover c0 bu k (bu_view bu (timerFires now i m))"
    and "after_failover bu (bu_view bu m) \<Longrightarrow> after_failover bu (bu_view bu (timerFires now i m))"
    and "named (timerFires now i m) = named m" and "mgHasChecker (timerFires now i m) = mgHasChecker m"
proof -
  have ctl: "mgControllers (timerFires now i m) = mgControllers m" "mgHasChecker (timerFires now i m) = mgHasChecker m"
    by (simp_all add: timerFires_def split: prod.splits)
  then show "named (timerFires now i m) = named m" "mgHasChecker (timerFires now i m) = mgHasChecker m" by (simp_all add: named_def)
  have inv: "dr_inv (mgSM m, mgDM m)" using assms(1) by (simp add: mgr_inv_def)
  obtain d where d: "drains (mgDM m) (tfCluster tf) = Some d"
    and dm: "drains (mgDM (timerFires now i m)) = (drains (mgDM m))(tfCluster tf := None)"
    and sm: "mgSM (timerFires now i m) = (if SM_State (mgSM m) (tfCluster tf) = StateDraining
        then (mgSM m)\<lparr>entries := (entries (mgSM m))(tfCluster tf \<mapsto>
               (if NewActive d = ActiveSecondary then StateSecondary else StatePrimary))\<rparr> else mgSM m)"
    by (rule timerFires_effect [OF inv assms(2) refl refl, of now]) blast
  show "before_failover c0 bu k (bu_view bu m) \<Longrightarrow> before_failover c0 bu k (bu_view bu (timerFires now i m))"
    by (auto simp: before_failover_def bu_view_def ctl sm SM_State_def)
  show "after_failover bu (bu_view bu m) \<Longrightarrow> after_failover bu (bu_view bu (timerFires now i m))"
    using d by (auto simp: after_failover_def bu_view_def ctl sm dm SM_State_def)
qed

text \<open>A failing probe of the primary, and a successful one of the secondary.\<close>

lemma failing_probe_effect:
  fixes now :: Time
  assumes "probeResult r pp \<noteq> None" and "crPrimaryAddr r \<noteq> ''''"
  defines "h \<equiv> checkEndpoint now r pp (crPrimaryAddr r) (crPrimary r)"
  shows "hsConsecutiveFailures h = hsConsecutiveFailures (crPrimary r) + 1"
    and "hsHealthy h \<longleftrightarrow> hsHealthy (crPrimary r) \<and> hsConsecutiveFailures (crPrimary r) + 1 < crFailureThreshold r"
proof -
  obtain msg where msg: "probeResult r pp = Some msg" using assms(1) by auto
  have "h = hs_bad (crFailureThreshold r) (now, prLatency pp, StatusUnreachable, msg) (crPrimary r)"
    using assms(2) by (simp add: h_def checkEndpoint_def msg hs_bad_def)
  then show "hsConsecutiveFailures h = hsConsecutiveFailures (crPrimary r) + 1"
    "hsHealthy h \<longleftrightarrow> hsHealthy (crPrimary r) \<and> hsConsecutiveFailures (crPrimary r) + 1 < crFailureThreshold r"
    by (simp_all add: hs.hyst_simps)
qed

lemma good_probe_effect:
  "probeResult r sp = None \<Longrightarrow> hsHealthy (crSecondary r) \<Longrightarrow> hsHealthy (checkEndpoint now r sp (crSecondaryAddr r) (crSecondary r))"
  by (simp add: checkEndpoint_def RecordSuccess_def Let_def)

section \<open>From failing probes to a new route\<close>

text \<open>The primary of \<open>bu\<close> is dead and its secondary alive: what the probes of \<open>bu\<close> return.\<close>

definition dead_primary :: "clusterRunner \<Rightarrow> string \<Rightarrow> mon_event \<Rightarrow> bool" where
  "dead_primary r bu ev =
     (case ev of
        MoCluster b (ClusterPrimary now d l p) \<Rightarrow> b = bu \<longrightarrow> probeResult r (plainProbe d l p) \<noteq> None
      | MoCluster b (ClusterSecondary now d l p) \<Rightarrow> b = bu \<longrightarrow> probeResult r (plainProbe d l p) = None
      | _ \<Rightarrow> True)"

definition in_time :: "Controller \<Rightarrow> mon_event \<Rightarrow> bool" where
  "in_time c ev = (case ev of MoLoop (LoopTick now bus) \<Rightarrow> may_fail_over now c | _ \<Rightarrow> True)"

text \<open>A round is counted when its first probe, the primary's, ends.\<close>

definition is_round :: "string \<Rightarrow> mon_event \<Rightarrow> bool" where
  "is_round bu ev = (case ev of MoCluster b (ClusterPrimary now d l p) \<Rightarrow> b = bu | _ \<Rightarrow> False)"

definition is_tick :: "mon_event \<Rightarrow> bool" where
  "is_tick ev = (case ev of MoLoop (LoopTick now bus) \<Rightarrow> True | _ \<Rightarrow> False)"

definition rounds :: "string \<Rightarrow> mon_event list \<Rightarrow> int" where
  "rounds bu evs = int (length (filter (is_round bu) evs))"

definition ticks :: "mon_event list \<Rightarrow> int" where
  "ticks evs = int (length (filter is_tick evs))"

definition failing :: "clusterRunner \<Rightarrow> string \<Rightarrow> int \<Rightarrow> Checker \<Rightarrow> bool" where
  "failing r0 bu n ck \<longleftrightarrow> (\<exists>r. ckClusters ck bu = Some r \<and> runner_params r = runner_params r0 \<and> crPrimaryAddr r \<noteq> ''''
     \<and> hsHealthy (crSecondary r) \<and> n \<le> hsConsecutiveFailures (crPrimary r)
     \<and> (hsHealthy (crPrimary r) \<longrightarrow> hsConsecutiveFailures (crPrimary r) < crFailureThreshold r))"

definition down :: "string \<Rightarrow> Checker \<Rightarrow> bool" where
  "down bu ck \<longleftrightarrow> (\<exists>r. ckClusters ck bu = Some r \<and> \<not> hsHealthy (crPrimary r))"

lemma failing_down: "failing r0 bu n ck \<Longrightarrow> crFailureThreshold r0 \<le> n \<Longrightarrow> down bu ck"
  by (auto simp: failing_def down_def runner_params_def)

lemma runCluster_failing:
  assumes "runCluster b e ck = Some ck'" and "failing r0 bu n ck" and "dead_primary r0 bu (MoCluster b e)"
  shows "failing r0 bu (n + (if is_round bu (MoCluster b e) then 1 else 0)) ck' \<and> (down bu ck \<longrightarrow> down bu ck')"
proof (cases "b = bu \<and> e \<noteq> ClusterStop")
  case False
  then show ?thesis using assms
    by (auto simp: runCluster_def failing_def down_def is_round_def split: option.splits if_splits cluster_event.splits)
next
  case True
  obtain r where r: "ckClusters ck bu = Some r" "runner_params r = runner_params r0" "crPrimaryAddr r \<noteq> ''''" "hsHealthy (crSecondary r)"
      "n \<le> hsConsecutiveFailures (crPrimary r)"
      "hsHealthy (crPrimary r) \<longrightarrow> hsConsecutiveFailures (crPrimary r) < crFailureThreshold r"
    using assms(2) by (auto simp: failing_def)
  show ?thesis
  proof (cases e)
    case (ClusterPrimary now d l p)
    let ?h = "checkEndpoint now r (plainProbe d l p) (crPrimaryAddr r) (crPrimary r)"
    have "probeResult r (plainProbe d l p) \<noteq> None"
      using assms(3) True probeResult_params [OF r(2)] by (simp add: dead_primary_def ClusterPrimary)
    note h = failing_probe_effect [OF this r(3), of now]
    have "ckClusters ck' bu = Some (r\<lparr>crPrimary := ?h\<rparr>)"
      using assms(1) True r(1) by (auto simp: runCluster_def ClusterPrimary split: option.splits if_splits)
    then show ?thesis using h r True
      by (auto simp: failing_def down_def is_round_def ClusterPrimary runner_params_def)
  next
    case (ClusterSecondary now d l p)
    let ?h = "checkEndpoint now r (plainProbe d l p) (crSecondaryAddr r) (crSecondary r)"
    have "probeResult r (plainProbe d l p) = None"
      using assms(3) True probeResult_params [OF r(2)] by (simp add: dead_primary_def ClusterSecondary)
    then have h: "hsHealthy ?h" using good_probe_effect r(4) by blast
    have "ckClusters ck' bu = Some (r\<lparr>crSecondary := ?h\<rparr>)"
      using assms(1) True r(1) by (auto simp: runCluster_def ClusterSecondary split: option.splits if_splits)
    then show ?thesis using h r True
      by (auto simp: failing_def down_def is_round_def ClusterSecondary runner_params_def)
  qed (use True in simp)
qed


text \<open>
  The whole system on its way: at least \<open>n\<close> failed rounds, and \<open>k\<close> syncs that saw the primary down.
\<close>

definition mon_inv :: "clusterRunner \<Rightarrow> Controller \<Rightarrow> string \<Rightarrow> int \<Rightarrow> int \<Rightarrow> Monitor \<Rightarrow> bool" where
  "mon_inv r0 c0 bu n k s \<longleftrightarrow> failing r0 bu n (moChecker s) \<and> mgr_inv (moManager s) \<and> named (moManager s) \<and> mgHasChecker (moManager s)
     \<and> (before_failover c0 bu k (bu_view bu (moManager s)) \<or> after_failover bu (bu_view bu (moManager s)) \<and> down bu (moChecker s))
     \<and> (\<not> down bu (moChecker s) \<longrightarrow> k = 0) \<and> 0 \<le> k"

lemma controllerFT_pos: "0 < controllerFT hc"
  by (simp add: controllerFT_def DefaultFailureThreshold_def)

lemma mon_inv_weaken: "mon_inv r0 c0 bu n k s \<Longrightarrow> mon_inv r0 c0 bu n 0 s"
  using controllerFT_pos [of "ctHcCfg c0"] by (auto simp: mon_inv_def before_failover_def)

lemma failing_snapshot:
  assumes "failing r0 bu n ck"
  obtains ch where "Checker_Health (ckClusters ck) bu = Some ch" "snHealthy (chPrimary ch) \<longleftrightarrow> \<not> down bu ck" "snHealthy (chSecondary ch)"
proof -
  obtain r where r: "ckClusters ck bu = Some r" "hsHealthy (crSecondary r)" using assms by (auto simp: failing_def)
  show thesis
    by (rule that [of "\<lparr>chName = bu, chPrimary = HealthState_Snapshot (crPrimary r), chSecondary = HealthState_Snapshot (crSecondary r)\<rparr>"])
       (use r in \<open>simp_all add: Checker_Health_def down_def HealthState_Snapshot_def\<close>)
qed

lemma mon_tick:
  assumes "Manager_loop (LoopTick now bus) s = Some s'" and "mon_inv r0 c0 bu n k s" and "may_fail_over now c0"
  shows "mon_inv r0 c0 bu n (if down bu (moChecker s) then k + 1 else 0) s' \<and> moChecker s' = moChecker s"
proof -
  let ?m = "moManager s" and ?hm = "Checker_Health (ckClusters (moChecker s))"
  have s': "s' = s\<lparr>moManager := sync now ?hm bus ?m\<rparr>" and bus: "distinct bus" "set bus = dom (mgControllers ?m)"
    using assms(1) by (auto simp: Manager_loop_def split: if_splits)
  have inv: "failing r0 bu n (moChecker s)" "mgr_inv ?m" "named ?m" "mgHasChecker ?m"
      and ph: "before_failover c0 bu k (bu_view bu ?m) \<or> after_failover bu (bu_view bu ?m) \<and> down bu (moChecker s)"
      and k: "\<not> down bu (moChecker s) \<longrightarrow> k = 0" "0 \<le> k"
    using assms(2) by (simp_all add: mon_inv_def)
  have "bu \<in> set bus" using ph bus(2) by (auto simp: before_failover_def after_failover_def bu_view_def)
  from sync_view [OF inv(3,4) bus(1) this inv(2), of now ?hm] obtain m0 where m0: "bu_view bu m0 = bu_view bu ?m" "mgr_inv m0"
    "bu_view bu (sync now ?hm bus ?m) = bu_view bu (syncOne now ?hm bu m0)" "named (sync now ?hm bus ?m)" "mgHasChecker (sync now ?hm bus ?m)"
    by metis
  obtain ch where ch: "?hm bu = Some ch" "snHealthy (chPrimary ch) \<longleftrightarrow> \<not> down bu (moChecker s)" "snHealthy (chSecondary ch)"
    by (rule failing_snapshot [OF inv(1)])
  have ph0: "before_failover c0 bu k (bu_view bu m0) \<or> after_failover bu (bu_view bu m0) \<and> down bu (moChecker s)" using ph m0(1) by simp
  have "mgr_inv (sync now ?hm bus ?m)" using dr_step_inv [OF dr_step.sync inv(2)] .
  moreover have "if down bu (moChecker s) then before_failover c0 bu (k + 1) (bu_view bu (syncOne now ?hm bu m0)) \<or> after_failover bu (bu_view bu (syncOne now ?hm bu m0))
      else before_failover c0 bu 0 (bu_view bu (syncOne now ?hm bu m0))"
    using ph0 tick_before_up [where hm = ?hm, OF _ ch(1) _ ch(3), of c0 k m0 now]
      tick_before_down [where hm = ?hm, OF _ ch(1) _ ch(3) assms(3) m0(2), of k] tick_after [where hm = ?hm, OF _ ch(1) _ ch(3) m0(2), of now] ch(2) by auto
  ultimately show ?thesis using inv m0 k by (auto simp: mon_inv_def s')
qed

lemma mon_step_keeps:
  assumes "mon_step ev s = Some s'" and "mon_inv r0 c0 bu n k s" and "dead_primary r0 bu ev" and "in_time c0 ev"
  shows "mon_inv r0 c0 bu (n + (if is_round bu ev then 1 else 0)) (if down bu (moChecker s) \<and> is_tick ev then k + 1 else k) s'
    \<and> (down bu (moChecker s) \<longrightarrow> down bu (moChecker s'))"
proof (cases ev)
  case (MoCluster b e)
  obtain ck' where ck': "runCluster b e (moChecker s) = Some ck'" "s' = s\<lparr>moChecker := ck'\<rparr>"
    using assms(1) MoCluster by (auto simp: mon_step_def)
  show ?thesis using runCluster_failing [OF ck'(1), of r0 bu n] assms(2,3) MoCluster by (auto simp: mon_inv_def ck'(2) is_tick_def)
next
  case (MoLoop e)
  show ?thesis
  proof (cases e)
    case (LoopTick now bus)
    then show ?thesis using mon_tick [of now bus s s' r0 c0 bu n k] assms(1,2,4) MoLoop
      by (auto simp: mon_step_def in_time_def is_round_def is_tick_def mon_inv_def)
  next
    case LoopStop
    then show ?thesis using assms(1,2) MoLoop
      by (auto simp: mon_step_def Manager_loop_def is_round_def is_tick_def mon_inv_def split: if_splits)
  qed
next
  case (MoTimer now i)
  then obtain tf where tf: "dmTimers (mgDM (moManager s)) i = Some tf" "s' = s\<lparr>moManager := timerFires now i (moManager s)\<rparr>"
    using assms(1) by (auto simp: mon_step_def Let_def split: option.splits if_splits)
  have inv: "mgr_inv (moManager s)" using assms(2) by (simp add: mon_inv_def)
  show ?thesis using timer_keeps [OF inv tf(1)] mon_step_inv [OF assms(1) inv] assms(2) MoTimer
    by (auto simp: mon_inv_def tf(2) is_round_def is_tick_def)
next
  case (MoRegister b conn)
  then show ?thesis using assms(1,2) mon_step_inv [OF assms(1)]
    by (auto simp: mon_step_def mon_inv_def is_round_def is_tick_def bu_view_def named_def Register_def Let_def)
next
  case (MoUnregister b i)
  have "drains (Unregister b i dm) = drains dm" for dm :: "dm_callback DrainManager" by (simp add: Unregister_def split: option.splits)
  then show ?thesis using assms(1,2) mon_step_inv [OF assms(1)] MoUnregister
    by (auto simp: mon_step_def mon_inv_def is_round_def is_tick_def bu_view_def named_def Let_def)
qed (use assms(1,2) in \<open>auto simp: mon_step_def mon_inv_def is_round_def is_tick_def Checker_Stop_def Manager_Stop_def failing_def down_def Let_def\<close>)

lemma mon_run_detects:
  assumes "mon_run evs s = Some s'" and "mon_inv r0 c0 bu n 0 s" and "\<forall>ev\<in>set evs. dead_primary r0 bu ev \<and> in_time c0 ev"
  shows "mon_inv r0 c0 bu (n + rounds bu evs) 0 s'"
  using assms
proof (induction evs arbitrary: s n)
  case (Cons ev evs)
  then obtain q where q: "mon_step ev s = Some q" "mon_run evs q = Some s'" by (auto split: bind_splits)
  have "mon_inv r0 c0 bu (n + (if is_round bu ev then 1 else 0)) 0 q"
    using mon_step_keeps [OF q(1) Cons.prems(2)] Cons.prems(3) mon_inv_weaken by fastforce
  from Cons.IH [OF q(2) this] Cons.prems(3) show ?case by (cases "is_round bu ev") (simp_all add: rounds_def add.assoc)
qed (simp add: rounds_def)

lemma mon_run_reacts:
  assumes "mon_run evs s = Some s'" and "mon_inv r0 c0 bu n k s" and "down bu (moChecker s)"
    and "\<forall>ev\<in>set evs. dead_primary r0 bu ev \<and> in_time c0 ev"
  shows "\<exists>n'. mon_inv r0 c0 bu n' (k + ticks evs) s'"
  using assms
proof (induction evs arbitrary: s n k)
  case (Cons ev evs)
  then obtain q where q: "mon_step ev s = Some q" "mon_run evs q = Some s'" by (auto split: bind_splits)
  have "mon_inv r0 c0 bu (n + (if is_round bu ev then 1 else 0)) (k + (if is_tick ev then 1 else 0)) q" "down bu (moChecker q)"
    using mon_step_keeps [OF q(1) Cons.prems(2)] Cons.prems(3,4) by (auto split: if_splits)
  from Cons.IH [OF q(2) this] Cons.prems(4) show ?case by (cases "is_tick ev") (simp_all add: ticks_def add.assoc)
qed (auto simp: ticks_def)

section \<open>Properties\<close>

text \<open>
  C2. Automatic failover, from the probes to the routing of new connections. Take a running system in
  which a BU is on its primary, its checker and its controller consider both clusters up, and its
  breaker is closed. If from then on every probe of the primary fails and every one of the secondary
  succeeds, then after \<open>failure_threshold\<close> rounds of probes and, after them, the controller's threshold of
  syncs, all at times at which the cooldown and the window allow a failover, new connections of the BU go to
  the secondary: the BU is in DRAINING or SECUNDARIO. This holds for every interleaving, also within a round, with other clusters'
  probes, drain timers, and clients that come and go, and for every order in which the syncs visit the controllers.
\<close>
theorem failover_end_to_end:
  assumes "dr_reach cfg (moManager s)" and "mgHasChecker (moManager s)" and "named (moManager s)"
    and "mgControllers (moManager s) bu = Some c" and "entries (mgSM (moManager s)) bu = Some StatePrimary"
    and "ctMode c = ModeActivePassive" and "\<not> IsCircuitBroken c" and "PrimaryHealthy c" and "SecondaryHealthy c"
    and "0 \<le> khConsecutiveFailures (ctPrimaryHealth c)"
    and "ckClusters (moChecker s) bu = Some r" and "crPrimaryAddr r \<noteq> ''''"
    and "hsConsecutiveFailures (crPrimary r) = 0" and "0 < crFailureThreshold r" and "IsHealthy (crSecondary r)"
    and "mon_run (evs1 @ evs2) s = Some s'"
    and "\<forall>ev\<in>set (evs1 @ evs2). dead_primary r bu ev \<and> in_time c ev"
    and "crFailureThreshold r \<le> rounds bu evs1" and "controllerFT (ctHcCfg c) \<le> ticks evs2"
  shows "TargetForRouting (mgSM (moManager s')) (mgDM (moManager s')) look bu = (ActiveSecondary, True)
    \<and> SM_State (mgSM (moManager s')) bu \<in> {StateDraining, StateSecondary}"
proof -
  have "ctBuName c = bu" using assms(3,4) by (simp add: named_def)
  then have "before_failover c bu 0 (bu_view bu (moManager s))"
    using assms(4-10) controllerFT_pos [of "ctHcCfg c"]
    by (simp add: before_failover_def bu_view_def IsCircuitBroken_def PrimaryHealthy_def SecondaryHealthy_def)
  moreover have "failing r bu 0 (moChecker s)" using assms(11-15) by (simp add: failing_def IsHealthy_def)
  ultimately have start: "mon_inv r c bu 0 0 s" using assms(2,3) dr_reach_inv [OF assms(1)] by (simp add: mon_inv_def)
  obtain q where q: "mon_run evs1 s = Some q" "mon_run evs2 q = Some s'"
    using assms(16) by (auto simp: mon_run_append split: bind_splits)
  have inv: "mon_inv r c bu (0 + rounds bu evs1) 0 q" using mon_run_detects [OF q(1) start] assms(17) by simp
  then have "down bu (moChecker q)" using failing_down [of r bu _ "moChecker q"] assms(18) by (auto simp: mon_inv_def)
  from mon_run_reacts [OF q(2) inv this] assms(17) obtain n where "mon_inv r c bu n (0 + ticks evs2) s'" by auto
  then have "after_failover bu (bu_view bu (moManager s'))" using assms(19) by (auto simp: mon_inv_def before_failover_def)
  then show ?thesis using after_failover_routes [of bu "moManager s'" look]
    by (auto simp: after_failover_def bu_view_def SM_State_def)
qed


text \<open>
  A system with one monitored BU, two syncs after its start, both seeing healthy clusters; then three rounds in which the primary
  refuses the connection, each with a sync between its two probes, and three more syncs.
\<close>

definition up_conn :: conn where
  "up_conn = \<lparr>cin = [0, 0, 0, 4, 0, 0, 0, 0], cout = [], cwok = 100\<rparr>"

definition warm_manager :: Manager where
  "warm_manager = sync (1001 * second) healthy_map [''finance''] (sync (1000 * second) healthy_map [''finance''] (startup sample_config))"

definition warm_monitor :: Monitor where
  "warm_monitor = \<lparr>moChecker = Checker_Start (Checker_New 1 (Clusters sample_config)), moManager = warm_manager,
     moLoop = True, moStop = False, moDone = False\<rparr>"

definition one_tick :: mon_event where
  "one_tick = MoLoop (LoopTick (2000 * second) [''finance''])"

definition dead_round :: "mon_event list" where
  "dead_round = [MoCluster ''finance'' (ClusterPrimary 5 (Inl (Errorf ''refused'')) 1 []), one_tick,
     MoCluster ''finance'' (ClusterSecondary 6 (Inr up_conn) 1 [])]"

lemma syncOne_dom: "dom (mgControllers (syncOne now hm bu m)) = dom (mgControllers m)"
  by (auto simp: syncOne_def Let_def split: option.splits prod.splits)

lemma sync_dom: "dom (mgControllers (sync now hm bus m)) = dom (mgControllers m)"
proof -
  have "dom (mgControllers (fold (syncOne now hm) bus m)) = dom (mgControllers m)"
    by (induction bus arbitrary: m) (simp_all add: syncOne_dom)
  then show ?thesis by (simp add: sync_def)
qed

definition runnable_in :: "ck_phase \<Rightarrow> Monitor \<Rightarrow> bool" where
  "runnable_in phase s \<longleftrightarrow> moLoop s \<and> dom (mgControllers (moManager s)) = {''finance''}
     \<and> ckLive (moChecker s) ''finance'' = Some phase \<and> ckClusters (moChecker s) ''finance'' \<noteq> None"

lemma runnable_tick: "runnable_in phase s \<Longrightarrow> \<exists>q. mon_step one_tick s = Some q \<and> runnable_in phase q"
  by (simp add: runnable_in_def one_tick_def mon_step_def Manager_loop_def sync_dom)

lemma runnable_primary:
  assumes "runnable_in phase s" and "phase \<noteq> CkBetween"
  shows "\<exists>q. mon_step (MoCluster ''finance'' (ClusterPrimary now d l p)) s = Some q \<and> runnable_in CkBetween q"
proof -
  obtain r where "ckClusters (moChecker s) ''finance'' = Some r" using assms(1) by (auto simp: runnable_in_def)
  then show ?thesis using assms by (simp add: runnable_in_def mon_step_def runCluster_def)
qed

lemma runnable_secondary:
  assumes "runnable_in CkBetween s"
  shows "\<exists>q. mon_step (MoCluster ''finance'' (ClusterSecondary now d l p)) s = Some q \<and> runnable_in CkSelect q"
proof -
  obtain r where "ckClusters (moChecker s) ''finance'' = Some r" using assms(1) by (auto simp: runnable_in_def)
  then show ?thesis using assms by (simp add: runnable_in_def mon_step_def runCluster_def)
qed

definition runnable :: "Monitor \<Rightarrow> bool" where
  "runnable s \<longleftrightarrow> runnable_in CkFirst s \<or> runnable_in CkSelect s"

lemma runnable_round: "runnable s \<Longrightarrow> \<exists>q. mon_run dead_round s = Some q \<and> runnable q"
proof -
  assume "runnable s"
  then obtain phase where "runnable_in phase s" "phase \<noteq> CkBetween" by (auto simp: runnable_def)
  from runnable_primary [OF this] obtain q1
    where q1: "mon_step (MoCluster ''finance'' (ClusterPrimary 5 (Inl (Errorf ''refused'')) 1 [])) s = Some q1" "runnable_in CkBetween q1" by blast
  from runnable_tick [OF q1(2)] obtain q2 where q2: "mon_step one_tick q1 = Some q2" "runnable_in CkBetween q2" by blast
  from runnable_secondary [OF q2(2)] obtain q3
    where q3: "mon_step (MoCluster ''finance'' (ClusterSecondary 6 (Inr up_conn) 1 [])) q2 = Some q3" "runnable_in CkSelect q3" by blast
  show ?thesis using q1(1) q2(1) q3 by (simp add: dead_round_def runnable_def)
qed

lemma runnable_step: "runnable s \<Longrightarrow> evs = dead_round \<or> evs = [one_tick] \<Longrightarrow> \<exists>q. mon_run evs s = Some q \<and> runnable q"
  using runnable_round [of s] runnable_tick [of CkFirst s] runnable_tick [of CkSelect s] by (auto simp: runnable_def)

lemma runnable_runs: "runnable s \<Longrightarrow> set evss \<subseteq> {dead_round, [one_tick]} \<Longrightarrow> \<exists>s'. mon_run (concat evss) s = Some s'"
proof (induction evss arbitrary: s)
  case (Cons evs evss)
  then obtain q where "mon_run evs s = Some q" "runnable q" using runnable_step [of s evs] by auto
  then show ?case using Cons.IH [of q] Cons.prems(2) by (simp add: mon_run_append)
qed simp

lemma warm_named: "named (sync now hm bus m)" if "named m"
proof -
  have "named (fold (syncOne now hm) bus m)" using that by (induction bus arbitrary: m) (simp_all add: syncOne_other(2))
  then show ?thesis using that by (simp add: sync_def)
qed

lemma start_controllers: "mgControllers (startup sample_config) = [''finance'' \<mapsto> NewController ''finance'' ''primary'' ''active_passive'' sample_hc]"
  by (simp add: startup_def Wire_def Let_def NewManager_def Reconfigure_def sample_config_def
      sample_finance_def sample_logistics_def mode_defs) (simp add: sample_hc_def)

lemma warm_dom: "dom (mgControllers warm_manager) = {''finance''}"
  by (simp add: warm_manager_def sync_dom start_controllers)

lemma warm_runnable: "runnable warm_monitor"
  using warm_dom
  by (simp add: runnable_def runnable_in_def warm_monitor_def Checker_Start_def Checker_New_def NewChecker_def sample_config_def sample_finance_def sample_hc_def)

lemma warm_manager_named: "named warm_manager"
  unfolding warm_manager_def by (intro warm_named) (simp add: named_def start_controllers NewController_def)

definition warm_controller :: Controller where
  "warm_controller = the (mgControllers warm_manager ''finance'')"

lemma warm_state:
  "entries (mgSM warm_manager) ''finance'' = Some StatePrimary" "mgHasChecker warm_manager"
  "ctMode warm_controller = ModeActivePassive" "\<not> IsCircuitBroken warm_controller" "PrimaryHealthy warm_controller"
  "SecondaryHealthy warm_controller" "khConsecutiveFailures (ctPrimaryHealth warm_controller) = 0"
  "controllerFT (ctHcCfg warm_controller) = 3" "may_fail_over (2000 * second) warm_controller"
  by (code_simp, code_simp, code_simp, code_simp, code_simp, code_simp, code_simp, code_simp, code_simp)

lemma warm_controller: "mgControllers warm_manager ''finance'' = Some warm_controller"
proof -
  have "''finance'' \<in> dom (mgControllers warm_manager)" unfolding warm_dom by simp
  then show ?thesis by (auto simp: warm_controller_def)
qed

lemma warm_reach: "dr_reach sample_config warm_manager"
  unfolding warm_manager_def by (rule dr_reach.step [OF dr_reach.step [OF dr_reach.start dr_step.sync] dr_step.sync])

theorem failover_end_to_end_witness:
  "\<exists>s'. mon_run ((dead_round @ dead_round @ dead_round) @ [one_tick, one_tick, one_tick]) warm_monitor = Some s'
    \<and> TargetForRouting (mgSM (moManager s')) (mgDM (moManager s')) None ''finance'' = (ActiveSecondary, True)"
proof -
  let ?e1 = "dead_round @ dead_round @ dead_round" and ?e2 = "[one_tick, one_tick, one_tick]"
  let ?r = "newRunner 1 ''finance'' sample_finance"
  obtain s' where s': "mon_run (?e1 @ ?e2) warm_monitor = Some s'"
    using runnable_runs [OF warm_runnable, of "[dead_round, dead_round, dead_round, [one_tick], [one_tick], [one_tick]]"] by auto
  have r: "ckClusters (moChecker warm_monitor) ''finance'' = Some ?r"
    by (simp add: warm_monitor_def Checker_Start_def Checker_New_def NewChecker_def sample_config_def sample_finance_def sample_logistics_def sample_hc_def)
  have d: "probeResult ?r (plainProbe (Inl (Errorf ''refused'')) 1 []) \<noteq> None" "probeResult ?r (plainProbe (Inr up_conn) 1 []) = None"
    by (code_simp, code_simp)
  have ok: "\<forall>ev\<in>set (?e1 @ ?e2). dead_primary ?r ''finance'' ev \<and> in_time warm_controller ev"
    using d warm_state(9) by (simp add: dead_round_def one_tick_def dead_primary_def in_time_def)
  have n: "crFailureThreshold ?r \<le> rounds ''finance'' ?e1" "controllerFT (ctHcCfg warm_controller) \<le> ticks ?e2"
    using warm_state(8) by (simp_all add: newRunner_def sample_finance_def sample_hc_def rounds_def ticks_def is_round_def is_tick_def dead_round_def one_tick_def)
  have m: "moManager warm_monitor = warm_manager" by (simp add: warm_monitor_def)
  have h: "crPrimaryAddr ?r \<noteq> ''''" "hsConsecutiveFailures (crPrimary ?r) = 0" "0 < crFailureThreshold ?r" "IsHealthy (crSecondary ?r)"
    by (simp_all add: newRunner_def sample_finance_def sample_hc_def NewHealthState_def IsHealthy_def)
  have f: "0 \<le> khConsecutiveFailures (ctPrimaryHealth warm_controller)" using warm_state(7) by simp
  show ?thesis
    using failover_end_to_end [where s = warm_monitor and look = None, unfolded m, OF warm_reach warm_state(2) warm_manager_named warm_controller warm_state(1,3-6)
        f r h s' ok n] s' by blast
qed

end
