(* ===== verification/Startup.thy ===== *)
theory Startup
  imports Monitoring Observability Connection
begin

text \<open>
  The start of the process, \<^verbatim>\<open>cmd/proxy/main.go\<close>: \<open>main\<close> up to the point where it waits in the listener, with
  the parts it creates, starts and connects, and its two failing exits. What happens outside is an
  argument: the file and its decoding, the directory watch, which ports can be opened, the clock. The
  observability server's \<open>Start\<close> is here as well: it ends with an error only when it could not serve.
\<close>

section \<open>The observability server\<close>

text \<open>
  \<open>cancelled\<close>: the context was done, and \<open>Shutdown\<close> called, before the server listened; \<open>listenErr\<close> and
  \<open>serveErr\<close> are the outcomes of opening the port and of the accept loop, which a shutdown ends with
  \<^verbatim>\<open>ErrServerClosed\<close> (here \<open>None\<close>).
\<close>

definition Server_Start :: "bool \<Rightarrow> error option \<Rightarrow> error option \<Rightarrow> error option" where
  "Server_Start cancelled listenErr serveErr =
     (let listenAndServe = (if cancelled then None else if listenErr \<noteq> None then listenErr else serveErr)
      in map_option (Wrap ''observability server failed'') listenAndServe)"

section \<open>The start sequence\<close>

datatype reload_callback = MainOnReload

record Running =
  ruReloader :: "reload_callback Reloader"
  ruMonitor :: Monitor
  ruServer :: Server
  ruListener :: Listener

datatype main_outcome = MainExit int | MainServes Running | MainStuck

definition metricsPort :: "Config \<Rightarrow> int" where
  "metricsPort cfg = (if MetricsPort (Proxy cfg) \<le> 0 then 8080 else MetricsPort (Proxy cfg))"

text \<open>The checker, the state machine with its coordinator, and the manager with its loop.\<close>

definition startMonitor :: "Time \<Rightarrow> Config \<Rightarrow> Monitor" where
  "startMonitor now cfg =
     Manager_Start \<lparr>moChecker = Checker_Start (Checker_New now (Clusters cfg)), moManager = startup cfg,
       moLoop = False, moStop = False, moDone = False\<rparr>"

definition startServer :: "Time \<Rightarrow> Config \<Rightarrow> Monitor \<Rightarrow> Server" where
  "startServer now cfg mon =
     (let healthAdapter = NewHealthCheckerAdapter (Some (Checker_Health (ckClusters (moChecker mon))));
          m = moManager mon
      in SetFailoverStateProvider (EffectiveActive m)
           (Server_New now (metricsPort cfg) (Some (Adapter_Health healthAdapter)) (Some (mgDM m)) (Some cfg) (mgMetrics m)))"

definition proxyMain :: "(string \<Rightarrow> error + byte list) \<Rightarrow> (byte list \<Rightarrow> error + Config) \<Rightarrow> (string \<Rightarrow> error option) \<Rightarrow>
    (string \<Rightarrow> bool) \<Rightarrow> Time \<Rightarrow> string \<Rightarrow> main_outcome" where
  "proxyMain readFile unmarshal watchDir opens now configPath =
     (case NewReloader readFile unmarshal watchDir configPath of
        Inl _ \<Rightarrow> MainExit 1
      | Inr reloader \<Rightarrow>
          let cfg = rlConfig reloader;
              mon = startMonitor now cfg;
              reloader = OnReload reloader MainOnReload;
              obsSrv = startServer now cfg mon;
              listener = NewListener cfg
          in case SetHealthChecker cfg True listener of
               Done listener \<Rightarrow>
                 (case ls_Start opens cfg listener of
                    Inl _ \<Rightarrow> MainExit 1
                  | Inr listener \<Rightarrow>
                      MainServes \<lparr>ruReloader = reloader, ruMonitor = mon,
                        ruServer = SetWeightProvider (\<lambda>name. ls_EffectiveWeights cfg name listener) obsSrv, ruListener = listener\<rparr>)
             | _ \<Rightarrow> MainStuck)"

section \<open>What the parts start with\<close>

lemma initStates_Cons:
  "initStates ((m, c) # cs) sm = initStates cs (if Mode c \<noteq> ModeActivePassive then sm else snd (Initialize sm m (initialState c)))"
  by (simp add: initStates_def)

lemma initStates_other: "n \<notin> fst ` set cs \<Longrightarrow> entries (initStates cs sm) n = entries sm n"
proof (induction cs arbitrary: sm)
  case (Cons x cs)
  then show ?case by (cases x) (simp add: initStates_Cons Initialize_def)
qed (simp add: initStates_def)

lemma initStates_entry:
  assumes "distinct (map fst cs)" and "(n, cl) \<in> set cs" and "Mode cl = ModeActivePassive" and "entries sm n = None"
  shows "entries (initStates cs sm) n = Some (initialState cl)"
  using assms
proof (induction cs arbitrary: sm)
  case (Cons x cs)
  obtain m c where x: "x = (m, c)" by (cases x)
  show ?case
  proof (cases "n = m")
    case True
    then have "n \<notin> fst ` set cs" "cl = c" using Cons.prems(1,2) by (force simp: x)+
    then show ?thesis using Cons.prems(3,4) True by (simp add: x initStates_Cons initStates_other Initialize_def)
  next
    case False
    then have "entries (if Mode c \<noteq> ModeActivePassive then sm else snd (Initialize sm m (initialState c))) n = None"
      using Cons.prems(4) by (simp add: Initialize_def)
    then show ?thesis using Cons.IH Cons.prems(1-3) False unfolding x initStates_Cons by simp
  qed
qed simp

lemma fold_map_upd_if:
  assumes "distinct (map fst cs)"
  shows "fold (\<lambda>(n, c) m. if P c then m(n \<mapsto> f n c) else m) cs m0 k =
    (case map_of cs k of Some c \<Rightarrow> if P c then Some (f k c) else m0 k | None \<Rightarrow> m0 k)"
  using assms
proof (induction cs arbitrary: m0)
  case (Cons x cs)
  obtain n c where x: "x = (n, c)" by (cases x)
  have "n \<notin> fst ` set cs" using Cons.prems by (simp add: x)
  then have "map_of cs n = None" by (simp add: map_of_eq_None_iff)
  then show ?case using Cons by (auto simp: x split: option.splits)
qed simp

lemma startup_controllers:
  assumes "distinct (map fst (Clusters cfg))"
  shows "mgControllers (startup cfg) n = (case map_of (Clusters cfg) n of
     Some c \<Rightarrow> if Mode c = ModeActivePassive \<and> AutoFailover (HealthCheck c) then Some (NewController n (Active c) (Mode c) (HealthCheck c)) else None
   | None \<Rightarrow> None)"
proof -
  let ?P = "\<lambda>c. Mode c = ModeActivePassive \<and> AutoFailover (HealthCheck c)"
  have "mgControllers (startup cfg) = fold (\<lambda>(n, c) m. if ?P c then m(n \<mapsto> NewController n (Active c) (Mode c) (HealthCheck c)) else m) (Clusters cfg) Map.empty"
  proof -
    have "(\<lambda>(name, c :: ClusterConfig) cs. if Mode c \<noteq> ModeActivePassive \<or> \<not> AutoFailover (HealthCheck c) then cs
         else cs(name \<mapsto> NewController name (Active c) (Mode c) (HealthCheck c)))
       = (\<lambda>(n, c) m. if ?P c then m(n \<mapsto> NewController n (Active c) (Mode c) (HealthCheck c)) else m)"
      by (auto simp: fun_eq_iff)
    then show ?thesis by (simp only: startup_def Wire_def NewManager_def Reconfigure_def Let_def prod.case Manager.simps)
  qed
  then show ?thesis using fold_map_upd_if [OF assms, of ?P "\<lambda>n c. NewController n (Active c) (Mode c) (HealthCheck c)" Map.empty n]
    by (simp add: fun_eq_iff split: option.splits)
qed

lemma NewChecker_exact:
  assumes "distinct (map fst cs)"
  shows "NewChecker now cs n = (case map_of cs n of Some c \<Rightarrow> if Enabled (HealthCheck c) then Some (newRunner now n c) else None | None \<Rightarrow> None)"
  using fold_map_upd_if [OF assms, of "\<lambda>c. Enabled (HealthCheck c)" "newRunner now" Map.empty n]
  by (simp add: NewChecker_def split: option.splits)


lemma startup_target:
  assumes "distinct (map fst (Clusters cfg))" and "(n, cl) \<in> set (Clusters cfg)" and "Mode cl = ModeActivePassive"
    and "Active cl \<in> {ActivePrimary, ActiveSecondary}"
  shows "TargetForRouting (mgSM (startup cfg)) (mgDM (startup cfg)) look n = (Active cl, True)"
proof -
  have "entries (initStates (Clusters cfg) (NewStateMachine :: sm_callback StateMachine)) n = Some (initialState cl)"
    using initStates_entry [OF assms(1-3), of "NewStateMachine :: sm_callback StateMachine"] by (simp add: NewStateMachine_def)
  then have "SM_State (mgSM (startup cfg)) n = initialState cl"
    by (simp add: startup_def Wire_def NewManager_def Reconfigure_def Let_def SM_State_def OnStateChange_def)
  then show ?thesis using assms(4) by (auto simp: TargetForRouting_def initialState_def)
qed

lemma NewListener_fresh: "lsRebalancer (NewListener cfg) = None" "lsPortMap (NewListener cfg) = BuildPortMap cfg"
    "ActiveClusters (lsRefreshers (NewListener cfg)) = set (allConfigBootstraps cfg)"
  using rf_reach_start_fold [OF rf_init, of "\<lambda>_. True" "allConfigBootstraps cfg"]
  by (simp_all add: NewListener_def initRouting_def Let_def no_refreshers_def ActiveClusters_def)

lemma start_listener:
  obtains l where "SetHealthChecker cfg True (NewListener cfg) = Done l" "lsPortMap l = BuildPortMap cfg"
    "lsRefreshers l = lsRefreshers (NewListener cfg)"
    "lsRebalancer l = (if hasAutoRebalance cfg then Some (New_AutoRebalancer cfg) else None)"
  using NewListener_fresh [of cfg] by (cases "hasAutoRebalance cfg") (auto simp: SetHealthChecker_def Let_def)

lemma NewReloader_wf: "NewReloader rf um wd path = Inr r \<Longrightarrow> config_wf (rlConfig r)"
  using LoadConfig_config_wf [of rf um path] by (auto simp: NewReloader_def split: sum.splits option.splits)

section \<open>Properties\<close>

text \<open>
  C15. What a started proxy has. When the configuration loads, its file can be watched and every port
  opens, \<open>main\<close> ends up serving: every cluster's port is open and the port map sends each port to the
  cluster configured with it; every active/passive cluster is routed to its configured active endpoint, and has
  a failover controller exactly if it asks for automatic failover; the health of exactly the clusters
  with health checks is probed, by a goroutine each; the metadata of exactly the configured bootstraps is
  refreshed; a rebalancing loop runs exactly if some cluster asks for it; and the failover system is in its
  initial state. When one port does not open, or the configuration does not load, the process exits with 1.
\<close>
theorem startup_serves:
  fixes rl :: "reload_callback Reloader"
  assumes "NewReloader rf um wd path = Inr rl" and "distinct (map fst (Clusters (rlConfig rl)))"
  defines "cfg \<equiv> rlConfig rl"
  shows "((\<forall>(n, cl)\<in>set (Clusters cfg). opens n) \<longrightarrow> (\<exists>s. proxyMain rf um wd opens now path = MainServes s
      \<and> lsOpen (ruListener s) = fst ` set (Clusters cfg)
      \<and> (\<forall>p n. lsPortMap (ruListener s) p = Some n \<longleftrightarrow> (\<exists>cl. (n, cl) \<in> set (Clusters cfg) \<and> Port cl = p))
      \<and> (\<forall>(n, cl)\<in>set (Clusters cfg). let m = moManager (ruMonitor s) in
          (Mode cl = ModeActivePassive \<longrightarrow> TargetForRouting (mgSM m) (mgDM m) (Some (mgControllers m)) n = (Active cl, True))
        \<and> (mgControllers m n \<noteq> None \<longleftrightarrow> Mode cl = ModeActivePassive \<and> AutoFailover (HealthCheck cl))
        \<and> (n \<in> dom (ckLive (moChecker (ruMonitor s))) \<longleftrightarrow> Enabled (HealthCheck cl)))
      \<and> ActiveClusters (lsRefreshers (ruListener s)) = set (allConfigBootstraps cfg)
      \<and> map_option arLoops (lsRebalancer (ruListener s)) = (if hasAutoRebalance cfg then Some 1 else None)
      \<and> moLoop (ruMonitor s) \<and> mgHasChecker (moManager (ruMonitor s)) \<and> named (moManager (ruMonitor s))
      \<and> dr_reach cfg (moManager (ruMonitor s))))
    \<and> ((\<exists>(n, cl)\<in>set (Clusters cfg). \<not> opens n) \<longrightarrow> proxyMain rf um wd opens now path = MainExit 1)
    \<and> (\<forall>e rf' path'. NewReloader rf' um wd path' = (Inl e :: error + reload_callback Reloader) \<longrightarrow> proxyMain rf' um wd opens now path' = MainExit 1)"
proof -
  have d: "distinct (map fst (Clusters cfg))" using assms(2) by (simp add: cfg_def)
  have wf: "config_wf cfg" using NewReloader_wf [OF assms(1)] by (simp add: cfg_def)
  obtain l where l: "SetHealthChecker cfg True (NewListener cfg) = Done l" "lsPortMap l = BuildPortMap cfg"
      "lsRefreshers l = lsRefreshers (NewListener cfg)" "lsRebalancer l = (if hasAutoRebalance cfg then Some (New_AutoRebalancer cfg) else None)"
    by (rule start_listener)
  have main: "proxyMain rf um wd opens now path = (case ls_Start opens cfg l of Inl _ \<Rightarrow> MainExit 1
      | Inr l \<Rightarrow> MainServes \<lparr>ruReloader = OnReload rl MainOnReload, ruMonitor = startMonitor now cfg,
          ruServer = SetWeightProvider (\<lambda>name. ls_EffectiveWeights cfg name l) (startServer now cfg (startMonitor now cfg)), ruListener = l\<rparr>)"
    using assms(1) l(1) unfolding cfg_def by (simp add: proxyMain_def Let_def)
  have mon: "moManager (startMonitor now cfg) = startup cfg" "moLoop (startMonitor now cfg)"
    "dom (ckLive (moChecker (startMonitor now cfg))) = dom (NewChecker now (Clusters cfg))"
    by (auto simp: startMonitor_def Manager_Start_def SetChecker_def startup_def Wire_def Checker_Start_def Checker_New_def Let_def split: if_splits)
  have ports: "BuildPortMap cfg p = Some n \<longleftrightarrow> (\<exists>cl. (n, cl) \<in> set (Clusters cfg) \<and> Port cl = p)" for p n
    using wf unfolding BuildPortMap_def config_wf_def by (simp add: fold_port_map)
  have per: "(Mode cl = ModeActivePassive \<longrightarrow> TargetForRouting (mgSM (startup cfg)) (mgDM (startup cfg)) look n = (Active cl, True))
      \<and> (mgControllers (startup cfg) n \<noteq> None \<longleftrightarrow> Mode cl = ModeActivePassive \<and> AutoFailover (HealthCheck cl))
      \<and> (n \<in> dom (NewChecker now (Clusters cfg)) \<longleftrightarrow> Enabled (HealthCheck cl))" if "(n, cl) \<in> set (Clusters cfg)" for n cl look
  proof -
    have m: "map_of (Clusters cfg) n = Some cl" using d that by simp
    have "Mode cl = ModeActivePassive \<Longrightarrow> Active cl \<in> {ActivePrimary, ActiveSecondary}"
      using wf that by (auto simp: config_wf_def cluster_wf_def list_all_iff)
    then show ?thesis using startup_target [OF d that] m
      by (simp add: startup_controllers [OF d] NewChecker_exact [OF d] dom_def)
  qed
  have all: "\<forall>(n, cl)\<in>set (Clusters cfg).
      (Mode cl = ModeActivePassive \<longrightarrow> TargetForRouting (mgSM (startup cfg)) (mgDM (startup cfg)) (Some (mgControllers (startup cfg))) n = (Active cl, True))
      \<and> (mgControllers (startup cfg) n \<noteq> None \<longleftrightarrow> Mode cl = ModeActivePassive \<and> AutoFailover (HealthCheck cl))
      \<and> (n \<in> dom (NewChecker now (Clusters cfg)) \<longleftrightarrow> Enabled (HealthCheck cl))"
    using per by blast
  have nm: "named (startup cfg)"
    by (auto simp: named_def startup_controllers [OF d] NewController_def split: option.splits if_splits)
  have hc: "mgHasChecker (startup cfg)" by (simp add: startup_def Wire_def Let_def)
  have start: "ls_Start opens cfg l = Inr (l\<lparr>lsListening := (Clusters cfg \<noteq> []), lsOpen := fst ` set (Clusters cfg),
      lsRebalancer := map_option ar_Start (lsRebalancer l)\<rparr>)" if "\<forall>(n, cl)\<in>set (Clusters cfg). opens n"
    using that by (auto simp: ls_Start_def list_all_iff)
  have stop: "ls_Start opens cfg l = Inl (Errorf ''failed to listen'')" if "\<exists>(n, cl)\<in>set (Clusters cfg). \<not> opens n"
    using that by (auto simp: ls_Start_def list_all_iff)
  have loops: "map_option (arLoops \<circ> ar_Start) (lsRebalancer l) = (if hasAutoRebalance cfg then Some 1 else None)"
    by (simp add: l(4) ar_Start_def New_AutoRebalancer_def)
  have served: "\<exists>s. proxyMain rf um wd opens now path = MainServes s
      \<and> lsOpen (ruListener s) = fst ` set (Clusters cfg) \<and> lsPortMap (ruListener s) = BuildPortMap cfg
      \<and> lsRefreshers (ruListener s) = lsRefreshers (NewListener cfg)
      \<and> lsRebalancer (ruListener s) = map_option ar_Start (lsRebalancer l) \<and> ruMonitor s = startMonitor now cfg"
    if "\<forall>(n, cl)\<in>set (Clusters cfg). opens n"
    unfolding main start [OF that] using l(2,3) by simp
  show ?thesis
  proof (intro conjI impI allI)
    assume "\<forall>(n, cl)\<in>set (Clusters cfg). opens n"
    from served [OF this] obtain s where s: "proxyMain rf um wd opens now path = MainServes s"
      "lsOpen (ruListener s) = fst ` set (Clusters cfg)" "lsPortMap (ruListener s) = BuildPortMap cfg"
      "lsRefreshers (ruListener s) = lsRefreshers (NewListener cfg)"
      "lsRebalancer (ruListener s) = map_option ar_Start (lsRebalancer l)" "ruMonitor s = startMonitor now cfg" by blast
    show "\<exists>s. proxyMain rf um wd opens now path = MainServes s
      \<and> lsOpen (ruListener s) = fst ` set (Clusters cfg)
      \<and> (\<forall>p n. lsPortMap (ruListener s) p = Some n \<longleftrightarrow> (\<exists>cl. (n, cl) \<in> set (Clusters cfg) \<and> Port cl = p))
      \<and> (\<forall>(n, cl)\<in>set (Clusters cfg). let m = moManager (ruMonitor s) in
          (Mode cl = ModeActivePassive \<longrightarrow> TargetForRouting (mgSM m) (mgDM m) (Some (mgControllers m)) n = (Active cl, True))
        \<and> (mgControllers m n \<noteq> None \<longleftrightarrow> Mode cl = ModeActivePassive \<and> AutoFailover (HealthCheck cl))
        \<and> (n \<in> dom (ckLive (moChecker (ruMonitor s))) \<longleftrightarrow> Enabled (HealthCheck cl)))
      \<and> ActiveClusters (lsRefreshers (ruListener s)) = set (allConfigBootstraps cfg)
      \<and> map_option arLoops (lsRebalancer (ruListener s)) = (if hasAutoRebalance cfg then Some 1 else None)
      \<and> moLoop (ruMonitor s) \<and> mgHasChecker (moManager (ruMonitor s)) \<and> named (moManager (ruMonitor s))
      \<and> dr_reach cfg (moManager (ruMonitor s))"
      unfolding Let_def
      by (rule exI [of _ s])
         (use s(1,2) all nm hc loops ports NewListener_fresh(3) [of cfg] dr_reach.start [of cfg] in
          \<open>simp add: s(3-6) mon option.map_comp\<close>)
  next
    assume "\<exists>(n, cl)\<in>set (Clusters cfg). \<not> opens n"
    then show "proxyMain rf um wd opens now path = MainExit 1" by (simp add: main stop)
  next
    fix e rf' path'
    assume "NewReloader rf' um wd path' = (Inl e :: error + reload_callback Reloader)"
    then show "proxyMain rf' um wd opens now path' = MainExit 1" by (simp add: proxyMain_def)
  qed
qed



theorem startup_serves_witness:
  "\<exists>s. proxyMain (\<lambda>_. Inr []) (\<lambda>_. Inr sample_config) (\<lambda>_. None) (\<lambda>_. True) 7 ''c.yaml'' = MainServes s
     \<and> lsOpen (ruListener s) = {''finance'', ''logistics''} \<and> lsPortMap (ruListener s) 9094 = Some ''logistics''"
proof -
  obtain cfg where v: "Config_Validate (applyDefaults sample_config) = Inr cfg" using sample_loads by blast
  have cl: "Clusters cfg = Clusters sample_config" using Config_Validate_Inr(1) [OF v] sample_defaults by simp
  obtain rl :: "reload_callback Reloader" where rl: "NewReloader (\<lambda>_. Inr []) (\<lambda>_. Inr sample_config) (\<lambda>_. None) ''c.yaml'' = Inr rl" "rlConfig rl = cfg"
    using v by (simp add: NewReloader_def LoadConfig_def)
  have d: "distinct (map fst (Clusters (rlConfig rl)))" by (simp add: rl(2) cl sample_config_def)
  have o: "\<forall>(n, c)\<in>set (Clusters (rlConfig rl)). True" by simp
  from startup_serves [OF rl(1) d, of "\<lambda>_. True" 7] o obtain s
    where s: "proxyMain (\<lambda>_. Inr []) (\<lambda>_. Inr sample_config) (\<lambda>_. None) (\<lambda>_. True) 7 ''c.yaml'' = MainServes s"
      "lsOpen (ruListener s) = fst ` set (Clusters (rlConfig rl))"
      "\<forall>p n. lsPortMap (ruListener s) p = Some n \<longleftrightarrow> (\<exists>c. (n, c) \<in> set (Clusters (rlConfig rl)) \<and> Port c = p)" by blast
  then show ?thesis by (intro exI [of _ s]) (simp add: rl(2) cl sample_config_def sample_logistics_def)
qed

end
