(* ===== verification/Config_Decode.thy ===== *)
theory Config_Decode
  imports Config
begin

text \<open>
  Decoding of the two configuration types with a decoder of their own, \<^verbatim>\<open>internal/config/config.go\<close>: durations,
  through \<^verbatim>\<open>time.ParseDuration\<close> of the standard library, and cluster endpoints. A YAML node is its kind and its
  scalar value; decoding a node into a string or into a plain structure is the YAML library's and an
  argument. So is the floating-point product for the digits after a decimal point, \<open>frac f unit scale\<close>.
  \<^verbatim>\<open>uint64\<close> sums wrap around. Strings are bytes, so the micro signs are their UTF-8 encodings.
\<close>

section \<open>Durations\<close>

definition is_digit :: "char \<Rightarrow> bool" where
  "is_digit c \<longleftrightarrow> (48::nat) \<le> of_char c \<and> of_char c \<le> (57::nat)"

definition digit_val :: "char \<Rightarrow> nat" where
  "digit_val c = of_char c - 48"

text \<open>\<open>time.leadingInt\<close>, with the number read so far; \<open>None\<close> is its overflow error.\<close>

fun leadingInt :: "nat \<Rightarrow> string \<Rightarrow> (nat \<times> string) option" where
  "leadingInt x [] = Some (x, [])"
| "leadingInt x (c # s) =
     (if \<not> is_digit c then Some (x, c # s)
      else if 2 ^ 63 div 10 < x then None
      else if 2 ^ 63 < x * 10 + digit_val c then None
      else leadingInt (x * 10 + digit_val c) s)"

text \<open>\<open>time.leadingFraction\<close>: digits that no longer fit are skipped.\<close>

fun leadingFraction :: "nat \<Rightarrow> nat \<Rightarrow> bool \<Rightarrow> string \<Rightarrow> nat \<times> nat \<times> string" where
  "leadingFraction x scale overflow [] = (x, scale, [])"
| "leadingFraction x scale overflow (c # s) =
     (if \<not> is_digit c then (x, scale, c # s)
      else if overflow then leadingFraction x scale True s
      else if (2 ^ 63 - 1) div 10 < x then leadingFraction x scale True s
      else if 2 ^ 63 < x * 10 + digit_val c then leadingFraction x scale True s
      else leadingFraction (x * 10 + digit_val c) (scale * 10) False s)"

definition unitMap :: "string \<rightharpoonup> nat" where
  "unitMap = map_of [(''ns'', 1), (''us'', 1000), ([CHR 0xC2, CHR 0xB5, CHR ''s''], 1000), ([CHR 0xCE, CHR 0xBC, CHR ''s''], 1000),
     (''ms'', 1000000), (''s'', 1000000000), (''m'', 60000000000), (''h'', 3600000000000)]"

definition unit_char :: "char \<Rightarrow> bool" where
  "unit_char c \<longleftrightarrow> c \<noteq> CHR ''.'' \<and> \<not> is_digit c"

text \<open>One number with its unit, in nanoseconds, and the rest of the string.\<close>

definition parseOne :: "(nat \<Rightarrow> nat \<Rightarrow> nat \<Rightarrow> nat) \<Rightarrow> string \<Rightarrow> error + nat \<times> string" where
  "parseOne frac s =
     (case s of
        [] \<Rightarrow> Inl (Errorf ''time: invalid duration'')
      | c # _ \<Rightarrow>
          if \<not> (c = CHR ''.'' \<or> is_digit c) then Inl (Errorf ''time: invalid duration'')
          else case leadingInt 0 s of
            None \<Rightarrow> Inl (Errorf ''time: invalid duration'')
          | Some (v, s1) \<Rightarrow>
              let pre = (length s \<noteq> length s1);
                  (f, scale, s2, post) =
                    (if s1 \<noteq> [] \<and> hd s1 = CHR ''.''
                     then (case leadingFraction 0 1 False (tl s1) of (f, scale, s2) \<Rightarrow> (f, scale, s2, length (tl s1) \<noteq> length s2))
                     else (0, 1, s1, False));
                  u = takeWhile unit_char s2
              in if \<not> pre \<and> \<not> post then Inl (Errorf ''time: invalid duration'')
                 else if u = [] then Inl (Errorf ''time: missing unit in duration'')
                 else case unitMap u of
                   None \<Rightarrow> Inl (Errorf ''time: unknown unit in duration'')
                 | Some unit \<Rightarrow>
                     if 2 ^ 63 div unit < v then Inl (Errorf ''time: invalid duration'')
                     else let v = (if 0 < f then (v * unit + frac f unit scale) mod 2 ^ 64 else v * unit)
                          in if 2 ^ 63 < v then Inl (Errorf ''time: invalid duration'')
                             else Inr (v, dropWhile unit_char s2))"

lemma leadingInt_length: "leadingInt x s = Some (v, s') \<Longrightarrow> length s' \<le> length s"
  by (induction x s rule: leadingInt.induct) (auto split: if_splits)

lemma leadingFraction_length: "leadingFraction x sc ov s = (f, sc', s') \<Longrightarrow> length s' \<le> length s"
  by (induction x sc ov s rule: leadingFraction.induct) (auto split: if_splits)

lemma dropWhile_shorter: "takeWhile P xs \<noteq> [] \<Longrightarrow> length (dropWhile P xs) < length xs"
  by (cases xs) (auto intro: length_dropWhile_le le_imp_less_Suc split: if_splits)

lemma parseOne_shorter:
  assumes "parseOne frac s = Inr (v, rest)"
  shows "length rest < length s" and "v \<le> 2 ^ 63"
proof -
  obtain w s1 where w: "leadingInt 0 s = Some (w, s1)" using assms by (auto simp: parseOne_def split: list.splits if_splits option.splits)
  define s2 where "s2 = (if s1 \<noteq> [] \<and> hd s1 = CHR ''.'' then snd (snd (leadingFraction 0 1 False (tl s1))) else s1)"
  have s2: "length s2 \<le> length s1"
    using leadingFraction_length [of 0 1 False "tl s1"] by (cases "leadingFraction 0 1 False (tl s1)") (auto simp: s2_def)
  have r: "rest = dropWhile unit_char s2 \<and> takeWhile unit_char s2 \<noteq> [] \<and> v \<le> 2 ^ 63"
    using assms unfolding parseOne_def s2_def w
    by (auto simp: Let_def split: list.splits if_splits option.splits prod.splits)
  then show "v \<le> 2 ^ 63" by simp
  show "length rest < length s" using r dropWhile_shorter [of unit_char s2] s2 leadingInt_length [OF w] by simp
qed


text \<open>The loop of \<open>ParseDuration\<close> over numbers with units.\<close>

function parseParts :: "(nat \<Rightarrow> nat \<Rightarrow> nat \<Rightarrow> nat) \<Rightarrow> nat \<Rightarrow> string \<Rightarrow> error + nat" where
  "parseParts frac d s =
     (if s = [] then Inr d
      else case parseOne frac s of
             Inl e \<Rightarrow> Inl e
           | Inr (v, rest) \<Rightarrow>
               if 2 ^ 63 < (d + v) mod 2 ^ 64 then Inl (Errorf ''time: invalid duration'')
               else parseParts frac ((d + v) mod 2 ^ 64) rest)"
  by pat_completeness auto
termination
  by (relation "measure (\<lambda>(frac, d, s). length s)") (auto dest: parseOne_shorter(1))

declare parseParts.simps [simp del]

definition ParseDuration :: "(nat \<Rightarrow> nat \<Rightarrow> nat \<Rightarrow> nat) \<Rightarrow> string \<Rightarrow> error + Duration" where
  "ParseDuration frac s =
     (let neg = (s \<noteq> [] \<and> hd s = CHR ''-'');
          s = (if s \<noteq> [] \<and> (hd s = CHR ''-'' \<or> hd s = CHR ''+'') then tl s else s)
      in if s = ''0'' then Inr 0
         else if s = '''' then Inl (Errorf ''time: invalid duration'')
         else case parseParts frac 0 s of
                Inl e \<Rightarrow> Inl e
              | Inr d \<Rightarrow>
                  if neg then Inr (- int d)
                  else if 2 ^ 63 - 1 < d then Inl (Errorf ''time: invalid duration'')
                  else Inr (int d))"

section \<open>YAML nodes\<close>

datatype yaml_kind = DocumentNode | SequenceNode | MappingNode | ScalarNode | AliasNode

record yaml_node =
  ynKind :: yaml_kind
  ynValue :: string

text \<open>
  A failed decode leaves the old duration. The endpoint decoder takes any node: a scalar is the bootstrap
  alone, a mapping is decoded field by field, and everything else leaves the endpoint as it is.
\<close>

definition Duration_UnmarshalYAML ::
  "(yaml_node \<Rightarrow> error + string) \<Rightarrow> (nat \<Rightarrow> nat \<Rightarrow> nat \<Rightarrow> nat) \<Rightarrow> yaml_node \<Rightarrow> Duration \<Rightarrow> error option \<times> Duration" where
  "Duration_UnmarshalYAML decode frac value d =
     (case decode value of
        Inl e \<Rightarrow> (Some e, d)
      | Inr s \<Rightarrow> (case ParseDuration frac s of Inl e \<Rightarrow> (Some e, d) | Inr dur \<Rightarrow> (None, dur)))"

definition ClusterEndpoint_UnmarshalYAML ::
  "(yaml_node \<Rightarrow> ClusterEndpoint \<Rightarrow> error option \<times> ClusterEndpoint) \<Rightarrow> yaml_node \<Rightarrow> ClusterEndpoint \<Rightarrow> error option \<times> ClusterEndpoint" where
  "ClusterEndpoint_UnmarshalYAML decode value e =
     (case ynKind value of
        ScalarNode \<Rightarrow> (None, e\<lparr>Bootstrap := ynValue value\<rparr>)
      | MappingNode \<Rightarrow> decode value e
      | _ \<Rightarrow> (None, e))"

section \<open>Lemmas\<close>

lemma parseParts_bound: "d \<le> 2 ^ 63 \<Longrightarrow> parseParts frac d s = Inr n \<Longrightarrow> n \<le> 2 ^ 63"
  by (induction frac d s rule: parseParts.induct)
     (subst (asm) (2) parseParts.simps, auto split: if_splits sum.splits simp: not_less)

lemma of_char_digit [simp]: "d < 10 \<Longrightarrow> is_digit (digit_char d)" "d < 10 \<Longrightarrow> digit_val (digit_char d) = d"
  by (simp_all add: is_digit_def digit_val_def of_char_digit_char)

lemma show_nat_digits: "c \<in> set (show_nat n) \<Longrightarrow> is_digit c"
  using set_show_nat [of n] by auto

abbreviation digits_from :: "nat \<Rightarrow> string \<Rightarrow> nat" where
  "digits_from x ds \<equiv> foldl (\<lambda>n c. n * 10 + digit_val c) x ds"

lemma digits_from_ge: "x \<le> digits_from x ds"
proof (induction ds arbitrary: x)
  case (Cons c ds)
  have "x \<le> x * 10 + digit_val c" by simp
  then show ?case using Cons.IH [of "x * 10 + digit_val c"] by (simp only: foldl_Cons order_trans)
qed simp

lemma leadingInt_digits:
  assumes "\<forall>c\<in>set ds. is_digit c" and "rest \<noteq> [] \<longrightarrow> \<not> is_digit (hd rest)" and "x \<le> 2 ^ 63"
  shows "leadingInt x (ds @ rest) = (if digits_from x ds \<le> 2 ^ 63 then Some (digits_from x ds, rest) else None)"
  using assms(1,3)
proof (induction ds arbitrary: x)
  case Nil
  then show ?case using assms(2) by (cases rest) auto
next
  case (Cons c ds)
  let ?y = "x * 10 + digit_val c"
  have ge: "?y \<le> digits_from ?y ds" by (rule digits_from_ge)
  show ?case
  proof (cases "?y \<le> 2 ^ 63")
    case True
    then show ?thesis using Cons by simp
  next
    case False
    then show ?thesis using Cons.prems ge by simp
  qed
qed

lemma digits_show_nat: "digits_from 0 (show_nat n) = n"
  using read_nat_show_nat [of n] by (simp add: digit_val_def)

lemma unitMap_props:
  assumes "unitMap u = Some k"
  shows "u \<noteq> []" and "\<forall>c\<in>set u. unit_char c" and "0 < k" and "k dvd 3600000000000"
proof -
  have "u \<noteq> [] \<and> (\<forall>c\<in>set u. unit_char c) \<and> 0 < k \<and> k dvd 3600000000000"
    using assms by (auto simp: unitMap_def unit_char_def is_digit_def split: if_splits)
  then show "u \<noteq> []" "\<forall>c\<in>set u. unit_char c" "0 < k" "k dvd 3600000000000" by simp_all
qed

lemma show_nat_hd: "show_nat n \<noteq> []" "is_digit (hd (show_nat n))"
proof -
  show "show_nat n \<noteq> []" by (simp add: show_nat.simps [of n])
  then show "is_digit (hd (show_nat n))" using show_nat_digits [of "hd (show_nat n)" n] by simp
qed

lemma parseOne_number:
  assumes "unitMap u = Some k"
  shows "parseOne frac (show_nat n @ u) = (if n * k \<le> 2 ^ 63 then Inr (n * k, []) else Inl (Errorf ''time: invalid duration''))"
proof -
  note u = unitMap_props [OF assms]
  have hd_u: "unit_char (hd u)" using u(1,2) by simp
  have li: "leadingInt 0 (show_nat n @ u) = (if n \<le> 2 ^ 63 then Some (n, u) else None)"
    using leadingInt_digits [of "show_nat n" u 0] show_nat_digits hd_u by (simp add: digits_show_nat unit_char_def)
  have tw: "takeWhile unit_char u = u" "dropWhile unit_char u = []" using u(2) by auto
  have dv: "2 ^ 63 div k < n \<longleftrightarrow> 2 ^ 63 < n * k" using u(3) by (simp add: div_less_iff_less_mult)
  have big: "\<not> n \<le> 2 ^ 63 \<Longrightarrow> \<not> n * k \<le> 2 ^ 63" using u(3) by (cases k) auto
  obtain c cs where s: "show_nat n = c # cs" "is_digit c" using show_nat_hd [of n] by (cases "show_nat n") auto
  have dot: "hd u \<noteq> CHR ''.''" using hd_u by (simp add: unit_char_def)
  note li' = li [unfolded s(1) append_Cons]
  have len: "length (c # cs @ u) \<noteq> length u" by simp
  show ?thesis
  proof (cases "n \<le> 2 ^ 63")
    case False
    then show ?thesis using li' big s by (simp add: parseOne_def)
  next
    case True
    then have "parseOne frac (c # cs @ u) = (if 2 ^ 63 div k < n then Inl (Errorf ''time: invalid duration'')
        else if 2 ^ 63 < n * k then Inl (Errorf ''time: invalid duration'') else Inr (n * k, []))"
      using li' s(2) u(1) assms dot len by (simp add: parseOne_def Let_def tw)
    then show ?thesis using dv s(1) by auto
  qed
qed

text \<open>
  Durations of the configuration. A decimal number with a unit is that many of the unit's nanoseconds when the
  product fits into 63 bits, positive or negative, and an error otherwise; and no string gives a
  duration outside the range of \<^verbatim>\<open>int64\<close>.
\<close>
theorem duration_strings:
  assumes "unitMap u = Some k"
  shows "ParseDuration frac (show_nat n @ u) = (if int (n * k) \<le> maxDuration then Inr (int (n * k)) else Inl (Errorf ''time: invalid duration''))
    \<and> ParseDuration frac (CHR ''-'' # show_nat n @ u) = (if minDuration \<le> - int (n * k) then Inr (- int (n * k)) else Inl (Errorf ''time: invalid duration''))"
proof -
  have pp: "parseParts frac 0 (show_nat n @ u) = (if n * k \<le> 2 ^ 63 then Inr (n * k) else Inl (Errorf ''time: invalid duration''))"
    using parseOne_number [OF assms, of frac n] unitMap_props(1) [OF assms]
    by (subst parseParts.simps) (auto simp: parseParts.simps [of _ _ "[]"] mod_less)
  have c: "hd (show_nat n @ u) \<noteq> CHR ''-''" "hd (show_nat n @ u) \<noteq> CHR ''+''" "show_nat n @ u \<noteq> ''0''" "show_nat n @ u \<noteq> ''''"
    using show_nat_hd [of n] unitMap_props(1) [OF assms] by (auto simp: is_digit_def hd_append append_eq_Cons_conv)
  have "int m \<le> maxDuration \<longleftrightarrow> m \<le> 2 ^ 63 - 1" "minDuration \<le> - int m \<longleftrightarrow> m \<le> 2 ^ 63" for m
    by (auto simp: maxDuration_def minDuration_def)
  note z = this [of "n * k"]
  show ?thesis using c pp unfolding z by (auto simp: ParseDuration_def Let_def)
qed

theorem duration_in_range: "ParseDuration frac s = Inr d \<Longrightarrow> minDuration \<le> d \<and> d \<le> maxDuration"
  using parseParts_bound [of 0 frac] 
  by (fastforce simp: ParseDuration_def Let_def maxDuration_def minDuration_def split: if_splits sum.splits)


text \<open>
  An endpoint written as a sequence decodes without an error, into an endpoint without a bootstrap; a cluster
  with such a primary is then refused by the validation, whatever its mode.
\<close>
theorem misshapen_endpoint_refused:
  assumes "ynKind value \<notin> {ScalarNode, MappingNode}"
    and "ClusterEndpoint_UnmarshalYAML decode value \<lparr>Bootstrap = '''', Weight = 0\<rparr> = (err, Primary c)"
  shows "err = None \<and> (\<exists>e. Cluster_Validate c = Inl e)"
proof -
  have "err = None" "Bootstrap (Primary c) = ''''"
    using assms by (cases "ynKind value"; auto simp: ClusterEndpoint_UnmarshalYAML_def dest: arg_cong [where f = Bootstrap])+
  then show ?thesis by (simp add: Cluster_Validate_def)
qed

end
