(* ===== verification/Logger.thy ===== *)
theory Logger
  imports Go_Prelude
begin

text \<open>
  Structured logging, \<^verbatim>\<open>internal/logger/logger.go\<close>. The package wraps \<^verbatim>\<open>log/slog\<close>: a logger is its handler's
  minimum level, output format and writer, and the attributes attached to it; a call emits one line to the
  writer, or nothing below the level. Arguments of a call are key-value pairs. The package's own state is
  the default logger and the flag of its \<^verbatim>\<open>sync.Once\<close>.
\<close>

section \<open>Loggers\<close>

datatype Level = LevelDebug | LevelInfo | LevelWarn | LevelError

definition level_num :: "Level \<Rightarrow> int" where
  "level_num l = (case l of LevelDebug \<Rightarrow> -4 | LevelInfo \<Rightarrow> 0 | LevelWarn \<Rightarrow> 4 | LevelError \<Rightarrow> 8)"

definition level_string :: "Level \<Rightarrow> string" where
  "level_string l = (case l of LevelDebug \<Rightarrow> ''DEBUG'' | LevelInfo \<Rightarrow> ''INFO'' | LevelWarn \<Rightarrow> ''WARN'' | LevelError \<Rightarrow> ''ERROR'')"

datatype attr_value = StrAttr string | IntAttr int

datatype format = FormatJSON | FormatText

type_synonym attr = "string \<times> attr_value"

text \<open>Writers are named by numbers; 0 is standard error.\<close>

record Logger =
  lgLevel :: Level
  lgFormat :: format
  lgWriter :: nat
  lgAttrs :: "attr list"

definition parseLevel :: "string \<Rightarrow> Level" where
  "parseLevel level =
     (if level = ''debug'' then LevelDebug else if level = ''warn'' then LevelWarn
      else if level = ''error'' then LevelError else LevelInfo)"

definition Logger_New :: "string \<Rightarrow> nat option \<Rightarrow> Logger" where
  "Logger_New level w = \<lparr>lgLevel = parseLevel level, lgFormat = FormatJSON, lgWriter = (case w of None \<Rightarrow> 0 | Some n \<Rightarrow> n), lgAttrs = []\<rparr>"

definition newText :: "string \<Rightarrow> nat option \<Rightarrow> Logger" where
  "newText level w = \<lparr>lgLevel = parseLevel level, lgFormat = FormatText, lgWriter = (case w of None \<Rightarrow> 0 | Some n \<Rightarrow> n), lgAttrs = []\<rparr>"

text \<open>
  The \<open>ReplaceAttr\<close> of the JSON handler; an attribute it empties is left out of the line. \<open>attr_String\<close> is
  the value's \<open>String\<close> method.
\<close>

definition attr_String :: "attr_value \<Rightarrow> string" where
  "attr_String v = (case v of StrAttr s \<Rightarrow> s | IntAttr i \<Rightarrow> show_int i)"

definition ReplaceAttr :: "attr \<Rightarrow> attr option" where
  "ReplaceAttr = (\<lambda>(key, v).
     if key = ''time'' then None
     else if key = ''msg'' then Some (''message'', StrAttr (attr_String v))
     else Some (key, v))"

definition Logger_With :: "attr list \<Rightarrow> Logger \<Rightarrow> Logger" where
  "Logger_With args l = l\<lparr>lgAttrs := lgAttrs l @ args\<rparr>"

definition WithCorrelationID :: "int32 \<Rightarrow> Logger \<Rightarrow> Logger" where
  "WithCorrelationID i l = l\<lparr>lgAttrs := lgAttrs l @ [(''correlation_id'', IntAttr (sint i))]\<rparr>"

definition WithBU :: "string \<Rightarrow> Logger \<Rightarrow> Logger" where
  "WithBU bu l = l\<lparr>lgAttrs := lgAttrs l @ [(''bu'', StrAttr bu)]\<rparr>"

definition WithClientID :: "string \<Rightarrow> Logger \<Rightarrow> Logger" where
  "WithClientID clientID l = l\<lparr>lgAttrs := lgAttrs l @ [(''client_id'', StrAttr clientID)]\<rparr>"

text \<open>
  What \<open>slog\<close> does with a call: below the handler's level nothing; otherwise the time, the level, the
  message, the logger's attributes and the call's, in this order, each replaced by the handler's option.
\<close>

definition logLine :: "string \<Rightarrow> Level \<Rightarrow> string \<Rightarrow> attr list \<Rightarrow> Logger \<Rightarrow> attr list option" where
  "logLine now level msg args l =
     (if level_num level < level_num (lgLevel l) then None
      else let line = [(''time'', StrAttr now), (''level'', StrAttr (level_string level)), (''msg'', StrAttr msg)] @ lgAttrs l @ args
           in Some (case lgFormat l of FormatJSON \<Rightarrow> List.map_filter ReplaceAttr line | FormatText \<Rightarrow> line))"

definition Logger_Info :: "string \<Rightarrow> string \<Rightarrow> attr list \<Rightarrow> Logger \<Rightarrow> attr list option" where
  "Logger_Info now msg args l = logLine now LevelInfo msg args l"

definition Logger_Warn :: "string \<Rightarrow> string \<Rightarrow> attr list \<Rightarrow> Logger \<Rightarrow> attr list option" where
  "Logger_Warn now msg args l = logLine now LevelWarn msg args l"

definition Logger_Error :: "string \<Rightarrow> string \<Rightarrow> attr list \<Rightarrow> Logger \<Rightarrow> attr list option" where
  "Logger_Error now msg args l = logLine now LevelError msg args l"

definition Logger_Debug :: "string \<Rightarrow> string \<Rightarrow> attr list \<Rightarrow> Logger \<Rightarrow> attr list option" where
  "Logger_Debug now msg args l = logLine now LevelDebug msg args l"

section \<open>The default logger and contexts\<close>

record LoggerPkg =
  defaultLogger :: "Logger option"
  lgOnce :: bool

definition Logger_Default :: "LoggerPkg \<Rightarrow> Logger option \<times> LoggerPkg" where
  "Logger_Default s =
     (let s = (if lgOnce s then s else s\<lparr>defaultLogger := Some (Logger_New ''info'' (Some 0)), lgOnce := True\<rparr>)
      in (defaultLogger s, s))"

definition Logger_L :: "LoggerPkg \<Rightarrow> Logger option \<times> LoggerPkg" where
  "Logger_L s = Logger_Default s"

definition SetDefault :: "Logger option \<Rightarrow> LoggerPkg \<Rightarrow> LoggerPkg" where
  "SetDefault l s = s\<lparr>defaultLogger := l\<rparr>"

definition InitForTest :: "LoggerPkg \<Rightarrow> Logger \<times> LoggerPkg" where
  "InitForTest s = (let l = newText ''info'' (Some 0) in (l, s\<lparr>defaultLogger := Some l\<rparr>))"

definition InitForTestDebug :: "LoggerPkg \<Rightarrow> Logger \<times> LoggerPkg" where
  "InitForTestDebug s = (let l = newText ''debug'' (Some 0) in (l, s\<lparr>defaultLogger := Some l\<rparr>))"

text \<open>A context is nil or a chain of values; only the logger's key is looked up. The value may be a nil logger.\<close>

type_synonym context_values = "(string \<times> Logger option) list"

definition loggerKey :: string where
  "loggerKey = ''kafkaproxy-logger''"

definition Logger_Ctx :: "Logger option \<Rightarrow> context_values \<Rightarrow> context_values" where
  "Logger_Ctx l ctx = (loggerKey, l) # ctx"

definition FromCtx :: "context_values option \<Rightarrow> LoggerPkg \<Rightarrow> Logger option \<times> LoggerPkg" where
  "FromCtx ctx s =
     (case ctx of
        None \<Rightarrow> Logger_Default s
      | Some vs \<Rightarrow> (case map_of vs loggerKey of Some (Some l) \<Rightarrow> (Some l, s) | _ \<Rightarrow> Logger_Default s))"

section \<open>Lemmas\<close>

lemma map_filter_append: "List.map_filter f (xs @ ys) = List.map_filter f xs @ List.map_filter f ys"
  by (simp add: List.map_filter_def)

lemma ReplaceAttr_other:
  assumes "\<forall>(k, v)\<in>set xs. k \<noteq> ''time'' \<and> k \<noteq> ''msg''"
  shows "List.map_filter ReplaceAttr xs = xs"
  using assms by (induction xs) (auto simp: ReplaceAttr_def List.map_filter_simps)

text \<open>
  A line of the JSON logger that carries a connection's identity: level, message, the attributes in the
  order they were attached, then those of the call. An attribute of the call named \<open>time\<close> is lost.
\<close>
theorem json_line_exact:
  assumes "lgFormat l = FormatJSON" and "\<forall>(k, v)\<in>set (lgAttrs l @ args). k \<noteq> ''time'' \<and> k \<noteq> ''msg''"
  shows "logLine now level msg args (WithClientID cid (WithCorrelationID i (WithBU bu l))) =
    (if level_num level < level_num (lgLevel l) then None
     else Some ([(''level'', StrAttr (level_string level)), (''message'', StrAttr msg)] @ lgAttrs l
       @ [(''bu'', StrAttr bu), (''correlation_id'', IntAttr (sint i)), (''client_id'', StrAttr cid)] @ args))"
  using assms ReplaceAttr_other [of "lgAttrs l"] ReplaceAttr_other [of args]
  by (auto simp: logLine_def WithClientID_def WithCorrelationID_def WithBU_def map_filter_append List.map_filter_simps ReplaceAttr_def attr_String_def)

text \<open>
  Replacing the default logger works only after somebody has asked for it: the first \<open>Default\<close>
  installs the standard logger over a replacement made earlier.
\<close>
theorem set_default_lost:
  "fst (Logger_Default (SetDefault l s)) = (if lgOnce s then l else Some (Logger_New ''info'' (Some 0)))"
  "fst (Logger_Default (snd (InitForTest s))) = Some (if lgOnce s then newText ''info'' (Some 0) else Logger_New ''info'' (Some 0))"
  "fst (Logger_Default (SetDefault l (snd (Logger_Default s)))) = l"
  by (simp_all add: Logger_Default_def SetDefault_def InitForTest_def Let_def)

text \<open>The logger put into a context is found again, through any values added later under other keys.\<close>
theorem ctx_roundtrip:
  assumes "\<forall>(k, v)\<in>set later. k \<noteq> loggerKey"
  shows "FromCtx (Some (later @ Logger_Ctx (Some l) ctx)) s = (Some l, s)"
proof -
  have "map_of later loggerKey = None" using assms by (auto simp: map_of_eq_None_iff)
  then show ?thesis by (simp add: FromCtx_def Logger_Ctx_def map_add_def)
qed

end
