(* ===== verification/Spec2Isabelle.thy ===== *)
theory Spec2Isabelle
  imports Protocol Config Health State_Machine Controller Drain DR_System Rebalancer Metadata Synthetic_Metadata Sasl
    Listener Connection Config_Watch Observability Shutdown Pool_Lifecycle Monitoring
    Startup Config_Decode Logger
begin

text \<open>
  \<^bold>\<open>Verification of bifrost, a Kafka layer-7 proxy.\<close>

  \<^bold>\<open>The program.\<close> The proxy (Go, under \<^verbatim>\<open>src/\<close>) listens on one port per configured cluster (a
  ``business unit'', BU). A cluster has a primary and a secondary Kafka endpoint and a mode:
  \<^verbatim>\<open>active_passive\<close>, \<^verbatim>\<open>load_balance\<close> or \<^verbatim>\<open>single\<close>. A client connection is sent to one endpoint; the SASL
  exchange is relayed, a first Metadata request is answered with rewritten broker addresses, a first
  Produce or Fetch request is routed to the partition leader, and everything else is copied. A health
  checker probes the endpoints; a failover controller per BU drives a DR state machine, whose changes
  start connection drains; a rebalancer shifts the weights of load-balanced clusters; the configuration
  is reloaded when its file changes; an HTTP server reports metrics and status.

  \<^bold>\<open>Theories and the code they model.\<close>

  \<^item> \<open>Go_Prelude\<close>: what the code uses of Go. Bytes, words and big-endian fields, errors as values with
    panics as a constructor of their own, strings, times and durations in nanoseconds with saturating
    \<open>Since\<close>, map iteration orders, pooled buffers; the generic encoding lemmas; the locales
    \<open>prefix_codec\<close> and \<open>value_codec\<close> of self-delimiting encodings. \<open>Net\<close>: connections as the
    bytes still to be read, the bytes written, and how many more bytes are accepted. \<open>Cursor\<close>: parsers
    that walk over a buffer. \<open>Hysteresis\<close>, \<open>Sliding_Window\<close>: locales for threshold counters and for
    pruned histories, interpreted by the health checker, the controller and the rebalancer.
  \<^item> \<open>Protocol\<close> (\<^verbatim>\<open>internal/protocol\<close>): request and response headers, frames, API versions.
  \<^item> \<open>Config\<close> (\<^verbatim>\<open>internal/config/config.go, reloader.go, parser.go\<close>): the configuration records,
    validation, defaults, the port map, reload with the last good configuration, the cluster diff.
    \<open>Config_Decode\<close>: the decoders the package hands to the YAML library, durations and endpoints.
    \<open>Config_Watch\<close> (\<^verbatim>\<open>reloader.go, watcher.go\<close>): the two debouncing file-event loops.
  \<^item> \<open>Health\<close> (\<^verbatim>\<open>internal/health\<close>): the health state of an endpoint, one probe, the SASL/PLAIN client,
    the adaptive schedule.
  \<^item> \<open>State_Machine\<close>, \<open>Controller\<close>, \<open>Rebalancer\<close> (\<^verbatim>\<open>internal/failover\<close>): the BU states and their graph,
    with \<open>Transition\<close> also as an interleaving of its lock sections; the failover decision with cooldown
    and circuit breaker; the connection-driven rebalancer.
  \<^item> \<open>Drain\<close> (\<^verbatim>\<open>internal/proxy/drain.go\<close>): tracked connections, drains, timers. \<open>DR_System\<close>
    (\<^verbatim>\<open>dr_coordinator.go\<close>, \<^verbatim>\<open>failover/manager.go\<close>, start-up and reload of \<^verbatim>\<open>cmd/proxy/main.go\<close>): all of the
    above wired by their callbacks into one step relation \<open>dr_step\<close>. \<open>Monitoring\<close> (\<^verbatim>\<open>health/checker.go,
    failover/manager.go\<close>): the goroutines and tickers that drive it, round by round.
  \<^item> \<open>Metadata\<close>, \<open>Synthetic_Metadata\<close>, \<open>Sasl\<close>, \<open>Leader_Cache\<close>, \<open>Routing\<close>, \<open>Auto_Rebalance\<close>
    (\<^verbatim>\<open>internal/routing\<close> and \<^verbatim>\<open>internal/pool/leader_cache.go\<close>): rewriting and merging of Metadata
    responses, the SASL relay, the leader caches (locale \<open>leader_cache\<close>, interpreted by the nested and the
    flat one) with refresh and background refreshers, the Produce/Fetch router, and the health-driven
    weights. \<open>Conn_Pool\<close> (\<^verbatim>\<open>internal/pool/pool.go\<close>): the broker connection pool,
    one call at a time; \<open>Pool_Lifecycle\<close>: its calls interleaved with \<open>Close\<close>. \<open>Readers\<close>: the
    readers that put peeked bytes back in front of a stream.
  \<^item> \<open>Listener\<close>, \<open>Connection\<close> (\<^verbatim>\<open>internal/proxy/listener.go, connection.go\<close>): the routing state the
    listener owns and what a reload does to it; the whole handler of one client connection.
  \<^item> \<open>Observability\<close> (\<^verbatim>\<open>internal/server\<close>): scrape, status, adapter. \<open>Shutdown\<close> (\<^verbatim>\<open>cmd/proxy/main.go\<close>):
    the signal goroutine against the main goroutine. \<open>Startup\<close>: \<^verbatim>\<open>main\<close> from the arguments to the blocking
    wait, with \<^verbatim>\<open>server.Start\<close>. \<open>Logger\<close> (\<^verbatim>\<open>internal/logger\<close>): the JSON handler, levels, context keys.

  \<^bold>\<open>State and operations.\<close> Each struct is a record with the source's fields (prefixed where names
  clash), each method a function that takes and returns the state; \<open>error + 'a\<close> and options stand for Go's
  error results, and a panic is an error value that callers pass on unwrapped. What the code gets from
  outside (file contents, YAML decoding, dialling, what a peer sends, times, random numbers, the order
  in which a map is visited, how far a copy runs before a connection ends) is an argument.

  \<^bold>\<open>What is proved.\<close>

  \<^item> Failover: a drain always ends at the destination it announced (C1); a primary that stays down is
    failed over within a bounded number of rounds of the checker (C2); the decision of every evaluation
    (C5), its rate limits (C6), BOTH\_DOWN and where new connections go meanwhile (C7); concurrent transitions are linearizable (C9); drains
    keep their books (C16) and close exactly the old connections (C17); the detours and late timers the
    code has (C35, C36); hysteresis and delays of the health state (C24, C39).
  \<^item> Data path: transparency of connections (C4), of the SASL relay (C22, C23) and of routed requests
    (C11), with the bytes peeked at put back (C12); exact rewriting (C8) and merging (C20, C21) of
    Metadata; interception on every branch (C10); what a failover does not reach, requests routed
    from the start of a connection (C3); routing of requests (C13, C14, C37); request headers (C38).
  \<^item> Shared structures: the pool's slots (C28) and its \<open>Close\<close> (C29), the leader caches and refreshers
    (C30, C31, C32), weights (C25, C27), reload and watching (C26, C33, C34), status and metrics (C18,
    C40).
  \<^item> Process: start-up ends in a proxy that serves every valid cluster it could open (C15), and what
    a termination signal does to the open connections (C19).

  Some of these state behaviour that is not what the code means to do, exactly as the code has it: C3,
  C10, C14, C19, C25, C26, C29, C35, C36 and parts of C4, C7, C18, C33, C37, C39 and C40.

  \<^bold>\<open>Bounds and fuel.\<close> Loops are structural or have a termination proof (the SASL exchange by the
    client's remaining bytes, the parsers by the number of remaining entries, the pool's \<open>Get\<close> by its
    idle connections). The one exception is \<open>rw_ReadFull\<close> in \<open>Readers\<close>, which takes fuel because a
    reader may return no bytes and no error; one turn more than there are bytes wanted is enough for
    the readers of the code, which is proved there. Wire integers are 8-, 16- and 32-bit words read as
    signed where the code does, connection ids and counters 64-bit words. Go's \<^verbatim>\<open>int\<close> and times are unbounded.

  \<^bold>\<open>Not modelled.\<close> The calls of the logger (they have no effect on the proxy's state; the logger itself is
  in \<open>Logger\<close>); YAML parsing, TLS, HTTP, JSON escaping, Prometheus and fsnotify, which are libraries;
  the goroutines around loops whose bodies are modelled (their firings are events); data races: except
  in \<open>State_Machine\<close>, \<open>Leader_Cache\<close> (refreshers), \<open>Pool_Lifecycle\<close>, \<open>Monitoring\<close> and \<open>Shutdown\<close>, a method
  is one atomic step, which the code's mutexes justify per object but not across objects. Floating-point
  rounding in the metrics is not modelled.
\<close>

end
